(* ===== verification/Prelude.thy ===== *)
theory Prelude
  imports Main "HOL-Library.Word" "HOL-Library.Monad_Syntax"
begin

text \<open>
  Shared vocabulary of the development: the machine types of the Rust sources, the
  reading of a panic as \<open>None\<close>, checked indexing, slice copies and the little-endian
  layout of integer arrays in byte blocks.

  A Rust function that may panic is a HOL function into \<open>'a option\<close>; \<open>None\<close> is the
  panic (a failed \<open>assert!\<close>, \<open>unwrap\<close> on \<open>None\<close>, an index out of range) and, for
  the block layer, also the self-deadlock of a spin lock taken twice. A Rust value of
  type \<open>Option<T>\<close> returned normally is then \<open>Some None\<close> or \<open>Some (Some x)\<close>.
\<close>

section \<open>Machine types\<close>

type_synonym u8 = "8 word"
type_synonym u64 = "64 word"
type_synonym usize = "64 word"

named_theorems block_simps \<comment> \<open>rewriting of block-level reads and writes\<close>
named_theorems wf_intros \<comment> \<open>preservation of well-formedness\<close>

text \<open>The cast \<open>as u32\<close> from a wider unsigned integer keeps the low 32 bits.\<close>

definition as_u32 :: "nat \<Rightarrow> nat" where
  "as_u32 n = n mod 2 ^ 32"

lemma as_u32_small [simp]: "n < 2 ^ 32 \<Longrightarrow> as_u32 n = n"
  by (simp add: as_u32_def)

lemma as_u32_bound [simp]: "as_u32 n < 4294967296"
  by (simp add: as_u32_def)

section \<open>Panics, assertions and checked indexing\<close>

text \<open>\<open>assert!(b)\<close> as a statement: \<open>None\<close> when it fails.\<close>

definition assert_opt :: "bool \<Rightarrow> unit option" where
  "assert_opt b = (if b then Some () else None)"

lemma assert_opt_simps [simp]:
  "assert_opt True = Some ()"
  "assert_opt False = None"
  "assert_opt b = Some u \<longleftrightarrow> b"
  "assert_opt b = None \<longleftrightarrow> \<not> b"
  by (simp_all add: assert_opt_def)

lemma assert_opt_bind [simp]: "Option.bind (assert_opt b) f = (if b then f () else None)"
  by (simp add: assert_opt_def)

text \<open>Slice indexing \<open>xs[i]\<close>: a panic out of range.\<close>

definition nth_opt :: "'a list \<Rightarrow> nat \<Rightarrow> 'a option" where
  "nth_opt xs i = (if i < length xs then Some (xs ! i) else None)"

lemma nth_opt_simps [simp]:
  "i < length xs \<Longrightarrow> nth_opt xs i = Some (xs ! i)"
  "length xs \<le> i \<Longrightarrow> nth_opt xs i = None"
  "nth_opt xs i = None \<longleftrightarrow> length xs \<le> i"
  by (auto simp: nth_opt_def)

lemma nth_opt_Some [simp]: "nth_opt xs i = Some x \<longleftrightarrow> i < length xs \<and> xs ! i = x"
  by (auto simp: nth_opt_def)

text \<open>\<open>iter().position(p)\<close>: the first index whose element satisfies \<open>p\<close>.\<close>

fun position :: "('a \<Rightarrow> bool) \<Rightarrow> 'a list \<Rightarrow> nat option" where
  "position p [] = None"
| "position p (x # xs) = (if p x then Some 0 else map_option Suc (position p xs))"

lemma position_None [simp]: "position p xs = None \<longleftrightarrow> (\<forall>x\<in>set xs. \<not> p x)"
  by (induction xs) auto

lemma position_Some:
  "position p xs = Some i \<longleftrightarrow> i < length xs \<and> p (xs ! i) \<and> (\<forall>j<i. \<not> p (xs ! j))"
proof (induction xs arbitrary: i)
  case Nil
  then show ?case by simp
next
  case (Cons x xs)
  show ?case
  proof (cases i)
    case 0
    then show ?thesis by auto
  next
    case (Suc k)
    then show ?thesis
      using Cons.IH [of k] by (auto simp: All_less_Suc2)
  qed
qed

text \<open>A \<open>for\<close> loop whose body updates the state and may panic.\<close>

fun fold_opt :: "('a \<Rightarrow> 's \<Rightarrow> 's option) \<Rightarrow> 'a list \<Rightarrow> 's \<Rightarrow> 's option" where
  "fold_opt f [] s = Some s"
| "fold_opt f (x # xs) s = do { s' \<leftarrow> f x s; fold_opt f xs s' }"

lemma fold_opt_append [simp]:
  "fold_opt f (xs @ ys) s = do { s' \<leftarrow> fold_opt f xs s; fold_opt f ys s' }"
proof (induction xs arbitrary: s)
  case (Cons x xs)
  then show ?case by (cases "f x s") simp_all
qed simp

lemma fold_opt_ConsE:
  assumes "fold_opt f (x # xs) s = Some s'"
  obtains t where "f x s = Some t" "fold_opt f xs t = Some s'"
  using assms by (auto simp: bind_eq_Some_conv)

section \<open>Slice copies\<close>

text \<open>\<open>xs[i..i + ys.len()].copy_from_slice(ys)\<close>, for a range inside \<open>xs\<close>.\<close>

definition splice :: "nat \<Rightarrow> 'a list \<Rightarrow> 'a list \<Rightarrow> 'a list" where
  "splice i ys xs = take i xs @ ys @ drop (i + length ys) xs"

lemma length_splice [simp]:
  "i + length ys \<le> length xs \<Longrightarrow> length (splice i ys xs) = length xs"
  by (simp add: splice_def)

lemma nth_splice:
  "i + length ys \<le> length xs \<Longrightarrow> k < length xs \<Longrightarrow>
   splice i ys xs ! k = (if i \<le> k \<and> k < i + length ys then ys ! (k - i) else xs ! k)"
  by (auto simp: splice_def nth_append min_def)

lemma take_drop_splice [simp]:
  "i + length ys \<le> length xs \<Longrightarrow> take (length ys) (drop i (splice i ys xs)) = ys"
  by (simp add: splice_def)

lemma splice_Nil [simp]: "splice i [] xs = xs"
  by (simp add: splice_def)

section \<open>Little-endian integers in byte lists\<close>

fun le_bytes :: "nat \<Rightarrow> nat \<Rightarrow> u8 list" where
  "le_bytes 0 n = []"
| "le_bytes (Suc k) n = word_of_nat n # le_bytes k (n div 256)"

fun le_nat :: "u8 list \<Rightarrow> nat" where
  "le_nat [] = 0"
| "le_nat (x # xs) = unat x + 256 * le_nat xs"

lemma length_le_bytes [simp]: "length (le_bytes k n) = k"
  by (induction k arbitrary: n) auto

lemma le_nat_bound: "le_nat xs < 256 ^ length xs"
proof (induction xs)
  case Nil
  then show ?case by simp
next
  case (Cons x xs)
  have "unat x < 256" using unsigned_less [of x] by simp
  with Cons show ?case by simp
qed

lemma le_nat_le_bytes: "le_nat (le_bytes k n) = n mod 256 ^ k"
proof (induction k arbitrary: n)
  case 0
  then show ?case by simp
next
  case (Suc k)
  have "n mod 256 ^ Suc k = n mod 256 + 256 * (n div 256 mod 256 ^ k)"
    by (simp add: mod_mult2_eq)
  with Suc show ?case by (simp add: unsigned_of_nat take_bit_eq_mod)
qed

lemma le_nat_le_bytes_small [simp]: "n < 256 ^ k \<Longrightarrow> le_nat (le_bytes k n) = n"
  by (simp add: le_nat_le_bytes)

lemma le_bytes_le_nat [simp]: "length xs = k \<Longrightarrow> le_bytes k (le_nat xs) = xs"
proof (induction xs arbitrary: k)
  case Nil
  then show ?case by simp
next
  case (Cons x xs)
  have x: "unat x < 256" using unsigned_less [of x] by simp
  have w: "word_of_nat (unat x + 256 * m) = x" for m :: nat
  proof -
    have "unat (word_of_nat (unat x + 256 * m) :: u8) = unat x"
      using x by (simp add: unsigned_of_nat take_bit_eq_mod del: of_nat_add)
    then show ?thesis by (simp only: word_unat_eq_iff)
  qed
  from Cons x show ?case
    by (cases k) (auto simp: w simp del: of_nat_add)
qed

section \<open>Integer arrays in byte blocks\<close>

text \<open>
  A block is viewed through a Rust reference as an array \<open>[uW; n]\<close>: \<open>words_of w n\<close>
  reads \<open>n\<close> integers of \<open>w\<close> bytes, \<open>bytes_of w\<close> lays integers out again.
\<close>

definition words_of :: "nat \<Rightarrow> nat \<Rightarrow> u8 list \<Rightarrow> nat list" where
  "words_of w n bs = map (\<lambda>i. le_nat (take w (drop (i * w) bs))) [0..<n]"

definition bytes_of :: "nat \<Rightarrow> nat list \<Rightarrow> u8 list" where
  "bytes_of w ns = concat (map (le_bytes w) ns)"

lemma length_words_of [simp]: "length (words_of w n bs) = n"
  by (simp add: words_of_def)

lemma bytes_of_Nil [simp]: "bytes_of w [] = []"
  by (simp add: bytes_of_def)

lemma bytes_of_Cons [simp]: "bytes_of w (n # ns) = le_bytes w n @ bytes_of w ns"
  by (simp add: bytes_of_def)

lemma bytes_of_append [simp]: "bytes_of w (ms @ ns) = bytes_of w ms @ bytes_of w ns"
  by (simp add: bytes_of_def)

lemma length_bytes_of [simp]: "length (bytes_of w ns) = w * length ns"
  by (induction ns) auto

lemma words_of_Suc:
  "words_of w (Suc n) bs = le_nat (take w bs) # words_of w n (drop w bs)"
  by (simp add: words_of_def map_upt_Suc ac_simps del: upt_Suc)

lemma words_of_0 [simp]: "words_of w 0 bs = []"
  by (simp add: words_of_def)

lemma words_of_take: "w * n \<le> m \<Longrightarrow> words_of w n (take m bs) = words_of w n bs"
  by (induction n arbitrary: m bs) (simp_all add: words_of_Suc drop_take)

lemma words_of_bytes_of_append:
  "\<forall>x\<in>set ns. x < 256 ^ w \<Longrightarrow> words_of w (length ns) (bytes_of w ns @ bs) = ns"
  by (induction ns) (simp_all add: words_of_Suc)

lemma words_of_bytes_of [simp]:
  "\<forall>x\<in>set ns. x < 256 ^ w \<Longrightarrow> length ns = n \<Longrightarrow> words_of w n (bytes_of w ns) = ns"
  using words_of_bytes_of_append [of ns w "[]"] by simp

lemma bytes_of_words_of [simp]:
  "length bs = w * n \<Longrightarrow> bytes_of w (words_of w n bs) = bs"
proof (induction n arbitrary: bs)
  case 0
  then show ?case by simp
next
  case (Suc n)
  then have "bytes_of w (words_of w n (drop w bs)) = drop w bs" by simp
  with Suc.prems show ?case by (simp add: words_of_Suc)
qed

lemma words_of_bound: "x \<in> set (words_of w n bs) \<Longrightarrow> x < 256 ^ w"
proof -
  assume "x \<in> set (words_of w n bs)"
  then obtain ys where x: "x = le_nat ys" and "length ys \<le> w"
    by (auto simp: words_of_def)
  moreover have "256 ^ length ys \<le> (256 :: nat) ^ w"
    using \<open>length ys \<le> w\<close> by (rule power_increasing) simp
  ultimately show ?thesis
    using le_nat_bound [of ys] by linarith
qed

lemma le_bytes_0: "le_bytes k 0 = replicate k 0"
  by (induction k) simp_all

lemma bytes_of_zeros: "bytes_of w (replicate n 0) = replicate (w * n) 0"
  by (induction n) (simp_all add: le_bytes_0 replicate_add)

lemma words_of_zeros: "words_of w n (replicate (w * n) 0) = replicate n 0"
proof -
  have "words_of w n (bytes_of w (replicate n 0)) = replicate n 0"
    by (rule words_of_bytes_of) simp_all
  then show ?thesis by (simp only: bytes_of_zeros)
qed

section \<open>Ordered maps\<close>

text \<open>\<open>BTreeMap\<close> as the association list in key order that its iterators and its
  destructor traverse.\<close>

type_synonym ('k, 'v) btree = "('k \<times> 'v) list"

fun btree_insert :: "'k::linorder \<Rightarrow> 'v \<Rightarrow> ('k, 'v) btree \<Rightarrow> ('k, 'v) btree" where
  "btree_insert k v [] = [(k, v)]"
| "btree_insert k v ((k', v') # xs) =
     (if k < k' then (k, v) # (k', v') # xs
      else if k = k' then (k, v) # xs
      else (k', v') # btree_insert k v xs)"

definition btree_remove :: "'k \<Rightarrow> ('k, 'v) btree \<Rightarrow> ('k, 'v) btree" where
  "btree_remove k xs = filter (\<lambda>(k', _). k' \<noteq> k) xs"

definition btree_ok :: "('k::linorder, 'v) btree \<Rightarrow> bool" where
  "btree_ok xs \<longleftrightarrow> sorted_wrt (<) (map fst xs)"

lemma btree_ok_Nil [simp]: "btree_ok []"
  by (simp add: btree_ok_def)

lemma btree_ok_Cons: "btree_ok ((k, v) # xs) \<longleftrightarrow> (\<forall>(k', _)\<in>set xs. k < k') \<and> btree_ok xs"
  by (auto simp: btree_ok_def)

lemma fst_set_btree_insert: "fst ` set (btree_insert k v xs) = insert k (fst ` set xs)"
  by (induction k v xs rule: btree_insert.induct) auto

lemma btree_ok_insert [simp]: "btree_ok xs \<Longrightarrow> btree_ok (btree_insert k v xs)"
proof (induction k v xs rule: btree_insert.induct)
  case (2 k v k' v' xs)
  have "k' < y" if "\<not> k < k'" "k \<noteq> k'" "(y, z) \<in> set (btree_insert k v xs)" for y z
  proof -
    have "y \<in> insert k (fst ` set xs)"
      using that(3) fst_set_btree_insert [of k v xs] by force
    then show ?thesis using that(1,2) 2 by (auto simp: btree_ok_Cons)
  qed
  then show ?case using 2 by (fastforce simp: btree_ok_Cons)
qed (simp add: btree_ok_def)

lemma btree_ok_distinct: "btree_ok xs \<Longrightarrow> distinct (map fst xs)"
  by (simp add: btree_ok_def strict_sorted_iff)

lemma map_of_btree_insert [simp]:
  "btree_ok xs \<Longrightarrow> map_of (btree_insert k v xs) = (map_of xs)(k \<mapsto> v)"
  by (induction k v xs rule: btree_insert.induct) (auto simp: btree_ok_Cons fun_eq_iff)

lemma btree_ok_remove [simp]: "btree_ok xs \<Longrightarrow> btree_ok (btree_remove k xs)"
  by (induction xs) (auto simp: btree_remove_def btree_ok_Cons)

lemma map_of_btree_remove [simp]: "map_of (btree_remove k xs) = (map_of xs)(k := None)"
  by (induction xs) (auto simp: btree_remove_def fun_eq_iff)

end
