(* ===== verification/Address.thy ===== *)
theory Address
  imports Prelude
begin

unbundle bit_operations_syntax

text \<open>
  Sv39 addresses and page numbers: \<open>kernel/src/mm/address.rs\<close> and the constants of
  \<open>kernel/src/config.rs\<close>. A \<open>usize\<close> is a natural number below \<open>2 ^ 64\<close>; the
  operators that could leave that range are truncated with \<open>take_bit 64\<close>, as the release
  build of the kernel wraps. The four wrapper structs \<open>PhysAddr\<close>, \<open>VirtAddr\<close>,
  \<open>PhysPageNum\<close> and \<open>VirtPageNum\<close> are the number they hold.
\<close>

section \<open>Constants\<close>

definition PAGE_SIZE :: nat where "PAGE_SIZE = 0x1000"
definition PAGE_SIZE_BITS :: nat where "PAGE_SIZE_BITS = 0xc"
definition PA_WIDTH_SV39 :: nat where "PA_WIDTH_SV39 = 56"
definition VA_WIDTH_SV39 :: nat where "VA_WIDTH_SV39 = 39"
definition PPN_WIDTH_SV39 :: nat where "PPN_WIDTH_SV39 = PA_WIDTH_SV39 - PAGE_SIZE_BITS"
definition VPN_WIDTH_SV39 :: nat where "VPN_WIDTH_SV39 = VA_WIDTH_SV39 - PAGE_SIZE_BITS"

text \<open>\<open>usize::MAX - PAGE_SIZE + 1\<close> and the page below it.\<close>

definition TRAMPOLINE :: nat where "TRAMPOLINE = (2 ^ 64 - 1) - PAGE_SIZE + 1"
definition TRAP_CONTEXT_BASE :: nat where "TRAP_CONTEXT_BASE = TRAMPOLINE - PAGE_SIZE"

lemmas addr_consts = PAGE_SIZE_def PAGE_SIZE_BITS_def PA_WIDTH_SV39_def VA_WIDTH_SV39_def
  PPN_WIDTH_SV39_def VPN_WIDTH_SV39_def

lemma page_consts [simp]: "PAGE_SIZE = 4096" "PAGE_SIZE_BITS = 12"
  "PPN_WIDTH_SV39 = 44" "VPN_WIDTH_SV39 = 27" "PA_WIDTH_SV39 = 56" "VA_WIDTH_SV39 = 39"
  by (simp_all add: addr_consts)

section \<open>Conversions from and to \<open>usize\<close>\<close>

definition phys_addr_from :: "nat \<Rightarrow> nat" where
  "phys_addr_from v = v AND (2 ^ PA_WIDTH_SV39 - 1)"

definition phys_page_num_from :: "nat \<Rightarrow> nat" where
  "phys_page_num_from v = v AND (2 ^ PPN_WIDTH_SV39 - 1)"

definition virt_addr_from :: "nat \<Rightarrow> nat" where
  "virt_addr_from v = v AND (2 ^ VA_WIDTH_SV39 - 1)"

definition virt_page_num_from :: "nat \<Rightarrow> nat" where
  "virt_page_num_from v = v AND (2 ^ VPN_WIDTH_SV39 - 1)"

text \<open>\<open>!x\<close> on a \<open>usize\<close>.\<close>

definition not_usize :: "nat \<Rightarrow> nat" where
  "not_usize x = 2 ^ 64 - 1 - x"

text \<open>A virtual address back to \<open>usize\<close>: bit 38 is extended to the bits above it.\<close>

definition virt_addr_into_usize :: "nat \<Rightarrow> nat" where
  "virt_addr_into_usize va =
     (if va \<ge> 2 ^ (VA_WIDTH_SV39 - 1) then va OR not_usize (2 ^ VA_WIDTH_SV39 - 1) else va)"

section \<open>Addresses and page numbers\<close>

definition page_offset :: "nat \<Rightarrow> nat" where
  "page_offset a = a AND (PAGE_SIZE - 1)"

definition is_aligned :: "nat \<Rightarrow> bool" where
  "is_aligned a \<longleftrightarrow> page_offset a = 0"

definition as_pn_by_floor :: "nat \<Rightarrow> nat" where
  "as_pn_by_floor a = a div PAGE_SIZE"

definition as_pn_by_ceil :: "nat \<Rightarrow> nat" where
  "as_pn_by_ceil a = (if a = 0 then 0 else (a - 1 + PAGE_SIZE) div PAGE_SIZE)"

text \<open>\<open>From<PhysAddr> for PhysPageNum\<close> and \<open>From<VirtAddr> for VirtPageNum\<close>.\<close>

definition pn_from_addr :: "nat \<Rightarrow> nat option" where
  "pn_from_addr a = do { assert_opt (is_aligned a); Some (as_pn_by_floor a) }"

text \<open>\<open>From<PhysPageNum> for PhysAddr\<close> and \<open>From<VirtPageNum> for VirtAddr\<close>.\<close>

definition addr_from_pn :: "nat \<Rightarrow> nat" where
  "addr_from_pn pn = take_bit 64 (push_bit PAGE_SIZE_BITS pn)"

definition indexes :: "nat \<Rightarrow> nat list" where
  "indexes vpn = [drop_bit 18 vpn AND 0x1ff, drop_bit 9 vpn AND 0x1ff, vpn AND 0x1ff]"

section \<open>Page ranges\<close>

record simple_range =
  range_start :: nat
  range_end :: nat

definition simple_range_new :: "nat \<Rightarrow> nat \<Rightarrow> simple_range option" where
  "simple_range_new s e = do { assert_opt (s \<le> e); Some \<lparr>range_start = s, range_end = e\<rparr> }"

text \<open>\<open>SimpleRangeIterator::next\<close> on the pair of \<open>current\<close> and \<open>end\<close>.\<close>

definition range_next :: "nat \<times> nat \<Rightarrow> nat option \<times> (nat \<times> nat)" where
  "range_next it = (case it of (current, e) \<Rightarrow>
     if current = e then (None, (current, e)) else (Some current, (current + 1, e)))"

text \<open>The elements a \<open>for\<close> loop over the range visits: \<open>next\<close> until it returns \<open>None\<close>.\<close>

function range_iter :: "nat \<times> nat \<Rightarrow> nat list" where
  "range_iter it = (if snd it < fst it then []
     else case range_next it of (None, _) \<Rightarrow> [] | (Some x, it') \<Rightarrow> x # range_iter it')"
  by pat_completeness auto
termination
  by (relation "measure (\<lambda>(c, e). e - c)") (auto simp: range_next_def split: if_splits)

declare range_iter.simps [simp del]

definition range_list :: "simple_range \<Rightarrow> nat list" where
  "range_list r = range_iter (range_start r, range_end r)"

section \<open>Arithmetic of the conversions\<close>

lemma and_mask: "v AND (2 ^ n - 1) = v mod 2 ^ n" for v :: nat
  by (metis mask_eq_exp_minus_1 take_bit_eq_mask take_bit_eq_mod)

lemma conv_mod:
  "phys_addr_from v = v mod 2 ^ 56" "phys_page_num_from v = v mod 2 ^ 44"
  "virt_addr_from v = v mod 2 ^ 39" "virt_page_num_from v = v mod 2 ^ 27"
  using and_mask [of v 56] and_mask [of v 44] and_mask [of v 39] and_mask [of v 27]
  by (simp_all add: phys_addr_from_def phys_page_num_from_def virt_addr_from_def
      virt_page_num_from_def)

lemma phys_page_num_from_small [simp]: "v < 17592186044416 \<Longrightarrow> phys_page_num_from v = v"
  by (simp add: conv_mod)

lemma page_offset_mod: "page_offset a = a mod 4096"
  using and_mask [of a 12] by (simp add: page_offset_def)

lemma addr_from_pn_mult: "pn < 2 ^ 52 \<Longrightarrow> addr_from_pn pn = pn * 4096"
  by (simp add: addr_from_pn_def push_bit_eq_mult take_bit_eq_mod)

lemma indexes_div:
  "indexes vpn = [vpn div 2 ^ 18 mod 512, vpn div 2 ^ 9 mod 512, vpn mod 512]"
  using and_mask [of _ 9] by (simp add: indexes_def drop_bit_eq_div)

lemma as_pn_by_ceil_div: "as_pn_by_ceil a = (a + 4095) div 4096"
  by (auto simp: as_pn_by_ceil_def)

lemma not_usize_mask: "not_usize (2 ^ 39 - 1) = 2 ^ 64 - 2 ^ 39"
  by (simp add: not_usize_def)

lemma range_iter_eq: "c \<le> e \<Longrightarrow> range_iter (c, e) = [c..<e]"
proof (induction "e - c" arbitrary: c)
  case 0
  then show ?case by (simp add: range_iter.simps range_next_def)
next
  case (Suc n)
  then have "range_iter (Suc c, e) = [Suc c..<e]" by simp
  with Suc show ?case
    by (simp add: range_iter.simps [of "(c, e)"] range_next_def upt_conv_Cons)
qed

lemma simple_range_new_list:
  "simple_range_new s e = Some r \<Longrightarrow> range_list r = [s..<e] \<and> s \<le> e"
  by (auto simp: simple_range_new_def range_list_def range_iter_eq split: if_splits)


section \<open>Correctness of the conversions\<close>

lemma or_high_mask:
  assumes "va < 2 ^ 39"
  shows "va OR not_usize (2 ^ 39 - 1) = va + (2 ^ 64 - 2 ^ 39)"
proof -
  have m: "not_usize (2 ^ 39 - 1) = push_bit 39 (2 ^ 25 - 1)"
    by (simp add: not_usize_def push_bit_eq_mult)
  have "va AND push_bit 39 k = 0" for k
  proof (rule bit_eqI)
    fix n
    have "bit va n \<Longrightarrow> n < 39"
      using assms by (metis bit_take_bit_iff take_bit_nat_eq_self_iff)
    then show "bit (va AND push_bit 39 k) n = bit (0 :: nat) n"
      by (auto simp: bit_simps)
  qed
  then have "va OR push_bit 39 k = va + push_bit 39 k" for k
    by (simp add: disjunctive_add [symmetric] bit_eq_iff bit_and_iff)
  from this [of "2 ^ 25 - 1"] show ?thesis unfolding m by (simp add: push_bit_eq_mult)
qed

text \<open>A canonical Sv39 address, that is one below \<open>2^38\<close> or in the top \<open>2^38\<close> bytes of
  the 64-bit space, survives \<open>VirtAddr::from\<close> followed by the conversion back to
  \<open>usize\<close>, which extends bit 38.\<close>

lemma virt_addr_round_trip:
  assumes "v < 2 ^ 38 \<or> 2 ^ 64 - 2 ^ 38 \<le> v \<and> v < 2 ^ 64"
  shows "virt_addr_into_usize (virt_addr_from v) = v"
proof (cases "v < 2 ^ 38")
  case True
  then show ?thesis by (simp add: virt_addr_into_usize_def conv_mod addr_consts)
next
  case False
  with assms have b: "2 ^ 64 - 2 ^ 38 \<le> v" "v < 2 ^ 64" by auto
  have "v = (v - (2 ^ 64 - 2 ^ 39)) + 33554431 * 2 ^ 39" using b by simp
  then have "v mod 2 ^ 39 = (v - (2 ^ 64 - 2 ^ 39)) mod 2 ^ 39" by (metis mod_mult_self1)
  also have "\<dots> = v - (2 ^ 64 - 2 ^ 39)" using b by simp
  finally have "virt_addr_from v = v - (2 ^ 64 - 2 ^ 39)" by (simp add: conv_mod)
  then show ?thesis
    using or_high_mask [of "v - (2 ^ 64 - 2 ^ 39)"] b by (simp add: virt_addr_into_usize_def addr_consts)
qed

lemma virt_addr_round_trip_witness:
  "virt_addr_into_usize (virt_addr_from 0x10000) = 0x10000 \<and>
   virt_addr_into_usize (virt_addr_from TRAMPOLINE) = TRAMPOLINE"
  using virt_addr_round_trip [of "0x10000"] virt_addr_round_trip [of TRAMPOLINE]
  by (simp add: TRAMPOLINE_def)

text \<open>A 39-bit virtual address is put together again from the three nine-bit page-table
  indexes of its page number and its offset in the page.\<close>

lemma sv39_decomposition:
  assumes "va < 2 ^ 39"
  shows "va = ((indexes (as_pn_by_floor va) ! 0 * 512 + indexes (as_pn_by_floor va) ! 1) * 512 +
      indexes (as_pn_by_floor va) ! 2) * 4096 + page_offset va"
proof -
  let ?v = "va div 4096"
  have "?v < 134217728" using assms by (simp add: less_mult_imp_div_less)
  then have "?v div 262144 mod 512 = ?v div 512 div 512" by (simp add: less_mult_imp_div_less div_mult2_eq)
  moreover have "((?v div 512 div 512 * 512 + ?v div 512 mod 512) * 512 + ?v mod 512) * 4096 + va mod 4096 = va"
    by (simp only: div_mult_mod_eq)
  ultimately have "((?v div 262144 mod 512 * 512 + ?v div 512 mod 512) * 512 + ?v mod 512) * 4096 + va mod 4096 = va"
    by (simp only:)
  then show ?thesis by (simp add: indexes_div as_pn_by_floor_def page_offset_mod)
qed

lemma sv39_decomposition_witness:
  "(0x40201234 :: nat) < 2 ^ 39 \<and> indexes (as_pn_by_floor 0x40201234) = [1, 1, 1] \<and>
   0x40201234 = ((indexes (as_pn_by_floor 0x40201234) ! 0 * 512 + indexes (as_pn_by_floor 0x40201234) ! 1) * 512 +
      indexes (as_pn_by_floor 0x40201234) ! 2) * 4096 + page_offset 0x40201234"
proof (intro conjI)
  show "indexes (as_pn_by_floor 0x40201234) = [1, 1, 1]" by (simp add: indexes_div as_pn_by_floor_def)
  show "0x40201234 = ((indexes (as_pn_by_floor 0x40201234) ! 0 * 512 + indexes (as_pn_by_floor 0x40201234) ! 1) * 512 +
      indexes (as_pn_by_floor 0x40201234) ! 2) * 4096 + page_offset 0x40201234"
    by (rule sv39_decomposition) simp
qed simp

end
