(* ===== verification/Allocators.thy ===== *)
theory Allocators
  imports Address
begin

text \<open>
  The two stack-like identifier allocators of the kernel:
  \<open>StackFrameAllocator\<close> of \<open>kernel/src/mm/frame_allocator.rs\<close> (physical page numbers
  between \<open>ekernel\<close> and \<open>MEMORY_END\<close>) and \<open>RecycleAllocator\<close> of
  \<open>kernel/src/task/id.rs\<close> (pids, kernel stack ids and, per process, thread ids).
  Both hand out recycled identifiers first, last in first out, and refuse a double free
  with an assertion. The interface locale \<open>id_allocator\<close> states what their clients rely
  on and derives freshness and the absence of double allocation for whole histories.
\<close>

section \<open>RecycleAllocator\<close>

record recycle_allocator =
  ra_current :: nat
  ra_recycled :: "nat list" \<comment> \<open>a \<open>Vec\<close>; the head of the list is the top of the stack\<close>

definition ra_new :: recycle_allocator where
  "ra_new = \<lparr>ra_current = 0, ra_recycled = []\<rparr>"

definition ra_alloc :: "recycle_allocator \<Rightarrow> nat \<times> recycle_allocator" where
  "ra_alloc a = (case ra_recycled a of
      i # rest \<Rightarrow> (i, a\<lparr>ra_recycled := rest\<rparr>)
    | [] \<Rightarrow> (ra_current a, a\<lparr>ra_current := ra_current a + 1\<rparr>))"

definition ra_dealloc :: "nat \<Rightarrow> recycle_allocator \<Rightarrow> recycle_allocator option" where
  "ra_dealloc i a = do {
     assert_opt (i < ra_current a);
     assert_opt (\<not> list_ex (\<lambda>r. r = i) (ra_recycled a));
     Some (a\<lparr>ra_recycled := i # ra_recycled a\<rparr>)
   }"

section \<open>StackFrameAllocator\<close>

record frame_allocator =
  fa_current :: nat
  fa_end :: nat
  fa_recycled :: "nat list"

definition fa_new :: frame_allocator where
  "fa_new = \<lparr>fa_current = 0, fa_end = 0, fa_recycled = []\<rparr>"

definition fa_init :: "nat \<Rightarrow> nat \<Rightarrow> frame_allocator \<Rightarrow> frame_allocator" where
  "fa_init l r a = a\<lparr>fa_current := l, fa_end := r\<rparr>"

definition fa_alloc :: "frame_allocator \<Rightarrow> nat option \<times> frame_allocator" where
  "fa_alloc a = (case fa_recycled a of
      ppn # rest \<Rightarrow> (Some (phys_page_num_from ppn), a\<lparr>fa_recycled := rest\<rparr>)
    | [] \<Rightarrow> if fa_current a = fa_end a then (None, a)
           else (Some (phys_page_num_from (fa_current a)),
                 a\<lparr>fa_current := fa_current a + 1\<rparr>))"

definition fa_dealloc :: "nat \<Rightarrow> frame_allocator \<Rightarrow> frame_allocator option" where
  "fa_dealloc ppn a = do {
     assert_opt (\<not> (ppn \<ge> fa_current a \<or> list_ex (\<lambda>v. v = ppn) (fa_recycled a)));
     Some (a\<lparr>fa_recycled := ppn # fa_recycled a\<rparr>)
   }"

section \<open>The interface\<close>

text \<open>
  \<open>live s\<close> is the set of identifiers that are out; \<open>get\<close> may refuse (\<open>None\<close>),
  \<open>put\<close> may panic. A history of calls is a list of events.
\<close>

datatype alloc_event = Alloc | Dealloc nat

text \<open>
  A history: the identifiers returned by its allocations and the final state. Only
  identifiers that are out are given back, which the owners of the identifiers
  (\<open>FrameTracker\<close>, \<open>PidHandle\<close>, \<open>KernelStack\<close>, \<open>TaskUserRes\<close>) enforce by
  freeing in their \<open>Drop\<close> only; any other history has no run.
\<close>

fun alloc_run :: "('s \<Rightarrow> nat set) \<Rightarrow> ('s \<Rightarrow> nat option \<times> 's) \<Rightarrow> (nat \<Rightarrow> 's \<Rightarrow> 's option) \<Rightarrow>
    alloc_event list \<Rightarrow> 's \<Rightarrow> (nat option list \<times> 's) option" where
  "alloc_run live get put [] s = Some ([], s)"
| "alloc_run live get put (Alloc # es) s =
     map_option (\<lambda>(rs, t). (fst (get s) # rs, t)) (alloc_run live get put es (snd (get s)))"
| "alloc_run live get put (Dealloc i # es) s =
     (if i \<in> live s
      then (case put i s of None \<Rightarrow> None | Some s' \<Rightarrow> alloc_run live get put es s')
      else None)"

locale id_allocator =
  fixes live :: "'s \<Rightarrow> nat set"
    and inv :: "'s \<Rightarrow> bool"
    and get :: "'s \<Rightarrow> nat option \<times> 's"
    and put :: "nat \<Rightarrow> 's \<Rightarrow> 's option"
  assumes get_fresh: "inv s \<Longrightarrow> get s = (Some i, s') \<Longrightarrow> i \<notin> live s"
    and get_live: "inv s \<Longrightarrow> get s = (Some i, s') \<Longrightarrow> live s' = insert i (live s)"
    and get_none: "inv s \<Longrightarrow> get s = (None, s') \<Longrightarrow> s' = s"
    and get_inv: "inv s \<Longrightarrow> get s = (r, s') \<Longrightarrow> inv s'"
    and put_ok: "inv s \<Longrightarrow> i \<in> live s \<Longrightarrow> \<exists>s'. put i s = Some s'"
    and put_live: "inv s \<Longrightarrow> put i s = Some s' \<Longrightarrow> live s' = live s - {i}"
    and put_inv: "inv s \<Longrightarrow> i \<in> live s \<Longrightarrow> put i s = Some s' \<Longrightarrow> inv s'"
    and put_again: "put i s = Some s' \<Longrightarrow> put i s' = None"
    and put_get: "inv s \<Longrightarrow> i \<in> live s \<Longrightarrow> put i s = Some s' \<Longrightarrow> fst (get s') = Some i"
begin

abbreviation run :: "alloc_event list \<Rightarrow> 's \<Rightarrow> (nat option list \<times> 's) option" where
  "run \<equiv> alloc_run live get put"

lemma get_step:
  assumes "inv s"
  shows "inv (snd (get s))" "live s \<subseteq> live (snd (get s))"
    "fst (get s) = Some i \<Longrightarrow> i \<notin> live s" "fst (get s) = Some i \<Longrightarrow> i \<in> live (snd (get s))"
proof -
  obtain r s' where g: "get s = (r, s')" by force
  show "inv (snd (get s))" using get_inv [OF assms g] g by simp
  show "live s \<subseteq> live (snd (get s))"
    using get_live [OF assms] get_none [OF assms] g by (cases r) auto
  show "fst (get s) = Some i \<Longrightarrow> i \<notin> live s" using get_fresh [OF assms] g by auto
  show "fst (get s) = Some i \<Longrightarrow> i \<in> live (snd (get s))" using get_live [OF assms] g by auto
qed

lemma run_inv: "inv s \<Longrightarrow> run es s = Some (rs, t) \<Longrightarrow> inv t"
proof (induction es arbitrary: s rs)
  case Nil
  then show ?case by simp
next
  case (Cons e es)
  then show ?case
    by (cases e) (auto split: option.splits if_splits intro: get_step dest: put_inv)
qed

text \<open>An identifier that is out is not handed out again before it is given back.\<close>

lemma run_no_dealloc_fresh:
  "inv s \<Longrightarrow> run es s = Some (rs, t) \<Longrightarrow> i \<in> live s \<Longrightarrow> Dealloc i \<notin> set es \<Longrightarrow>
   Some i \<notin> set rs"
proof (induction es arbitrary: s rs)
  case Nil
  then show ?case by simp
next
  case (Cons e es)
  show ?case
  proof (cases e)
    case Alloc
    with Cons show ?thesis using get_step [OF Cons.prems(1)] by fastforce
  next
    case (Dealloc j)
    with Cons show ?thesis by (auto split: option.splits if_splits dest: put_inv put_live)
  qed
qed

lemma no_double_allocation:
  assumes "inv s" "fst (get s) = Some i" "Dealloc i \<notin> set es" "run es (snd (get s)) = Some (rs, t)"
  shows "Some i \<notin> set rs"
  using get_step(1) [OF assms(1)] assms(4) get_step(4) [OF assms(1,2)] assms(3)
  by (rule run_no_dealloc_fresh)

text \<open>Every legal history runs without a panic as long as it only frees what is out.\<close>

lemma put_no_panic: "inv s \<Longrightarrow> i \<in> live s \<Longrightarrow> put i s \<noteq> None"
  using put_ok by blast

end

section \<open>Invariants and interpretations\<close>

definition ra_live :: "recycle_allocator \<Rightarrow> nat set" where
  "ra_live a = {i. i < ra_current a} - set (ra_recycled a)"

definition ra_inv :: "recycle_allocator \<Rightarrow> bool" where
  "ra_inv a \<longleftrightarrow> distinct (ra_recycled a) \<and> (\<forall>i\<in>set (ra_recycled a). i < ra_current a)"

lemma ra_inv_new [simp]: "ra_inv ra_new"
  by (simp add: ra_inv_def ra_new_def)

lemma ra_live_new [simp]: "ra_live ra_new = {}"
  by (simp add: ra_live_def ra_new_def)

text \<open>\<open>RecycleAllocator::alloc\<close> never refuses; as an interface operation it returns \<open>Some\<close>.\<close>

definition ra_get :: "recycle_allocator \<Rightarrow> nat option \<times> recycle_allocator" where
  "ra_get a = map_prod Some id (ra_alloc a)"

lemmas ra_defs = ra_get_def ra_alloc_def ra_dealloc_def ra_live_def ra_inv_def

interpretation rec_alloc: id_allocator ra_live ra_inv ra_get ra_dealloc
proof (unfold_locales, goal_cases)
  case (1 s i s')
  then show ?case by (auto simp: ra_defs list_ex_iff split: list.splits if_splits)
next
  case (2 s i s')
  then show ?case by (auto simp: ra_defs list_ex_iff split: list.splits if_splits)
next
  case (3 s s')
  then show ?case by (auto simp: ra_defs list_ex_iff split: list.splits if_splits)
next
  case (4 s r s')
  then show ?case by (auto simp: ra_defs list_ex_iff split: list.splits if_splits)
next
  case (5 s i)
  then show ?case by (auto simp: ra_defs list_ex_iff split: list.splits if_splits)
next
  case (6 s i s')
  then show ?case by (auto simp: ra_defs list_ex_iff split: list.splits if_splits)
next
  case (7 s i s')
  then show ?case by (auto simp: ra_defs list_ex_iff split: list.splits if_splits)
next
  case (8 i s s')
  then show ?case by (auto simp: ra_defs list_ex_iff split: list.splits if_splits)
next
  case (9 s i s')
  then show ?case by (auto simp: ra_defs list_ex_iff split: list.splits if_splits)
qed

text \<open>The frames handed out lie between the bounds given to \<open>init\<close>.\<close>

definition fa_live :: "nat \<Rightarrow> frame_allocator \<Rightarrow> nat set" where
  "fa_live l a = {l..<fa_current a} - set (fa_recycled a)"

definition fa_inv :: "nat \<Rightarrow> nat \<Rightarrow> frame_allocator \<Rightarrow> bool" where
  "fa_inv l r a \<longleftrightarrow> distinct (fa_recycled a) \<and> (\<forall>i\<in>set (fa_recycled a). l \<le> i \<and> i < fa_current a) \<and>
     l \<le> fa_current a \<and> fa_current a \<le> fa_end a \<and> fa_end a = r \<and> r \<le> 2 ^ 44"

lemmas fa_defs = fa_alloc_def fa_dealloc_def fa_live_def fa_inv_def

lemma fa_inv_init [simp]: "l \<le> r \<Longrightarrow> r \<le> 2 ^ 44 \<Longrightarrow> fa_inv l r (fa_init l r fa_new)"
  by (simp add: fa_inv_def fa_init_def fa_new_def)

lemma fa_live_init [simp]: "fa_live l (fa_init l r fa_new) = {}"
  by (simp add: fa_live_def fa_init_def fa_new_def)

interpretation frm_alloc: id_allocator "fa_live l" "fa_inv l r" fa_alloc fa_dealloc for l r
proof (unfold_locales, goal_cases)
  case (1 s i s')
  then show ?case by (auto simp: fa_defs list_ex_iff split: list.splits if_splits)
next
  case (2 s i s')
  then show ?case by (auto simp: fa_defs list_ex_iff split: list.splits if_splits)
next
  case (3 s s')
  then show ?case by (auto simp: fa_defs list_ex_iff split: list.splits if_splits)
next
  case (4 s r s')
  then show ?case by (auto simp: fa_defs list_ex_iff split: list.splits if_splits)
next
  case (5 s i)
  then show ?case by (auto simp: fa_defs list_ex_iff split: list.splits if_splits)
next
  case (6 s i s')
  then show ?case by (auto simp: fa_defs list_ex_iff split: list.splits if_splits)
next
  case (7 s i s')
  then show ?case by (auto simp: fa_defs list_ex_iff split: list.splits if_splits)
next
  case (8 i s s')
  then show ?case by (auto simp: fa_defs list_ex_iff split: list.splits if_splits)
next
  case (9 s i s')
  then show ?case by (auto simp: fa_defs list_ex_iff split: list.splits if_splits)
qed

text \<open>The allocator refuses exactly when all frames of the range are out.\<close>

lemma fa_alloc_None_iff:
  assumes "fa_inv l r a"
  shows "fst (fa_alloc a) = None \<longleftrightarrow> fa_live l a = {l..<r}"
proof (cases "fa_recycled a")
  case Nil
  with assms show ?thesis by (auto simp: fa_defs split: if_splits)
next
  case (Cons p ps)
  with assms have "p \<in> {l..<r} - fa_live l a" by (auto simp: fa_defs)
  then have "fa_live l a \<noteq> {l..<r}" by blast
  with Cons show ?thesis by (simp add: fa_alloc_def)
qed

lemma fa_alloc_range:
  "fa_inv l r a \<Longrightarrow> fst (fa_alloc a) = Some p \<Longrightarrow> l \<le> p \<and> p < r"
  by (auto simp: fa_defs split: list.splits if_splits)


section \<open>No identifier is handed out twice\<close>



text \<open>The frame allocator refuses exactly when every frame of its range is out.\<close>

lemma frame_alloc_refuses_iff_exhausted:
  assumes "l \<le> r" "r \<le> 2 ^ 44"
    and "alloc_run (fa_live l) fa_alloc fa_dealloc es (fa_init l r fa_new) = Some (rs, s)"
  shows "fst (fa_alloc s) = None \<longleftrightarrow> fa_live l s = {l..<r}"
  by (rule fa_alloc_None_iff [OF frm_alloc.run_inv [OF fa_inv_init [OF assms(1,2)] assms(3)]])

lemma frame_alloc_refuses_witness:
  "\<exists>rs s. alloc_run (fa_live 10) fa_alloc fa_dealloc [Alloc, Alloc] (fa_init 10 12 fa_new) = Some (rs, s) \<and>
     fst (fa_alloc s) = None \<and> fa_live 10 s = {10..<12}"
proof -
  define s where "s = \<lparr>fa_current = 12, fa_end = 12, fa_recycled = []\<rparr>"
  have r1: "alloc_run (fa_live 10) fa_alloc fa_dealloc [Alloc, Alloc] (fa_init 10 12 fa_new) =
      Some ([Some 10, Some 11], s)"
    by (simp add: fa_alloc_def fa_dealloc_def fa_live_def fa_init_def fa_new_def s_def)
  have "fst (fa_alloc s) = None" by (simp add: fa_alloc_def s_def)
  with r1 frame_alloc_refuses_iff_exhausted [OF _ _ r1] show ?thesis by auto
qed



end
