(* ===== verification/PageTable.thy ===== *)
theory PageTable
  imports Allocators
begin

unbundle bit_operations_syntax

text \<open>
  Physical frames and the three-level Sv39 page table:
  \<open>kernel/src/mm/page_table.rs\<close> and the tracked frames of
  \<open>kernel/src/mm/frame_allocator.rs\<close>. The kernel sees physical memory as frames of
  4096 bytes addressed by page number; a page-table page is the same frame read as 512
  eight-byte entries. The operations walk and update this memory; \<open>pt_abs\<close> is the map from
  virtual page numbers to (frame, flags) they implement.
\<close>

section \<open>Physical frames\<close>

record kmem =
  km_frames :: "nat \<Rightarrow> u8 list"
  km_alloc :: frame_allocator

text \<open>\<open>FrameTracker::new\<close> clears the frame; \<open>alloc\<close> and \<open>dealloc\<close> are the global wrappers.\<close>

definition frame_tracker_new :: "nat \<Rightarrow> kmem \<Rightarrow> kmem" where
  "frame_tracker_new ppn m = m\<lparr>km_frames := (km_frames m)(ppn := replicate 4096 0)\<rparr>"

definition frame_alloc :: "kmem \<Rightarrow> nat option \<times> kmem" where
  "frame_alloc m = (case fa_alloc (km_alloc m) of
      (None, a) \<Rightarrow> (None, m\<lparr>km_alloc := a\<rparr>)
    | (Some ppn, a) \<Rightarrow> (Some ppn, frame_tracker_new ppn (m\<lparr>km_alloc := a\<rparr>)))"

definition frame_dealloc :: "nat \<Rightarrow> kmem \<Rightarrow> kmem option" where
  "frame_dealloc ppn m = do { a \<leftarrow> fa_dealloc ppn (km_alloc m); Some (m\<lparr>km_alloc := a\<rparr>) }"

section \<open>Page table entries\<close>

definition PTE_V :: nat where "PTE_V = 1"
definition PTE_R :: nat where "PTE_R = 2"
definition PTE_W :: nat where "PTE_W = 4"
definition PTE_X :: nat where "PTE_X = 8"
definition PTE_U :: nat where "PTE_U = 16"

lemmas pte_flag_defs = PTE_V_def PTE_R_def PTE_W_def PTE_X_def PTE_U_def

definition pte_new :: "nat \<Rightarrow> nat \<Rightarrow> nat" where
  "pte_new ppn flags = take_bit 64 (push_bit 10 ppn) OR flags"

definition pte_empty :: nat where
  "pte_empty = 0"

definition pte_ppn :: "nat \<Rightarrow> nat" where
  "pte_ppn bits = phys_page_num_from (drop_bit 10 bits AND (2 ^ 44 - 1))"

text \<open>\<open>PTEFlags::from_bits(bits as u8)\<close>: all eight bits are named, so it never fails.\<close>

definition pte_flags :: "nat \<Rightarrow> nat" where
  "pte_flags bits = take_bit 8 bits"

definition pte_is_valid :: "nat \<Rightarrow> bool" where
  "pte_is_valid bits \<longleftrightarrow> pte_flags bits AND PTE_V \<noteq> 0"

definition pte_is_readable :: "nat \<Rightarrow> bool" where
  "pte_is_readable bits \<longleftrightarrow> pte_flags bits AND PTE_R \<noteq> 0"

definition pte_is_writable :: "nat \<Rightarrow> bool" where
  "pte_is_writable bits \<longleftrightarrow> pte_flags bits AND PTE_W \<noteq> 0"

definition pte_is_executable :: "nat \<Rightarrow> bool" where
  "pte_is_executable bits \<longleftrightarrow> pte_flags bits AND PTE_X \<noteq> 0"

text \<open>\<open>PhysPageNum::as_mut_pte_array\<close>: the frame as 512 entries, read and written.\<close>

definition as_pte_array :: "kmem \<Rightarrow> nat \<Rightarrow> nat list" where
  "as_pte_array m ppn = words_of 8 512 (km_frames m ppn)"

definition pte_write :: "nat \<Rightarrow> nat \<Rightarrow> nat \<Rightarrow> kmem \<Rightarrow> kmem" where
  "pte_write ppn i e m =
     m\<lparr>km_frames := (km_frames m)(ppn := bytes_of 8 ((as_pte_array m ppn)[i := e]))\<rparr>"

section \<open>The page table\<close>

record page_table =
  pt_root_ppn :: nat
  pt_data_frames :: "(nat, nat) btree"
  pt_metadata_frames :: "nat list"

definition pt_new :: "kmem \<Rightarrow> (page_table \<times> kmem) option" where
  "pt_new m = (case frame_alloc m of
      (None, _) \<Rightarrow> None
    | (Some f, m') \<Rightarrow> Some (\<lparr>pt_root_ppn = f, pt_data_frames = [],
        pt_metadata_frames = [f]\<rparr>, m'))"

definition pt_insert :: "nat \<Rightarrow> nat \<Rightarrow> page_table \<Rightarrow> nat option \<times> page_table" where
  "pt_insert vpn f pt = (map_of (pt_data_frames pt) vpn,
     pt\<lparr>pt_data_frames := btree_insert vpn f (pt_data_frames pt)\<rparr>)"

definition pt_remove :: "nat \<Rightarrow> page_table \<Rightarrow> nat option \<times> page_table" where
  "pt_remove vpn pt = (map_of (pt_data_frames pt) vpn,
     pt\<lparr>pt_data_frames := btree_remove vpn (pt_data_frames pt)\<rparr>)"

text \<open>Dropping a table drops its trackers: the data frames in key order, then the pages of
  the table. \<open>drop_tracker\<close> is \<open>drop\<close> of an \<open>Option<FrameTracker>\<close>.\<close>

definition drop_tracker :: "nat option \<Rightarrow> kmem \<Rightarrow> kmem option" where
  "drop_tracker r m = (case r of None \<Rightarrow> Some m | Some f \<Rightarrow> frame_dealloc f m)"

definition pt_drop :: "page_table \<Rightarrow> kmem \<Rightarrow> kmem option" where
  "pt_drop pt m = fold_opt frame_dealloc (map snd (pt_data_frames pt) @ pt_metadata_frames pt) m"

text \<open>The loops over \<open>idxs[..2]\<close>; the result is the frame of the last level.\<close>

fun pt_walk :: "kmem \<Rightarrow> nat \<Rightarrow> nat list \<Rightarrow> nat option" where
  "pt_walk m ppn [] = Some ppn"
| "pt_walk m ppn (idx # idxs) = do {
     pte \<leftarrow> nth_opt (as_pte_array m ppn) idx;
     if \<not> pte_is_valid pte then None else pt_walk m (pte_ppn pte) idxs
   }"

fun pt_walk_alloc ::
  "nat \<Rightarrow> nat list \<Rightarrow> page_table \<Rightarrow> kmem \<Rightarrow> (nat option \<times> page_table \<times> kmem) option" where
  "pt_walk_alloc ppn [] pt m = Some (Some ppn, pt, m)"
| "pt_walk_alloc ppn (idx # idxs) pt m =
     (case nth_opt (as_pte_array m ppn) idx of
        None \<Rightarrow> Some (None, pt, m)
      | Some pte \<Rightarrow>
          if \<not> pte_is_valid pte then
            (case frame_alloc m of
               (None, _) \<Rightarrow> None
             | (Some f, m1) \<Rightarrow>
                 (let pte' = pte_new f PTE_V;
                      m2 = pte_write ppn idx pte' m1;
                      pt' = pt\<lparr>pt_metadata_frames := pt_metadata_frames pt @ [f]\<rparr>
                  in pt_walk_alloc (pte_ppn pte') idxs pt' m2))
          else pt_walk_alloc (pte_ppn pte) idxs pt m)"

text \<open>A found entry is the address of its slot: the frame and the index.\<close>

definition pt_find_pte :: "page_table \<Rightarrow> nat \<Rightarrow> kmem \<Rightarrow> (nat \<times> nat) option" where
  "pt_find_pte pt vpn m = do {
     let idxs = indexes vpn;
     ppn \<leftarrow> pt_walk m (pt_root_ppn pt) (take 2 idxs);
     _ \<leftarrow> nth_opt (as_pte_array m ppn) (idxs ! 2);
     Some (ppn, idxs ! 2)
   }"

definition pt_find_pte_then_alloc ::
  "page_table \<Rightarrow> nat \<Rightarrow> kmem \<Rightarrow> ((nat \<times> nat) option \<times> page_table \<times> kmem) option" where
  "pt_find_pte_then_alloc pt vpn m = do {
     let idxs = indexes vpn;
     (r, pt', m') \<leftarrow> pt_walk_alloc (pt_root_ppn pt) (take 2 idxs) pt m;
     Some (do { ppn \<leftarrow> r; _ \<leftarrow> nth_opt (as_pte_array m' ppn) (idxs ! 2); Some (ppn, idxs ! 2) }, pt', m')
   }"

definition pt_map :: "nat \<Rightarrow> nat \<Rightarrow> nat \<Rightarrow> page_table \<Rightarrow> kmem \<Rightarrow> (page_table \<times> kmem) option" where
  "pt_map vpn ppn flags pt m = do {
     (r, pt', m') \<leftarrow> pt_find_pte_then_alloc pt vpn m;
     (q, i) \<leftarrow> r;
     assert_opt (\<not> pte_is_valid (as_pte_array m' q ! i));
     Some (pt', pte_write q i (pte_new ppn (flags OR PTE_V)) m')
   }"

definition pt_unmap :: "nat \<Rightarrow> page_table \<Rightarrow> kmem \<Rightarrow> kmem option" where
  "pt_unmap vpn pt m = do {
     (q, i) \<leftarrow> pt_find_pte pt vpn m;
     assert_opt (pte_is_valid (as_pte_array m q ! i));
     Some (pte_write q i pte_empty m)
   }"

definition pt_from_token :: "nat \<Rightarrow> page_table" where
  "pt_from_token satp = \<lparr>pt_root_ppn = phys_page_num_from (satp AND (2 ^ 44 - 1)),
     pt_data_frames = [], pt_metadata_frames = []\<rparr>"

definition pt_translate :: "page_table \<Rightarrow> nat \<Rightarrow> kmem \<Rightarrow> nat option" where
  "pt_translate pt vpn m = map_option (\<lambda>(q, i). as_pte_array m q ! i) (pt_find_pte pt vpn m)"

definition pt_translate_va :: "page_table \<Rightarrow> nat \<Rightarrow> kmem \<Rightarrow> nat option" where
  "pt_translate_va pt va m = map_option (\<lambda>(q, i).
     let aligned_pa = addr_from_pn (pte_ppn (as_pte_array m q ! i));
         offset = page_offset va
     in phys_addr_from (take_bit 64 (aligned_pa + offset)))
   (pt_find_pte pt (as_pn_by_floor va) m)"

definition pt_token :: "page_table \<Rightarrow> nat" where
  "pt_token pt = take_bit 64 (push_bit 60 8) OR pt_root_ppn pt"

section \<open>Entries\<close>

lemma pte_new_bits:
  assumes "ppn < 2 ^ 44" "flags < 2 ^ 10"
  shows "pte_new ppn flags = ppn * 2 ^ 10 + flags" "pte_new ppn flags < 2 ^ 64"
proof -
  have t: "take_bit 64 (push_bit 10 ppn) = push_bit 10 ppn"
    using assms(1) by (simp add: push_bit_eq_mult take_bit_nat_eq_self_iff)
  have "push_bit 10 ppn AND flags = 0"
  proof (rule bit_eqI)
    fix n
    have "bit flags n \<Longrightarrow> n < 10"
      using assms(2) by (metis bit_take_bit_iff take_bit_nat_eq_self_iff)
    then show "bit (push_bit 10 ppn AND flags) n = bit (0 :: nat) n"
      by (auto simp: bit_simps)
  qed
  then have "push_bit 10 ppn OR flags = push_bit 10 ppn + flags"
    by (simp add: disjunctive_add [symmetric] bit_eq_iff bit_and_iff)
  then show eq: "pte_new ppn flags = ppn * 2 ^ 10 + flags"
    using t by (simp add: pte_new_def push_bit_eq_mult)
  show "pte_new ppn flags < 2 ^ 64" using eq assms by simp
qed

lemma pte_ppn_div: "pte_ppn e = e div 2 ^ 10 mod 2 ^ 44"
  using and_mask [of "e div 1024" 44] by (simp add: pte_ppn_def conv_mod drop_bit_eq_div)

lemma pte_ppn_new [simp]: "ppn < 2 ^ 44 \<Longrightarrow> flags < 2 ^ 10 \<Longrightarrow> pte_ppn (pte_new ppn flags) = ppn"
  by (simp add: pte_ppn_div pte_new_bits)

lemma pte_flags_new [simp]:
  "ppn < 2 ^ 44 \<Longrightarrow> flags < 2 ^ 8 \<Longrightarrow> pte_flags (pte_new ppn flags) = flags"
  by (simp add: pte_flags_def pte_new_bits take_bit_eq_mod mod_add_eq [symmetric])

lemma flags_or_V: "flags OR PTE_V = (if even flags then flags + 1 else flags)"
  unfolding PTE_V_def or_one_eq by simp

lemma pte_is_valid_odd: "pte_is_valid e \<longleftrightarrow> odd e"
  by (simp add: pte_is_valid_def pte_flags_def PTE_V_def and_one_eq odd_iff_mod_2_eq_one
      take_bit_eq_mod mod_mod_cancel)

lemma pte_new_link [simp]:
  assumes "f < 17592186044416"
  shows "pte_ppn (pte_new f PTE_V) = f" "pte_is_valid (pte_new f PTE_V)"
  using assms pte_ppn_new [of f 1] by (simp_all add: PTE_V_def pte_is_valid_odd pte_new_bits)

lemma pte_empty_invalid [simp]: "\<not> pte_is_valid pte_empty" "\<not> pte_is_valid 0"
  by (simp_all add: pte_is_valid_odd pte_empty_def)

lemma pte_ppn_bound: "pte_ppn e < 2 ^ 44"
  by (simp add: pte_ppn_div)


section \<open>Memory updates seen as entry arrays\<close>

lemma length_as_pte_array [simp]: "length (as_pte_array m p) = 512"
  by (simp add: as_pte_array_def)

lemma as_pte_array_frames_cong: "km_frames m p = km_frames m' p \<Longrightarrow> as_pte_array m p = as_pte_array m' p"
  by (simp add: as_pte_array_def)

lemma as_pte_array_write [block_simps]:
  "e < 2 ^ 64 \<Longrightarrow> as_pte_array (pte_write q i e m) p =
     (if p = q then (as_pte_array m q)[i := e] else as_pte_array m p)"
proof -
  assume e: "e < 2 ^ 64"
  have "\<forall>x\<in>set ((as_pte_array m q)[i := e]). x < 256 ^ 8"
  proof
    fix x assume "x \<in> set ((as_pte_array m q)[i := e])"
    then have "x = e \<or> x \<in> set (as_pte_array m q)"
      using set_update_subset_insert by fastforce
    then show "x < 256 ^ 8"
      using e words_of_bound [of x 8 512 "km_frames m q"] by (auto simp: as_pte_array_def)
  qed
  then show ?thesis
    by (simp add: as_pte_array_def pte_write_def)
qed

lemma words_of_replicate_0: "words_of 8 512 (replicate 4096 0) = replicate 512 0"
proof -
  have "8 * 512 = (4096 :: nat)" by simp
  then show ?thesis using words_of_zeros [of 8 512] by (simp only:)
qed

lemma as_pte_array_new [block_simps]:
  "as_pte_array (frame_tracker_new f m) p = (if p = f then replicate 512 0 else as_pte_array m p)"
  by (simp add: as_pte_array_def frame_tracker_new_def words_of_replicate_0)

lemma frame_alloc_Some:
  assumes "frame_alloc m = (Some f, m')" "fa_inv l r (km_alloc m)"
  shows "fa_inv l r (km_alloc m')" "fa_live l (km_alloc m') = insert f (fa_live l (km_alloc m))"
    "f \<notin> fa_live l (km_alloc m)" "l \<le> f" "f < r" "f < 2 ^ 44"
    "km_frames m' = (km_frames m)(f := replicate 4096 0)"
proof -
  from assms(1) have g: "fa_alloc (km_alloc m) = (Some f, km_alloc m')"
    and fr: "km_frames m' = (km_frames m)(f := replicate 4096 0)"
    by (auto simp: frame_alloc_def frame_tracker_new_def split: prod.splits option.splits)
  show "km_frames m' = (km_frames m)(f := replicate 4096 0)" by (rule fr)
  show "fa_inv l r (km_alloc m')" by (rule frm_alloc.get_inv [OF assms(2) g])
  show "fa_live l (km_alloc m') = insert f (fa_live l (km_alloc m))"
    by (rule frm_alloc.get_live [OF assms(2) g])
  show "f \<notin> fa_live l (km_alloc m)" by (rule frm_alloc.get_fresh [OF assms(2) g])
  have b: "l \<le> f \<and> f < r" using fa_alloc_range [OF assms(2)] g by simp
  then show "l \<le> f" "f < r" "f < 2 ^ 44" using assms(2) by (auto simp: fa_inv_def)
qed

lemma as_pte_array_alloc:
  "frame_alloc m = (Some f, m') \<Longrightarrow>
   as_pte_array m' p = (if p = f then replicate 512 0 else as_pte_array m p)"
  by (auto simp: frame_alloc_def block_simps as_pte_array_def frame_tracker_new_def
      words_of_replicate_0 split: prod.splits option.splits)

section \<open>Walks\<close>

lemma pt_walk_snoc:
  "pt_walk m p (xs @ [i]) = do {
     q \<leftarrow> pt_walk m p xs; pte \<leftarrow> nth_opt (as_pte_array m q) i;
     if \<not> pte_is_valid pte then None else Some (pte_ppn pte) }"
proof (induction xs arbitrary: p)
  case Nil
  then show ?case by (cases "nth_opt (as_pte_array m p) i") simp_all
next
  case (Cons x xs)
  then show ?case by (cases "nth_opt (as_pte_array m p) x") simp_all
qed

text \<open>
  Well-formedness of the table in memory: walks of at most two steps end in frames the table
  owns, and two walks to the same frame are the same walk, so the three levels form a tree.
\<close>

definition pt_wf :: "page_table \<Rightarrow> kmem \<Rightarrow> bool" where
  "pt_wf pt m \<longleftrightarrow>
     (\<forall>xs p. length xs \<le> 2 \<and> pt_walk m (pt_root_ppn pt) xs = Some p \<longrightarrow> p \<in> set (pt_metadata_frames pt)) \<and>
     (\<forall>xs ys p. length xs \<le> 2 \<and> length ys \<le> 2 \<and> pt_walk m (pt_root_ppn pt) xs = Some p \<and>
        pt_walk m (pt_root_ppn pt) ys = Some p \<longrightarrow> xs = ys)"

lemma pt_wf_owned:
  "pt_wf pt m \<Longrightarrow> pt_walk m (pt_root_ppn pt) xs = Some p \<Longrightarrow> length xs \<le> 2 \<Longrightarrow>
   p \<in> set (pt_metadata_frames pt)"
  by (simp add: pt_wf_def)

lemma pt_wf_inj:
  "pt_wf pt m \<Longrightarrow> pt_walk m (pt_root_ppn pt) xs = Some p \<Longrightarrow>
   pt_walk m (pt_root_ppn pt) ys = Some p \<Longrightarrow> length xs \<le> 2 \<Longrightarrow> length ys \<le> 2 \<Longrightarrow> xs = ys"
  unfolding pt_wf_def by blast

text \<open>The mapping the table implements: valid leaf entries only.\<close>

definition pte_decode :: "nat \<Rightarrow> (nat \<times> nat) option" where
  "pte_decode e = (if pte_is_valid e then Some (pte_ppn e, pte_flags e) else None)"

definition pt_abs :: "page_table \<Rightarrow> kmem \<Rightarrow> nat \<Rightarrow> (nat \<times> nat) option" where
  "pt_abs pt m vpn = Option.bind (pt_translate pt vpn m) pte_decode"

lemma indexes_bound: "i < 3 \<Longrightarrow> indexes vpn ! i < 512"
  by (auto simp: indexes_div less_Suc_eq numeral_3_eq_3)

lemma indexes_inj:
  assumes "v < 2 ^ 27" "w < 2 ^ 27" "indexes v = indexes w"
  shows "v = w"
proof -
  have d: "x mod 512 + 512 * (x div 512 mod 512) + 262144 * (x div 262144 mod 512) = x"
    if "x < 2 ^ 27" for x :: nat
  proof -
    have "x div 262144 mod 512 = x div 262144" using that by (simp add: less_mult_imp_div_less)
    moreover have "x div 262144 = x div 512 div 512" by (simp add: div_mult2_eq)
    moreover have "x div 512 mod 512 + 512 * (x div 512 div 512) = x div 512"
      "x mod 512 + 512 * (x div 512) = x" by (rule mod_mult_div_eq)+
    ultimately show ?thesis by linarith
  qed
  from assms(3) have "v mod 512 = w mod 512" "v div 512 mod 512 = w div 512 mod 512"
    "v div 262144 mod 512 = w div 262144 mod 512" by (simp_all add: indexes_div)
  with d [OF assms(1)] d [OF assms(2)] show ?thesis by linarith
qed

lemma indexes_split: "indexes v = take 2 (indexes v) @ [indexes v ! 2]"
  by (simp add: indexes_def numeral_2_eq_2)

lemma pt_translate_walk:
  "pt_translate pt v m =
     map_option (\<lambda>p. as_pte_array m p ! (indexes v ! 2)) (pt_walk m (pt_root_ppn pt) (take 2 (indexes v)))"
  using indexes_bound [of 2 v]
  by (cases "pt_walk m (pt_root_ppn pt) (take 2 (indexes v))")
     (auto simp: pt_translate_def pt_find_pte_def)

lemma pt_abs_walk:
  "pt_abs pt m v = do { p \<leftarrow> pt_walk m (pt_root_ppn pt) (take 2 (indexes v));
     pte_decode (as_pte_array m p ! (indexes v ! 2)) }"
  by (cases "pt_walk m (pt_root_ppn pt) (take 2 (indexes v))") (simp_all add: pt_abs_def pt_translate_walk)

lemma take2_indexes: "take 2 (indexes v) = [v div 262144 mod 512, v div 512 mod 512]"
  by (simp add: indexes_div)

lemma length_indexes [simp]: "length (indexes v) = 3"
  by (simp add: indexes_def)

subsection \<open>Linking a new page-table page\<close>


text \<open>\<open>m2\<close> is the memory after a fresh, cleared frame \<open>f\<close> is written into the empty slot
  \<open>i\<close> of the page reached by \<open>xs\<close>.\<close>

definition linked :: "kmem \<Rightarrow> nat \<Rightarrow> nat \<Rightarrow> nat \<Rightarrow> kmem \<Rightarrow> bool" where
  "linked m q i f m2 \<longleftrightarrow> (\<forall>p. as_pte_array m2 p =
     (if p = q then (as_pte_array m q)[i := pte_new f PTE_V]
      else if p = f then replicate 512 0 else as_pte_array m p))"

lemma linkedI:
  assumes "frame_alloc m = (Some f, m1)" "f < 2 ^ 44" "q \<noteq> f"
  shows "linked m q i f (pte_write q i (pte_new f PTE_V) m1)"
  unfolding linked_def
  using assms pte_new_bits(2) [of f PTE_V] by (simp add: block_simps as_pte_array_alloc PTE_V_def)

lemma link_walk:
  assumes "linked m q i f m2" "pt_wf pt m" "pt_walk m (pt_root_ppn pt) xs = Some q"
    "length xs \<le> 1" "i < 512" "\<not> pte_is_valid (as_pte_array m q ! i)"
    "f \<notin> set (pt_metadata_frames pt)" "f < 2 ^ 44"
  shows "length ys \<le> 2 \<Longrightarrow> pt_walk m2 (pt_root_ppn pt) ys =
    (if ys = xs @ [i] then Some f else pt_walk m (pt_root_ppn pt) ys)"
proof (induction ys rule: rev_induct)
  case Nil
  then show ?case by simp
next
  case (snoc j ys)
  let ?r = "pt_root_ppn pt"
  have ih: "pt_walk m2 ?r ys = (if ys = xs @ [i] then Some f else pt_walk m ?r ys)"
    using snoc by simp
  have qf: "q \<noteq> f" using pt_wf_owned [OF assms(2,3)] assms(4,7) by auto
  note arr = assms(1) [unfolded linked_def, rule_format]
  show ?case
  proof (cases "ys = xs @ [i]")
    case True
    have "pt_walk m ?r (xs @ [i]) = None"
      using assms(3,6) by (simp add: pt_walk_snoc nth_opt_def)
    then have "pt_walk m ?r (ys @ [j]) = None"
      unfolding True pt_walk_snoc [of m ?r "xs @ [i]" j] by simp
    moreover have "pt_walk m2 ?r (ys @ [j]) = None"
      unfolding pt_walk_snoc [of m2 ?r ys j] ih using True qf by (simp add: arr nth_opt_def)
    ultimately show ?thesis using True by simp
  next
    case False
    show ?thesis
    proof (cases "pt_walk m ?r ys")
      case None
      with False ih assms(3) show ?thesis by (auto simp: pt_walk_snoc)
    next
      case (Some p)
      have pf: "p \<noteq> f" using pt_wf_owned [OF assms(2) Some] snoc.prems assms(7) by auto
      have pq: "p = q \<longleftrightarrow> ys = xs"
        using pt_wf_inj [OF assms(2) Some, of xs] snoc.prems assms(3,4) Some by auto
      show ?thesis
        using Some False ih pf pq assms(5,8)
        by (auto simp: pt_walk_snoc arr nth_opt_def)
    qed
  qed
qed

lemma link_wf:
  assumes "linked m q i f m2" "pt_wf pt m" "pt_walk m (pt_root_ppn pt) xs = Some q"
    "length xs \<le> 1" "i < 512" "\<not> pte_is_valid (as_pte_array m q ! i)"
    "f \<notin> set (pt_metadata_frames pt)" "f < 2 ^ 44"
  shows "pt_wf (pt\<lparr>pt_metadata_frames := pt_metadata_frames pt @ [f]\<rparr>) m2"
proof -
  note w = link_walk [OF assms]
  have "p \<in> insert f (set (pt_metadata_frames pt))"
    if "length ys \<le> 2" "pt_walk m2 (pt_root_ppn pt) ys = Some p" for ys p
    using that pt_wf_owned [OF assms(2)] by (auto simp: w split: if_splits)
  moreover have "ys = zs" if "length ys \<le> 2" "length zs \<le> 2"
    "pt_walk m2 (pt_root_ppn pt) ys = Some p" "pt_walk m2 (pt_root_ppn pt) zs = Some p" for ys zs p
    using that pt_wf_owned [OF assms(2)] pt_wf_inj [OF assms(2)] assms(7)
    by (auto simp: w split: if_splits)
  ultimately show ?thesis unfolding pt_wf_def by auto
qed

lemma link_abs:
  assumes "linked m q i f m2" "pt_wf pt m" "pt_walk m (pt_root_ppn pt) xs = Some q"
    "length xs \<le> 1" "i < 512" "\<not> pte_is_valid (as_pte_array m q ! i)"
    "f \<notin> set (pt_metadata_frames pt)" "f < 2 ^ 44"
  shows "pt_abs (pt\<lparr>pt_metadata_frames := fs\<rparr>) m2 v = pt_abs pt m v"
proof -
  let ?ys = "take 2 (indexes v)" and ?r = "pt_root_ppn pt"
  note w = link_walk [OF assms, of ?ys]
  note arr = assms(1) [unfolded linked_def, rule_format]
  show ?thesis
  proof (cases "?ys = xs @ [i]")
    case True
    have "pt_walk m ?r ?ys = None"
      using assms(3,6) True by (simp add: pt_walk_snoc nth_opt_def)
    moreover have "q \<noteq> f" using pt_wf_owned [OF assms(2,3)] assms(4,7) by auto
    moreover have "pt_walk m2 ?r ?ys = Some f" using True w assms(4) by simp
    ultimately show ?thesis using indexes_bound [of 2 v]
      by (simp add: pt_abs_walk arr pte_decode_def)
  next
    case False
    then have eq: "pt_walk m2 ?r ?ys = pt_walk m ?r ?ys" using w by simp
    have "as_pte_array m2 p = as_pte_array m p" if "pt_walk m ?r ?ys = Some p" for p
    proof -
      have "p \<noteq> q"
      proof
        assume "p = q"
        then have "?ys = xs" using pt_wf_inj [OF assms(2) that, of xs] assms(3,4) by simp
        then have "length ?ys = length xs" by (rule arg_cong)
        with assms(4) show False by simp
      qed
      moreover have "p \<noteq> f" using pt_wf_owned [OF assms(2) that] assms(7) by auto
      ultimately show ?thesis by (simp add: arr)
    qed
    with eq show ?thesis by (cases "pt_walk m ?r ?ys") (simp_all add: pt_abs_walk)
  qed
qed


subsection \<open>Walking with allocation\<close>

text \<open>The table and the allocator together: the table's own pages are allocated frames.\<close>

definition pt_ok :: "nat \<Rightarrow> nat \<Rightarrow> page_table \<Rightarrow> kmem \<Rightarrow> bool" where
  "pt_ok l r pt m \<longleftrightarrow> pt_wf pt m \<and> fa_inv l r (km_alloc m) \<and> distinct (pt_metadata_frames pt) \<and>
     (\<forall>f\<in>set (pt_metadata_frames pt). f \<in> fa_live l (km_alloc m))"

text \<open>What \<open>find_pte_then_alloc\<close> keeps: the mapping, the root, the data frames, the
  bytes of every frame that was in use for something else.\<close>

definition pt_grown :: "nat \<Rightarrow> nat \<Rightarrow> page_table \<Rightarrow> kmem \<Rightarrow> page_table \<Rightarrow> kmem \<Rightarrow> bool" where
  "pt_grown l r pt m pt' m' \<longleftrightarrow> pt_ok l r pt' m' \<and> pt_abs pt' m' = pt_abs pt m \<and>
     pt_root_ppn pt' = pt_root_ppn pt \<and> pt_data_frames pt' = pt_data_frames pt \<and>
     set (pt_metadata_frames pt) \<subseteq> set (pt_metadata_frames pt') \<and>
     fa_live l (km_alloc m') = fa_live l (km_alloc m) \<union> set (pt_metadata_frames pt') \<and>
     (\<forall>f \<in> set (pt_metadata_frames pt') - set (pt_metadata_frames pt). f \<notin> fa_live l (km_alloc m)) \<and>
     (\<forall>p. p \<notin> set (pt_metadata_frames pt') \<longrightarrow> km_frames m' p = km_frames m p)"

lemma pt_grown_refl: "pt_ok l r pt m \<Longrightarrow> pt_grown l r pt m pt m"
  by (auto simp: pt_grown_def pt_ok_def)

lemma pt_grown_trans:
  assumes "pt_grown l r pt m pt1 m1" "pt_grown l r pt1 m1 pt2 m2"
  shows "pt_grown l r pt m pt2 m2"
  using assms unfolding pt_grown_def by (auto simp: subset_iff)

lemma pt_link_step:
  assumes ok: "pt_ok l r pt m" and w: "pt_walk m (pt_root_ppn pt) xs = Some q"
    and n: "length xs \<le> 1" and i: "i < 512" and inv: "\<not> pte_is_valid (as_pte_array m q ! i)"
    and al: "frame_alloc m = (Some f, m1)"
  shows "pt_grown l r pt m (pt\<lparr>pt_metadata_frames := pt_metadata_frames pt @ [f]\<rparr>)
      (pte_write q i (pte_new f PTE_V) m1)"
    and "pt_walk (pte_write q i (pte_new f PTE_V) m1) (pt_root_ppn pt) (xs @ [i]) = Some f"
    and "f < 2 ^ 44"
proof -
  let ?pt' = "pt\<lparr>pt_metadata_frames := pt_metadata_frames pt @ [f]\<rparr>"
  let ?m2 = "pte_write q i (pte_new f PTE_V) m1"
  have wf: "pt_wf pt m" and fi: "fa_inv l r (km_alloc m)"
    and own: "\<forall>f\<in>set (pt_metadata_frames pt). f \<in> fa_live l (km_alloc m)"
    using ok by (auto simp: pt_ok_def)
  note fa = frame_alloc_Some [OF al fi]
  have fresh: "f \<notin> set (pt_metadata_frames pt)" using own fa(3) by blast
  have qm: "q \<in> set (pt_metadata_frames pt)" using pt_wf_owned [OF wf w] n by simp
  have "q \<noteq> f" using qm fresh by auto
  then have lk: "linked m q i f ?m2" by (rule linkedI [OF al fa(6)])
  note h = lk wf w n i inv fresh fa(6)
  show "f < 2 ^ 44" by (rule fa(6))
  show "pt_walk ?m2 (pt_root_ppn pt) (xs @ [i]) = Some f" using link_walk [OF h, of "xs @ [i]"] n by simp
  have abs: "pt_abs ?pt' ?m2 = pt_abs pt m" using link_abs [OF h] by (rule ext)
  have ka: "km_alloc ?m2 = km_alloc m1" by (simp add: pte_write_def)
  have "pt_ok l r ?pt' ?m2" using link_wf [OF h] fa own ok fresh by (auto simp: pt_ok_def ka)
  moreover have "km_frames ?m2 p = km_frames m p" if "p \<notin> set (pt_metadata_frames ?pt')" for p
    using that qm fa(7) by (auto simp: pte_write_def)
  ultimately show "pt_grown l r pt m ?pt' ?m2"
    unfolding pt_grown_def using abs fa(2,3) own by (auto simp: ka)
qed

lemma pt_walk_alloc_grows:
  "pt_ok l r pt m \<Longrightarrow> pt_walk m (pt_root_ppn pt) xs = Some q \<Longrightarrow> length xs + length is \<le> 2 \<Longrightarrow>
   \<forall>i\<in>set is. i < 512 \<Longrightarrow> pt_walk_alloc q is pt m = Some (res, pt', m') \<Longrightarrow>
   pt_grown l r pt m pt' m' \<and> (\<exists>p. res = Some p \<and> pt_walk m' (pt_root_ppn pt) (xs @ is) = Some p)"
proof (induction "is" arbitrary: q xs pt m)
  case Nil
  then have "res = Some q" "pt' = pt" "m' = m" by simp_all
  with Nil show ?case using pt_grown_refl [OF Nil.prems(1)] by simp
next
  case (Cons i "is")
  have i: "i < 512" and n: "length xs \<le> 1" using Cons.prems by auto
  show ?case
  proof (cases "pte_is_valid (as_pte_array m q ! i)")
    case True
    have w: "pt_walk m (pt_root_ppn pt) (xs @ [i]) = Some (pte_ppn (as_pte_array m q ! i))"
      using Cons.prems(2) i True by (simp add: pt_walk_snoc)
    show ?thesis using Cons.IH [OF Cons.prems(1) w] Cons.prems(3,4,5) True i by simp
  next
    case False
    then obtain f m1 where al: "frame_alloc m = (Some f, m1)"
      and run: "pt_walk_alloc (pte_ppn (pte_new f PTE_V)) is
        (pt\<lparr>pt_metadata_frames := pt_metadata_frames pt @ [f]\<rparr>)
        (pte_write q i (pte_new f PTE_V) m1) = Some (res, pt', m')"
      using Cons.prems(5) i by (auto simp: Let_def split: prod.splits option.splits)
    note st = pt_link_step [OF Cons.prems(1,2) n i False al]
    let ?pt = "pt\<lparr>pt_metadata_frames := pt_metadata_frames pt @ [f]\<rparr>"
    let ?m2 = "pte_write q i (pte_new f PTE_V) m1"
    have "pt_ok l r ?pt ?m2" using st(1) by (simp add: pt_grown_def)
    moreover have "pt_walk ?m2 (pt_root_ppn ?pt) (xs @ [i]) = Some f" using st(2) by simp
    moreover have "pt_walk_alloc f is ?pt ?m2 = Some (res, pt', m')" using run st(3) by simp
    ultimately have "pt_grown l r ?pt ?m2 pt' m' \<and>
        (\<exists>p. res = Some p \<and> pt_walk m' (pt_root_ppn ?pt) ((xs @ [i]) @ is) = Some p)"
      using Cons.prems(3,4) by (intro Cons.IH) simp_all
    with pt_grown_trans [OF st(1)] show ?thesis by simp
  qed
qed


text \<open>Enough free frames make the walk succeed.\<close>

definition free_frames :: "nat \<Rightarrow> nat \<Rightarrow> kmem \<Rightarrow> nat set" where
  "free_frames l r m = {l..<r} - fa_live l (km_alloc m)"

lemma finite_free_frames [simp]: "finite (free_frames l r m)"
  by (simp add: free_frames_def)

lemma frame_alloc_free:
  assumes "fa_inv l r (km_alloc m)" "0 < card (free_frames l r m)"
  obtains f m' where "frame_alloc m = (Some f, m')"
    "card (free_frames l r m') = card (free_frames l r m) - 1"
proof -
  have "fa_live l (km_alloc m) \<noteq> {l..<r}" using assms(2) by (auto simp: free_frames_def)
  then have "fst (fa_alloc (km_alloc m)) \<noteq> None" using fa_alloc_None_iff [OF assms(1)] by simp
  then obtain f m' where al: "frame_alloc m = (Some f, m')"
    by (cases "fa_alloc (km_alloc m)") (auto simp: frame_alloc_def)
  note fa = frame_alloc_Some [OF al assms(1)]
  have "free_frames l r m' = free_frames l r m - {f}" using fa(2) by (auto simp: free_frames_def)
  moreover have "f \<in> free_frames l r m" using fa(3,4,5) by (simp add: free_frames_def)
  ultimately show ?thesis using that [OF al] by simp
qed

lemma km_alloc_pte_write [simp]: "km_alloc (pte_write q i e m) = km_alloc m"
  by (simp add: pte_write_def)

lemma pt_walk_alloc_total:
  "fa_inv l r (km_alloc m) \<Longrightarrow> \<forall>i\<in>set is. i < 512 \<Longrightarrow> length is \<le> card (free_frames l r m) \<Longrightarrow>
   pt_walk_alloc q is pt m \<noteq> None"
proof (induction "is" arbitrary: q pt m)
  case Nil
  then show ?case by simp
next
  case (Cons i "is")
  show ?case
  proof (cases "pte_is_valid (as_pte_array m q ! i)")
    case True
    with Cons show ?thesis by simp
  next
    case False
    have "0 < card (free_frames l r m)" using Cons.prems(3) by simp
    then obtain f m1 where al: "frame_alloc m = (Some f, m1)"
      and c: "card (free_frames l r m1) = card (free_frames l r m) - 1"
      by (rule frame_alloc_free [OF Cons.prems(1)])
    have "fa_inv l r (km_alloc m1)" by (rule frame_alloc_Some(1) [OF al Cons.prems(1)])
    moreover have "free_frames l r (pte_write q i e m1) = free_frames l r m1" for e
      by (simp add: free_frames_def)
    ultimately have "pt_walk_alloc p is pt' (pte_write q i e m1) \<noteq> None" for p pt' e
      using Cons.prems(2,3) c by (intro Cons.IH) simp_all
    then show ?thesis using False al Cons.prems(2) by (simp add: Let_def)
  qed
qed

lemma free_frames_pte_write [simp]: "free_frames l r (pte_write q i e m) = free_frames l r m"
  by (simp add: free_frames_def)

lemma frame_alloc_card:
  assumes "fa_inv l r (km_alloc m)" "frame_alloc m = (Some f, m')"
  shows "card (free_frames l r m) = card (free_frames l r m') + 1"
proof -
  note fa = frame_alloc_Some [OF assms(2,1)]
  have "free_frames l r m = insert f (free_frames l r m')" "f \<notin> free_frames l r m'"
    using fa(2-5) by (auto simp: free_frames_def)
  then show ?thesis by simp
qed

lemma pt_walk_alloc_free:
  "fa_inv l r (km_alloc m) \<Longrightarrow> pt_walk_alloc q is pt m = Some (res, pt', m') \<Longrightarrow>
   card (free_frames l r m) \<le> card (free_frames l r m') + length is"
proof (induction "is" arbitrary: q pt m)
  case Nil
  then show ?case by simp
next
  case (Cons i "is")
  show ?case
  proof (cases "i < 512 \<and> \<not> pte_is_valid (as_pte_array m q ! i)")
    case True
    then obtain f m1 pt1 where al: "frame_alloc m = (Some f, m1)"
      and run: "pt_walk_alloc (pte_ppn (pte_new f PTE_V)) is pt1
        (pte_write q i (pte_new f PTE_V) m1) = Some (res, pt', m')"
      using Cons.prems(2) by (auto simp: Let_def split: prod.splits option.splits)
    have "fa_inv l r (km_alloc m1)" by (rule frame_alloc_Some(1) [OF al Cons.prems(1)])
    with Cons.IH [OF _ run] frame_alloc_card [OF Cons.prems(1) al] show ?thesis by simp
  next
    case False
    show ?thesis
    proof (cases "i < 512")
      case True
      then show ?thesis using False Cons.IH [OF Cons.prems(1)] Cons.prems(2) by fastforce
    next
      case False
      then show ?thesis using Cons.prems(2) by simp
    qed
  qed
qed

subsection \<open>Writing a leaf entry\<close>

lemma leaf_write_walk:
  assumes "pt_wf pt m" "pt_walk m (pt_root_ppn pt) xs = Some q" "length xs = 2" "e < 2 ^ 64"
  shows "length ys \<le> 2 \<Longrightarrow>
    pt_walk (pte_write q j e m) (pt_root_ppn pt) ys = pt_walk m (pt_root_ppn pt) ys"
proof (induction ys rule: rev_induct)
  case Nil
  then show ?case by simp
next
  case (snoc k ys)
  let ?r = "pt_root_ppn pt"
  have "p \<noteq> q" if "pt_walk m ?r ys = Some p" for p
    using pt_wf_inj [OF assms(1) that, of xs] assms(2,3) snoc.prems by auto
  with snoc assms(4) show ?case
    by (cases "pt_walk m ?r ys") (auto simp: pt_walk_snoc block_simps)
qed

lemma leaf_write:
  assumes "pt_ok l r pt m" "pt_walk m (pt_root_ppn pt) xs = Some q" "length xs = 2" "e < 2 ^ 64" "j < 512"
  shows "pt_ok l r pt (pte_write q j e m)"
    and "pt_abs pt (pte_write q j e m) v =
      (if indexes v = xs @ [j] then pte_decode e else pt_abs pt m v)"
proof -
  have wf: "pt_wf pt m" using assms(1) by (simp add: pt_ok_def)
  note w = leaf_write_walk [OF wf assms(2-4)]
  show "pt_ok l r pt (pte_write q j e m)"
    using assms(1) unfolding pt_ok_def pt_wf_def by (simp add: w cong: conj_cong)
  have q: "pt_walk m (pt_root_ppn pt) ys = Some q \<longleftrightarrow> ys = xs" if "length ys = 2" for ys
    using pt_wf_inj [OF wf _ assms(2), of ys] assms(2,3) that by auto
  have ix: "indexes v = xs @ [j] \<longleftrightarrow> take 2 (indexes v) = xs \<and> indexes v ! 2 = j"
    by (subst indexes_split) simp
  show "pt_abs pt (pte_write q j e m) v = (if indexes v = xs @ [j] then pte_decode e else pt_abs pt m v)"
  proof (cases "pt_walk m (pt_root_ppn pt) (take 2 (indexes v))")
    case None
    then show ?thesis using assms(2) ix by (auto simp: pt_abs_walk w)
  next
    case (Some p)
    then show ?thesis
      using ix q [of "take 2 (indexes v)"] assms(4,5) indexes_bound [of 2 v]
      by (auto simp: pt_abs_walk w block_simps)
  qed
qed

section \<open>The operations on the mapping\<close>

lemma pt_find_pte_then_alloc_grows:
  assumes "pt_ok l r pt m" "pt_find_pte_then_alloc pt vpn m = Some (res, pt', m')"
  obtains q where "res = Some (q, indexes vpn ! 2)" "pt_grown l r pt m pt' m'"
    "pt_walk m' (pt_root_ppn pt') (take 2 (indexes vpn)) = Some q"
proof -
  from assms(2) obtain r1 where wa: "pt_walk_alloc (pt_root_ppn pt) (take 2 (indexes vpn)) pt m = Some (r1, pt', m')"
    and res: "res = do { ppn \<leftarrow> r1; _ \<leftarrow> nth_opt (as_pte_array m' ppn) (indexes vpn ! 2); Some (ppn, indexes vpn ! 2) }"
    by (auto simp: pt_find_pte_then_alloc_def Let_def bind_eq_Some_conv)
  have b: "\<forall>i\<in>set (take 2 (indexes vpn)). i < 512" by (simp add: indexes_div numeral_2_eq_2)
  have "pt_grown l r pt m pt' m' \<and>
      (\<exists>p. r1 = Some p \<and> pt_walk m' (pt_root_ppn pt) ([] @ take 2 (indexes vpn)) = Some p)"
    by (rule pt_walk_alloc_grows [OF assms(1) _ _ b wa]) simp_all
  with res indexes_bound [of 2 vpn] that show ?thesis by (auto simp: pt_grown_def)
qed

lemma pt_map_abs:
  assumes ok: "pt_ok l r pt m" and run: "pt_map vpn ppn flags pt m = Some (pt', m')"
    and b: "vpn < 2 ^ 27" "ppn < 2 ^ 44" "flags < 2 ^ 8"
  shows "pt_ok l r pt' m'" and "pt_abs pt m vpn = None"
    and "w < 2 ^ 27 \<Longrightarrow> pt_abs pt' m' w = (if w = vpn then Some (ppn, flags OR PTE_V) else pt_abs pt m w)"
    and "pt_root_ppn pt' = pt_root_ppn pt" and "pt_data_frames pt' = pt_data_frames pt"
    and "fa_live l (km_alloc m') = fa_live l (km_alloc m) \<union> set (pt_metadata_frames pt')"
    and "p \<notin> set (pt_metadata_frames pt') \<Longrightarrow> km_frames m' p = km_frames m p"
    and "set (pt_metadata_frames pt) \<subseteq> set (pt_metadata_frames pt')"
    and "f \<in> set (pt_metadata_frames pt') \<Longrightarrow> f \<in> set (pt_metadata_frames pt) \<or> f \<notin> fa_live l (km_alloc m)"
proof -
  obtain res m1 where fp: "pt_find_pte_then_alloc pt vpn m = Some (res, pt', m1)"
    and rest: "do { (q, i) \<leftarrow> res; assert_opt (\<not> pte_is_valid (as_pte_array m1 q ! i));
      Some (pt', pte_write q i (pte_new ppn (flags OR PTE_V)) m1) } = Some (pt', m')"
    using run by (auto simp: pt_map_def bind_eq_Some_conv split: if_splits)
  obtain q where res: "res = Some (q, indexes vpn ! 2)" and g: "pt_grown l r pt m pt' m1"
    and w2: "pt_walk m1 (pt_root_ppn pt') (take 2 (indexes vpn)) = Some q"
    by (rule pt_find_pte_then_alloc_grows [OF ok fp])
  let ?e = "pte_new ppn (flags OR PTE_V)"
  have fb: "flags OR PTE_V < 2 ^ 8" using flags_or_V [of flags] b(3) by (auto elim!: evenE)
  have ok1: "pt_ok l r pt' m1" and abs1: "pt_abs pt' m1 = pt_abs pt m"
    using g by (simp_all add: pt_grown_def)
  have inv: "\<not> pte_is_valid (as_pte_array m1 q ! (indexes vpn ! 2))"
    and m': "m' = pte_write q (indexes vpn ! 2) ?e m1" using rest res by (auto split: if_splits)
  have eb: "?e < 2 ^ 64" using pte_new_bits(2) [of ppn "flags OR PTE_V"] b fb by simp
  have v: "pte_is_valid ?e" using b fb
    by (simp add: pte_is_valid_odd pte_new_bits flags_or_V)
  have "indexes vpn ! 2 < 512" by (rule indexes_bound) simp
  note lw = leaf_write [OF ok1 w2 _ eb this, folded m']
  show "pt_ok l r pt' m'" by (rule lw(1)) simp
  show "pt_abs pt m vpn = None"
    using w2 inv by (simp add: abs1 [symmetric] pt_abs_walk pte_decode_def)
  show "pt_abs pt' m' w = (if w = vpn then Some (ppn, flags OR PTE_V) else pt_abs pt m w)" if "w < 2 ^ 27"
    using lw(2) [of w] indexes_inj [OF that b(1)] indexes_split [of vpn] v b fb
    by (auto simp: abs1 pte_decode_def)
  show "pt_root_ppn pt' = pt_root_ppn pt" "pt_data_frames pt' = pt_data_frames pt"
    "fa_live l (km_alloc m') = fa_live l (km_alloc m) \<union> set (pt_metadata_frames pt')"
    "set (pt_metadata_frames pt) \<subseteq> set (pt_metadata_frames pt')"
    "f \<in> set (pt_metadata_frames pt') \<Longrightarrow> f \<in> set (pt_metadata_frames pt) \<or> f \<notin> fa_live l (km_alloc m)"
    using g by (auto simp: pt_grown_def m')
  have "q \<in> set (pt_metadata_frames pt')"
    using ok1 pt_wf_owned [OF _ w2] by (simp add: pt_ok_def)
  then show "p \<notin> set (pt_metadata_frames pt') \<Longrightarrow> km_frames m' p = km_frames m p"
    using g by (auto simp: pt_grown_def m' pte_write_def)
qed


lemma pt_map_None_mapped:
  assumes ok: "pt_ok l r pt m" and "vpn < 2 ^ 27" "ppn < 2 ^ 44" "flags < 2 ^ 8"
    and "pt_abs pt m vpn \<noteq> None"
  shows "pt_map vpn ppn flags pt m = None"
proof (rule ccontr)
  assume "pt_map vpn ppn flags pt m \<noteq> None"
  then obtain pt' m' where "pt_map vpn ppn flags pt m = Some (pt', m')" by auto
  from pt_map_abs(2) [OF ok this assms(2-4)] assms(5) show False by simp
qed

lemma pt_map_total:
  assumes ok: "pt_ok l r pt m" and free: "2 \<le> card (free_frames l r m)"
    and un: "pt_abs pt m vpn = None"
  shows "\<exists>pt' m'. pt_map vpn ppn flags pt m = Some (pt', m')"
proof -
  have "pt_walk_alloc (pt_root_ppn pt) (take 2 (indexes vpn)) pt m \<noteq> None"
    by (rule pt_walk_alloc_total [of l r])
      (use ok free in \<open>simp_all add: pt_ok_def indexes_div numeral_2_eq_2\<close>)
  then obtain res pt1 m1 where fp: "pt_find_pte_then_alloc pt vpn m = Some (res, pt1, m1)"
    by (auto simp: pt_find_pte_then_alloc_def Let_def)
  obtain q where res: "res = Some (q, indexes vpn ! 2)" and g: "pt_grown l r pt m pt1 m1"
    and w2: "pt_walk m1 (pt_root_ppn pt1) (take 2 (indexes vpn)) = Some q"
    by (rule pt_find_pte_then_alloc_grows [OF ok fp])
  have "pt_abs pt1 m1 vpn = None" using g un by (simp add: pt_grown_def)
  then have "\<not> pte_is_valid (as_pte_array m1 q ! (indexes vpn ! 2))"
    using w2 by (auto simp: pt_abs_walk pte_decode_def split: if_splits)
  then show ?thesis using fp res by (simp add: pt_map_def)
qed

lemma pt_map_free:
  assumes "fa_inv l r (km_alloc m)" "pt_map vpn ppn flags pt m = Some (pt', m')"
  shows "card (free_frames l r m) \<le> card (free_frames l r m') + 2"
proof -
  obtain res r1 m1 where "pt_walk_alloc (pt_root_ppn pt) (take 2 (indexes vpn)) pt m = Some (res, pt', m1)"
    "free_frames l r m' = free_frames l r m1"
    using assms(2) by (auto simp: pt_map_def pt_find_pte_then_alloc_def Let_def bind_eq_Some_conv
        split: if_splits)
  with pt_walk_alloc_free [OF assms(1)] show ?thesis by fastforce
qed

lemma pt_unmap_eq:
  assumes ok: "pt_ok l r pt m"
  shows "pt_unmap vpn pt m = None \<longleftrightarrow> pt_abs pt m vpn = None"
    and "pt_unmap vpn pt m = Some m' \<Longrightarrow> pt_ok l r pt m'"
    and "pt_unmap vpn pt m = Some m' \<Longrightarrow> vpn < 2 ^ 27 \<Longrightarrow> w < 2 ^ 27 \<Longrightarrow>
      pt_abs pt m' w = (if w = vpn then None else pt_abs pt m w)"
    and "pt_unmap vpn pt m = Some m' \<Longrightarrow> km_alloc m' = km_alloc m"
    and "pt_unmap vpn pt m = Some m' \<Longrightarrow> p \<notin> set (pt_metadata_frames pt) \<Longrightarrow>
      km_frames m' p = km_frames m p"
proof -
  let ?i = "indexes vpn ! 2" and ?r = "pt_root_ppn pt" and ?xs = "take 2 (indexes vpn)"
  have i: "?i < 512" by (rule indexes_bound) simp
  show "pt_unmap vpn pt m = None \<longleftrightarrow> pt_abs pt m vpn = None"
    using i by (cases "pt_walk m ?r ?xs") (auto simp: pt_unmap_def pt_find_pte_def pt_abs_walk pte_decode_def)
  assume "pt_unmap vpn pt m = Some m'"
  then obtain q where q: "pt_walk m ?r ?xs = Some q" and m': "m' = pte_write q ?i pte_empty m"
    using i by (auto simp: pt_unmap_def pt_find_pte_def Let_def bind_eq_Some_conv split: if_splits)
  have e: "pte_empty < 2 ^ 64" by (simp add: pte_empty_def)
  note lw = leaf_write [OF ok q _ e i, folded m']
  show "pt_ok l r pt m'" by (rule lw(1)) simp
  show "km_alloc m' = km_alloc m" by (simp add: m')
  show "vpn < 2 ^ 27 \<Longrightarrow> w < 2 ^ 27 \<Longrightarrow> pt_abs pt m' w = (if w = vpn then None else pt_abs pt m w)"
    using lw(2) [of w] indexes_inj [of w vpn] indexes_split [of vpn] by (auto simp: pte_decode_def)
  have "q \<in> set (pt_metadata_frames pt)"
    using ok pt_wf_owned [OF _ q] by (simp add: pt_ok_def)
  then show "p \<notin> set (pt_metadata_frames pt) \<Longrightarrow> km_frames m' p = km_frames m p"
    by (auto simp: m' pte_write_def)
qed

lemma pt_new_ok:
  assumes "fa_inv l r (km_alloc m)" "pt_new m = Some (pt, m')"
  shows "pt_ok l r pt m'" "pt_abs pt m' = (\<lambda>_. None)" "pt_data_frames pt = []"
    "pt_metadata_frames pt = [pt_root_ppn pt]" "pt_root_ppn pt \<notin> fa_live l (km_alloc m)"
    "fa_live l (km_alloc m') = insert (pt_root_ppn pt) (fa_live l (km_alloc m))"
    "pt_root_ppn pt < 2 ^ 44"
    "km_frames m' = (km_frames m)(pt_root_ppn pt := replicate 4096 0)"
proof -
  from assms(2) obtain f where al: "frame_alloc m = (Some f, m')"
    and pt: "pt = \<lparr>pt_root_ppn = f, pt_data_frames = [], pt_metadata_frames = [f]\<rparr>"
    by (auto simp: pt_new_def split: prod.splits option.splits)
  note fa = frame_alloc_Some [OF al assms(1)]
  have w: "pt_walk m' f xs = (if xs = [] then Some f else None)" for xs
    by (cases xs) (auto simp: as_pte_array_alloc [OF al] nth_opt_def)
  have "pt_wf pt m'" by (simp add: pt_wf_def pt w)
  then show "pt_ok l r pt m'" using fa by (simp add: pt_ok_def pt)
  show "pt_abs pt m' = (\<lambda>_. None)"
    by (rule ext) (simp add: pt_abs_walk pt w flip: length_0_conv)
  show "pt_data_frames pt = []" "pt_metadata_frames pt = [pt_root_ppn pt]"
    "pt_root_ppn pt \<notin> fa_live l (km_alloc m)"
    "fa_live l (km_alloc m') = insert (pt_root_ppn pt) (fa_live l (km_alloc m))"
    "pt_root_ppn pt < 2 ^ 44" "km_frames m' = (km_frames m)(pt_root_ppn pt := replicate 4096 0)"
    using fa by (simp_all add: pt)
qed

lemma pt_translate_va_abs:
  assumes "pt_abs pt m (va div 4096) = Some (ppn, fl)"
  shows "pt_translate_va pt va m = Some (ppn * 4096 + va mod 4096)"
proof -
  from assms obtain p where p: "pt_walk m (pt_root_ppn pt) (take 2 (indexes (va div 4096))) = Some p"
    and e: "ppn = pte_ppn (as_pte_array m p ! (indexes (va div 4096) ! 2))"
    by (auto simp: pt_abs_walk pte_decode_def bind_eq_Some_conv split: if_splits)
  have b: "ppn < 2 ^ 44" unfolding e by (rule pte_ppn_bound)
  moreover have "va mod 4096 < 4096" by simp
  ultimately have "ppn * 4096 + va mod 4096 < 2 ^ 56" by simp
  with b p e indexes_bound [of 2 "va div 4096"] show ?thesis
    by (simp add: pt_translate_va_def pt_find_pte_def Let_def as_pn_by_floor_def page_offset_mod
        addr_from_pn_mult conv_mod take_bit_eq_mod)
qed


section \<open>The interface to address spaces\<close>

text \<open>
  What the areas of an address space rely on: a partial map from page numbers to
  (frame, flags) that \<open>map_page\<close> extends at an unmapped page and \<open>unmap_page\<close>
  shrinks at a mapped one. Page numbers are those of Sv39, below \<open>2 ^ 27\<close>.
\<close>

locale page_mapper =
  fixes ok :: "'s \<Rightarrow> bool"
    and view :: "'s \<Rightarrow> nat \<Rightarrow> (nat \<times> nat) option"
    and map_page :: "nat \<Rightarrow> nat \<Rightarrow> nat \<Rightarrow> 's \<Rightarrow> 's option"
    and unmap_page :: "nat \<Rightarrow> 's \<Rightarrow> 's option"
  assumes map_ok: "ok s \<Longrightarrow> v < 2 ^ 27 \<Longrightarrow> p < 2 ^ 44 \<Longrightarrow> fl < 2 ^ 8 \<Longrightarrow>
      map_page v p fl s = Some s' \<Longrightarrow> ok s'"
    and map_view: "ok s \<Longrightarrow> v < 2 ^ 27 \<Longrightarrow> p < 2 ^ 44 \<Longrightarrow> fl < 2 ^ 8 \<Longrightarrow>
      map_page v p fl s = Some s' \<Longrightarrow> w < 2 ^ 27 \<Longrightarrow>
      view s' w = (if w = v then Some (p, fl OR PTE_V) else view s w)"
    and map_free: "ok s \<Longrightarrow> v < 2 ^ 27 \<Longrightarrow> p < 2 ^ 44 \<Longrightarrow> fl < 2 ^ 8 \<Longrightarrow>
      map_page v p fl s = Some s' \<Longrightarrow> view s v = None"
    and unmap_ok: "ok s \<Longrightarrow> unmap_page v s = Some s' \<Longrightarrow> ok s'"
    and unmap_view: "ok s \<Longrightarrow> v < 2 ^ 27 \<Longrightarrow> unmap_page v s = Some s' \<Longrightarrow> w < 2 ^ 27 \<Longrightarrow>
      view s' w = (if w = v then None else view s w)"
    and unmap_total: "ok s \<Longrightarrow> unmap_page v s = None \<longleftrightarrow> view s v = None"
begin

lemma map_pages_view:
  "ok s \<Longrightarrow> \<forall>v\<in>set vs. v < 2 ^ 27 \<and> g v < 2 ^ 44 \<Longrightarrow> fl < 2 ^ 8 \<Longrightarrow>
   fold_opt (\<lambda>v. map_page v (g v) fl) vs s = Some s' \<Longrightarrow>
   ok s' \<and> distinct vs \<and> (\<forall>v\<in>set vs. view s v = None) \<and>
   (\<forall>w<2 ^ 27. view s' w = (if w \<in> set vs then Some (g w, fl OR PTE_V) else view s w))"
proof (induction vs arbitrary: s)
  case Nil
  then show ?case by simp
next
  case (Cons v vs)
  from Cons.prems(4) obtain t where t: "map_page v (g v) fl s = Some t"
    and r: "fold_opt (\<lambda>v. map_page v (g v) fl) vs t = Some s'" by (rule fold_opt_ConsE)
  have b: "v < 2 ^ 27" "g v < 2 ^ 44" using Cons.prems(2) by auto
  note st = map_ok [OF Cons.prems(1) b Cons.prems(3) t] map_view [OF Cons.prems(1) b Cons.prems(3) t]
    map_free [OF Cons.prems(1) b Cons.prems(3) t]
  have ih: "ok s' \<and> distinct vs \<and> (\<forall>v\<in>set vs. view t v = None) \<and>
      (\<forall>w<2 ^ 27. view s' w = (if w \<in> set vs then Some (g w, fl OR PTE_V) else view t w))"
    using Cons.IH [OF st(1) _ Cons.prems(3) r] Cons.prems(2) by simp
  have v: "v \<notin> set vs" using ih st(2) [OF b(1)] by auto
  have "view s u = None" if "u \<in> set vs" for u
    using that ih v st(2) [of u] Cons.prems(2) by (auto split: if_splits)
  with ih st v show ?case by auto
qed

lemma unmap_pages_view:
  "ok s \<Longrightarrow> \<forall>v\<in>set vs. v < 2 ^ 27 \<Longrightarrow> distinct vs \<Longrightarrow> \<forall>v\<in>set vs. view s v \<noteq> None \<Longrightarrow>
   \<exists>s'. fold_opt unmap_page vs s = Some s' \<and> ok s' \<and>
     (\<forall>w<2 ^ 27. view s' w = (if w \<in> set vs then None else view s w))"
proof (induction vs arbitrary: s)
  case Nil
  then show ?case by simp
next
  case (Cons v vs)
  have "unmap_page v s \<noteq> None"
    using unmap_total [OF Cons.prems(1), of v] Cons.prems(4) by simp
  then obtain t where t: "unmap_page v s = Some t" by blast
  have b: "v < 2 ^ 27" using Cons.prems(2) by simp
  note st = unmap_ok [OF Cons.prems(1) t] unmap_view [OF Cons.prems(1) b t]
  have "\<forall>u\<in>set vs. view t u \<noteq> None" using st(2) Cons.prems(2,3,4) by auto
  then obtain s' where "fold_opt unmap_page vs t = Some s'" "ok s'"
    "\<forall>w<2 ^ 27. view s' w = (if w \<in> set vs then None else view t w)"
    using Cons.IH [OF st(1)] Cons.prems(2,3) by auto
  then show ?case using t st(2) by auto
qed

text \<open>Unmapping a run of pages after mapping it does not panic and restores the map.\<close>

lemma map_unmap_pages:
  assumes "ok s" "\<forall>v\<in>set vs. v < 2 ^ 27 \<and> g v < 2 ^ 44" "fl < 2 ^ 8"
    "fold_opt (\<lambda>v. map_page v (g v) fl) vs s = Some s1"
  shows "\<exists>s'. fold_opt unmap_page vs s1 = Some s' \<and> ok s' \<and> (\<forall>w<2 ^ 27. view s' w = view s w)"
proof -
  note mp = map_pages_view [OF assms]
  then have "\<forall>v\<in>set vs. view s1 v \<noteq> None" using assms(2) by auto
  then obtain s' where "fold_opt unmap_page vs s1 = Some s'" "ok s'"
    "\<forall>w<2 ^ 27. view s' w = (if w \<in> set vs then None else view s1 w)"
    using unmap_pages_view [of s1 vs] mp assms(2) by auto
  with mp show ?thesis by auto
qed

end

text \<open>The page table with the memory it lives in provides the interface.\<close>

definition pt_map_st :: "nat \<Rightarrow> nat \<Rightarrow> nat \<Rightarrow> page_table \<times> kmem \<Rightarrow> (page_table \<times> kmem) option" where
  "pt_map_st vpn ppn flags s = pt_map vpn ppn flags (fst s) (snd s)"

definition pt_unmap_st :: "nat \<Rightarrow> page_table \<times> kmem \<Rightarrow> (page_table \<times> kmem) option" where
  "pt_unmap_st vpn s = map_option (Pair (fst s)) (pt_unmap vpn (fst s) (snd s))"

interpretation sv39: page_mapper "\<lambda>s. pt_ok l r (fst s) (snd s)" "\<lambda>s. pt_abs (fst s) (snd s)"
  pt_map_st pt_unmap_st for l r
proof (unfold_locales, goal_cases)
  case (1 s v p fl s')
  then show ?case using pt_map_abs(1) by (cases s') (simp add: pt_map_st_def)
next
  case (2 s v p fl s' w)
  then show ?case using pt_map_abs(3) by (cases s') (simp add: pt_map_st_def)
next
  case (3 s v p fl s')
  then show ?case using pt_map_abs(2) by (cases s') (simp add: pt_map_st_def)
next
  case (4 s v s')
  then show ?case using pt_unmap_eq(2) by (auto simp: pt_unmap_st_def)
next
  case (5 s v s' w)
  then show ?case using pt_unmap_eq(3) by (auto simp: pt_unmap_st_def)
next
  case (6 s v)
  then show ?case using pt_unmap_eq(1) by (simp add: pt_unmap_st_def)
qed


section \<open>Correctness of the page table\<close>

text \<open>A concrete machine for examples: frames 16 to 79, all free; \<open>frame_allocator::init\<close>
  leaves the allocator in this state.\<close>

definition boot_mem :: kmem where
  "boot_mem = \<lparr>km_frames = (\<lambda>_. []), km_alloc = fa_init 16 80 fa_new\<rparr>"

lemma boot_mem_inv: "fa_inv 16 80 (km_alloc boot_mem)" "card (free_frames 16 80 boot_mem) = 64"
  by (simp_all add: boot_mem_def free_frames_def)

lemma boot_pt:
  obtains pt m where "pt_new boot_mem = Some (pt, m)" "pt_ok 16 80 pt m"
    "pt_abs pt m = (\<lambda>_. None)" "card (free_frames 16 80 m) = 63" "pt_root_ppn pt < 2 ^ 44"
proof -
  have "0 < card (free_frames 16 80 boot_mem)" by (simp add: boot_mem_inv)
  then obtain f m where al: "frame_alloc boot_mem = (Some f, m)" by (rule frame_alloc_free [OF boot_mem_inv(1)])
  then have new: "pt_new boot_mem =
      Some (\<lparr>pt_root_ppn = f, pt_data_frames = [], pt_metadata_frames = [f]\<rparr>, m)"
    by (simp add: pt_new_def)
  show ?thesis
    by (rule that [OF new])
      (use pt_new_ok [OF boot_mem_inv(1) new] frame_alloc_card [OF boot_mem_inv(1) al] boot_mem_inv(2) in simp_all)
qed

text \<open>C3. \<open>PageTable::map\<close> on a well-formed table, with two free frames at hand: at a page
  that is not mapped it succeeds, keeps the table well-formed and changes the mapping at this page
  only, to the given frame with the given flags and V; at a mapped page it panics.\<close>

lemma pt_map_refines:
  assumes "pt_ok l r pt m" "2 \<le> card (free_frames l r m)" "vpn < 2 ^ 27" "ppn < 2 ^ 44" "flags < 2 ^ 8"
  shows "if pt_abs pt m vpn = None
    then \<exists>pt' m'. pt_map vpn ppn flags pt m = Some (pt', m') \<and> pt_ok l r pt' m' \<and>
      (\<forall>w<2 ^ 27. pt_abs pt' m' w = (if w = vpn then Some (ppn, flags OR PTE_V) else pt_abs pt m w))
    else pt_map vpn ppn flags pt m = None"
proof (cases "pt_abs pt m vpn = None")
  case True
  obtain pt' m' where r: "pt_map vpn ppn flags pt m = Some (pt', m')"
    using pt_map_total [OF assms(1,2) True] by blast
  from pt_map_abs(1,3) [OF assms(1) r assms(3-5)] r True show ?thesis by auto
next
  case False
  then show ?thesis using pt_map_None_mapped [OF assms(1,3-5)] by simp
qed

lemma pt_map_refines_witness:
  "\<exists>pt m pt' m'. pt_new boot_mem = Some (pt, m) \<and> pt_map 5 7 6 pt m = Some (pt', m') \<and>
     pt_abs pt' m' 5 = Some (7, 7) \<and> pt_abs pt' m' 6 = None"
proof -
  obtain pt m where b: "pt_new boot_mem = Some (pt, m)" "pt_ok 16 80 pt m"
    "pt_abs pt m = (\<lambda>_. None)" "card (free_frames 16 80 m) = 63" by (rule boot_pt)
  have "(6 :: nat) OR PTE_V = 7" by (simp add: PTE_V_def)
  with pt_map_refines [OF b(2), of 5 7 6] b show ?thesis by auto
qed

text \<open>\<open>PageTable::unmap\<close> on a well-formed table panics exactly at a page that is not
  mapped; otherwise it removes this page from the mapping and nothing else.\<close>

lemma pt_unmap_refines:
  assumes "pt_ok l r pt m" "vpn < 2 ^ 27"
  shows "case pt_unmap vpn pt m of
      None \<Rightarrow> pt_abs pt m vpn = None
    | Some m' \<Rightarrow> pt_abs pt m vpn \<noteq> None \<and> pt_ok l r pt m' \<and>
        (\<forall>w<2 ^ 27. pt_abs pt m' w = (if w = vpn then None else pt_abs pt m w))"
proof (cases "pt_unmap vpn pt m")
  case None
  then have "pt_abs pt m vpn = None" using pt_unmap_eq(1) [OF assms(1), of vpn] by simp
  with None show ?thesis by simp
next
  case (Some m')
  then have "pt_abs pt m vpn \<noteq> None" using pt_unmap_eq(1) [OF assms(1), of vpn] by auto
  with Some pt_unmap_eq(2,3) [OF assms(1) Some] assms(2) show ?thesis by simp
qed

lemma pt_unmap_refines_witness:
  "\<exists>pt m m'. pt_ok 16 80 pt m \<and> pt_abs pt m 5 = Some (7, 7) \<and> pt_unmap 5 pt m = Some m' \<and> pt_abs pt m' 5 = None"
proof -
  obtain pt0 m0 where b: "pt_ok 16 80 pt0 m0" "pt_abs pt0 m0 = (\<lambda>_. None)" "card (free_frames 16 80 m0) = 63"
    by (rule boot_pt)
  then obtain pt m where mp: "pt_map 5 7 6 pt0 m0 = Some (pt, m)"
    using pt_map_total [OF b(1), of 5 7 6] by auto
  have ok: "pt_ok 16 80 pt m" by (rule pt_map_abs(1) [OF b(1) mp]) simp_all
  have "(6 :: nat) OR PTE_V = 7" by (simp add: PTE_V_def)
  then have a: "pt_abs pt m 5 = Some (7, 7)" using pt_map_abs(3) [OF b(1) mp, of 5] by simp
  obtain m' where "pt_unmap 5 pt m = Some m'" "pt_abs pt m' 5 = None"
    using pt_unmap_refines [OF ok, of 5] a by (cases "pt_unmap 5 pt m") auto
  with ok a show ?thesis by blast
qed

text \<open>A page table entry holds what \<open>PageTableEntry::new\<close> was given: the frame and the
  flags are read back, and it fits in 64 bits.\<close>

lemma pte_round_trip:
  assumes "ppn < 2 ^ 44" "flags < 2 ^ 8"
  shows "pte_ppn (pte_new ppn flags) = ppn \<and> pte_flags (pte_new ppn flags) = flags \<and>
    pte_new ppn flags < 2 ^ 64 \<and> (pte_is_valid (pte_new ppn flags) \<longleftrightarrow> odd flags)"
  using assms by (simp add: pte_new_bits pte_is_valid_odd pte_ppn_div pte_flags_def take_bit_eq_mod
      mod_add_eq [symmetric])

lemma pte_round_trip_witness:
  "pte_ppn (pte_new 0x80200 0xf) = 0x80200 \<and> pte_flags (pte_new 0x80200 0xf) = 0xf \<and>
   pte_is_valid (pte_new 0x80200 0xf)"
  using pte_round_trip [of "0x80200" "0xf"] by simp

lemma from_token_root:
  assumes "pt_root_ppn pt < 2 ^ 44"
  shows "pt_root_ppn (pt_from_token (pt_token pt)) = pt_root_ppn pt"
proof -
  have "take_bit 44 (pt_token pt) = pt_root_ppn pt"
    using assms by (simp add: pt_token_def take_bit_nat_eq_self_iff push_bit_eq_mult)
  then show ?thesis
    using and_mask [of "pt_token pt" 44] assms by (simp add: pt_from_token_def take_bit_eq_mod)
qed

text \<open>\<open>PageTable::from_token\<close> of the token of a table translates every page as the table
  does: the token keeps the root.\<close>

lemma token_round_trip:
  assumes "pt_root_ppn pt < 2 ^ 44"
  shows "pt_translate (pt_from_token (pt_token pt)) vpn m = pt_translate pt vpn m \<and>
    pt_translate_va (pt_from_token (pt_token pt)) va m = pt_translate_va pt va m"
  by (simp add: pt_translate_def pt_translate_va_def pt_find_pte_def from_token_root [OF assms])

lemma token_round_trip_witness:
  "\<exists>pt m. pt_new boot_mem = Some (pt, m) \<and>
     pt_translate (pt_from_token (pt_token pt)) 5 m = pt_translate pt 5 m"
proof -
  obtain pt m where "pt_new boot_mem = Some (pt, m)" "pt_root_ppn pt < 2 ^ 44" by (rule boot_pt)
  with token_round_trip [of pt 5 m 0] show ?thesis by blast
qed

text \<open>C39. \<open>translate_va\<close> of an address in a mapped page is the physical address with the same
  offset in the frame. But it does not look at the valid bit of the leaf entry: once some page
  of a 2 MiB region is mapped, it also returns an address for every unmapped page of the region.\<close>

lemma translate_va_mapped_and_unmapped:
  assumes "pt_ok l r pt m" "pt_map vpn ppn flags pt m = Some (pt', m')"
    and "vpn < 2 ^ 27" "ppn < 2 ^ 44" "flags < 2 ^ 8" "va div 4096 < 2 ^ 27"
    and "take 2 (indexes (va div 4096)) = take 2 (indexes vpn)"
  shows "(va div 4096 = vpn \<longrightarrow> pt_translate_va pt' va m' = Some (ppn * 4096 + va mod 4096)) \<and>
    (pt_abs pt m (va div 4096) = None \<longrightarrow> pt_translate_va pt' va m' \<noteq> None)"
proof -
  note M = pt_map_abs(3) [OF assms(1-5)]
  have v: "pt_abs pt' m' vpn = Some (ppn, flags OR PTE_V)" using M [OF assms(3)] by simp
  then obtain p where "pt_walk m' (pt_root_ppn pt') (take 2 (indexes vpn)) = Some p"
    by (auto simp: pt_abs_walk bind_eq_Some_conv)
  then have "pt_translate_va pt' va m' \<noteq> None"
    using assms(7) indexes_bound [of 2 "va div 4096"]
    by (simp add: pt_translate_va_def pt_find_pte_def Let_def as_pn_by_floor_def)
  with pt_translate_va_abs [of pt' m' va ppn] v show ?thesis by auto
qed

lemma translate_va_witness:
  "\<exists>pt m. pt_abs pt m 6 = None \<and> pt_translate_va pt 0x5123 m = Some 0x7123 \<and> pt_translate_va pt 0x6000 m \<noteq> None"
proof -
  obtain pt0 m0 where b: "pt_ok 16 80 pt0 m0" "pt_abs pt0 m0 = (\<lambda>_. None)" "card (free_frames 16 80 m0) = 63"
    by (rule boot_pt)
  then obtain pt m where mp: "pt_map 5 7 6 pt0 m0 = Some (pt, m)"
    using pt_map_total [OF b(1), of 5 7 6] by auto
  have "pt_abs pt m 6 = None" using pt_map_abs(3) [OF b(1) mp, of 6] b(2) by simp
  moreover have "pt_translate_va pt 0x5123 m = Some 0x7123"
    using translate_va_mapped_and_unmapped [OF b(1) mp, of "0x5123"] by (simp add: take2_indexes)
  moreover have "pt_translate_va pt 0x6000 m \<noteq> None"
    using translate_va_mapped_and_unmapped [OF b(1) mp, of "0x6000"] b(2) by (simp add: take2_indexes)
  ultimately show ?thesis by blast
qed

end
