(* ===== verification/MemorySet.thy ===== *)
theory MemorySet
  imports PageTable
begin

unbundle bit_operations_syntax

text \<open>
  Address spaces: \<open>MapArea\<close> and \<open>MemorySet\<close> of \<open>kernel/src/mm/memory_set.rs\<close>.
  The linker symbols and the ELF parser (crate \<open>xmas_elf\<close>) are arguments. The state is the
  page table of the space together with physical memory. \<open>as_ok\<close> is the ownership
  invariant: a space owns its data frames and table pages, each of them exactly once, and all of
  them are out of the frame allocator, so that spaces with disjoint frames cannot disturb each
  other.
\<close>

section \<open>Areas\<close>

datatype map_type = Identical | Framed | Linear int

definition PERM_R :: nat where "PERM_R = 2"
definition PERM_W :: nat where "PERM_W = 4"
definition PERM_X :: nat where "PERM_X = 8"
definition PERM_U :: nat where "PERM_U = 16"

lemmas perm_defs = PERM_R_def PERM_W_def PERM_X_def PERM_U_def

record map_area =
  vpn_range :: simple_range
  map_type :: map_type
  map_perm :: nat

definition map_area_new :: "nat \<Rightarrow> nat \<Rightarrow> map_type \<Rightarrow> nat \<Rightarrow> map_area option" where
  "map_area_new start_va end_va ty perm = do {
     rg \<leftarrow> simple_range_new (as_pn_by_floor start_va) (as_pn_by_ceil end_va);
     Some \<lparr>vpn_range = rg, map_type = ty, map_perm = perm\<rparr>
   }"

definition map_area_clone :: "map_area \<Rightarrow> map_area option" where
  "map_area_clone a = do {
     rg \<leftarrow> simple_range_new (range_start (vpn_range a)) (range_end (vpn_range a));
     Some \<lparr>vpn_range = rg, map_type = map_type a, map_perm = map_perm a\<rparr>
   }"

definition map_one :: "map_area \<Rightarrow> nat \<Rightarrow> page_table \<times> kmem \<Rightarrow> (page_table \<times> kmem) option" where
  "map_one a vpn s = (case s of (pt, m) \<Rightarrow> do {
     (ppn, pt1, m1) \<leftarrow> (case map_type a of
         Identical \<Rightarrow> Some (vpn, pt, m)
       | Framed \<Rightarrow> (case frame_alloc m of
             (None, _) \<Rightarrow> None
           | (Some f, m1) \<Rightarrow> (case pt_insert vpn f pt of (old, pt1) \<Rightarrow> do {
               m2 \<leftarrow> drop_tracker old m1;
               Some (f, pt1, m2)
             }))
       | Linear pn_offset \<Rightarrow> do {
           assert_opt (vpn < 2 ^ 27);
           Some (nat ((int vpn + pn_offset) mod 2 ^ 64), pt, m)
         });
     pt_map vpn ppn (map_perm a) pt1 m1
   })"

definition unmap_one :: "map_area \<Rightarrow> nat \<Rightarrow> page_table \<times> kmem \<Rightarrow> (page_table \<times> kmem) option" where
  "unmap_one a vpn s = (case s of (pt, m) \<Rightarrow> do {
     (pt1, m1) \<leftarrow> (if map_type a = Framed
       then (case pt_remove vpn pt of (old, pt1) \<Rightarrow> do { m1 \<leftarrow> drop_tracker old m; Some (pt1, m1) })
       else Some (pt, m));
     m2 \<leftarrow> pt_unmap vpn pt1 m1;
     Some (pt1, m2)
   })"

definition area_map :: "map_area \<Rightarrow> page_table \<times> kmem \<Rightarrow> (page_table \<times> kmem) option" where
  "area_map a s = fold_opt (map_one a) (range_list (vpn_range a)) s"

definition area_unmap :: "map_area \<Rightarrow> page_table \<times> kmem \<Rightarrow> (page_table \<times> kmem) option" where
  "area_unmap a s = fold_opt (unmap_one a) (range_list (vpn_range a)) s"

text \<open>\<open>data.chunks(n)\<close> for a positive \<open>n\<close>.\<close>

function chunks :: "nat \<Rightarrow> 'a list \<Rightarrow> 'a list list" where
  "chunks n xs = (if xs = [] \<or> n = 0 then [] else take n xs # chunks n (drop n xs))"
  by pat_completeness auto
termination
  by (relation "measure (\<lambda>(n, xs). length xs)") auto

declare chunks.simps [simp del]

definition copy_chunk :: "page_table \<Rightarrow> u8 list \<Rightarrow> nat \<times> kmem \<Rightarrow> (nat \<times> kmem) option" where
  "copy_chunk pt src s = (case s of (current_vpn, m) \<Rightarrow> do {
     e \<leftarrow> pt_translate pt current_vpn m;
     let ppn = pte_ppn e;
     let dst = km_frames m ppn;
     let copy_len = min (length src) (length dst);
     Some (current_vpn + 1, m\<lparr>km_frames := (km_frames m)(ppn := splice 0 (take copy_len src) dst)\<rparr>)
   })"

definition copy_data :: "map_area \<Rightarrow> page_table \<Rightarrow> u8 list \<Rightarrow> kmem \<Rightarrow> kmem option" where
  "copy_data a pt data m = do {
     assert_opt (map_type a = Framed);
     if data = [] then Some m
     else do {
       let chunk_size = min PAGE_SIZE (length data);
       (_, m') \<leftarrow> fold_opt (copy_chunk pt) (chunks chunk_size data) (range_start (vpn_range a), m);
       Some m'
     }
   }"

section \<open>Memory sets\<close>

record memory_set =
  ms_page_table :: page_table
  ms_areas :: "map_area list"

definition ms_new_bare :: "kmem \<Rightarrow> (memory_set \<times> kmem) option" where
  "ms_new_bare m = do {
     (pt, m') \<leftarrow> pt_new m;
     Some (\<lparr>ms_page_table = pt, ms_areas = []\<rparr>, m')
   }"

definition ms_translate :: "memory_set \<Rightarrow> nat \<Rightarrow> kmem \<Rightarrow> nat option" where
  "ms_translate ms vpn m = pt_translate (ms_page_table ms) vpn m"

definition ms_token :: "memory_set \<Rightarrow> nat" where
  "ms_token ms = pt_token (ms_page_table ms)"

definition ms_push :: "map_area \<Rightarrow> u8 list option \<Rightarrow> memory_set \<times> kmem \<Rightarrow> (memory_set \<times> kmem) option" where
  "ms_push a data s = (case s of (ms, m) \<Rightarrow> do {
     (pt, m1) \<leftarrow> area_map a (ms_page_table ms, m);
     m2 \<leftarrow> (case data of None \<Rightarrow> Some m1 | Some d \<Rightarrow> copy_data a pt d m1);
     Some (ms\<lparr>ms_page_table := pt, ms_areas := ms_areas ms @ [a]\<rparr>, m2)
   })"

definition ms_insert_framed_area ::
  "nat \<Rightarrow> nat \<Rightarrow> nat \<Rightarrow> memory_set \<times> kmem \<Rightarrow> (memory_set \<times> kmem) option" where
  "ms_insert_framed_area start_va end_va perm s = do {
     a \<leftarrow> map_area_new start_va end_va Framed perm;
     ms_push a None s
   }"

definition ms_remove_area_with_start_vpn ::
  "nat \<Rightarrow> memory_set \<times> kmem \<Rightarrow> (memory_set \<times> kmem) option" where
  "ms_remove_area_with_start_vpn start_vpn s = (case s of (ms, m) \<Rightarrow>
     (case position (\<lambda>a. range_start (vpn_range a) = start_vpn) (ms_areas ms) of
        None \<Rightarrow> Some (ms, m)
      | Some idx \<Rightarrow> do {
          (pt, m') \<leftarrow> area_unmap (ms_areas ms ! idx) (ms_page_table ms, m);
          Some (ms\<lparr>ms_page_table := pt,
                 ms_areas := take idx (ms_areas ms) @ drop (Suc idx) (ms_areas ms)\<rparr>, m')
        }))"

definition ms_recycle_data_pages :: "memory_set \<Rightarrow> memory_set" where
  "ms_recycle_data_pages ms = ms\<lparr>ms_areas := []\<rparr>"

definition ms_map_trampoline :: "nat \<Rightarrow> memory_set \<times> kmem \<Rightarrow> (memory_set \<times> kmem) option" where
  "ms_map_trampoline stramp s = (case s of (ms, m) \<Rightarrow> do {
     vpn \<leftarrow> pn_from_addr (virt_addr_from TRAMPOLINE);
     ppn \<leftarrow> pn_from_addr (phys_addr_from stramp);
     (pt, m') \<leftarrow> pt_map vpn ppn (PTE_R OR PTE_X) (ms_page_table ms) m;
     Some (ms\<lparr>ms_page_table := pt\<rparr>, m')
   })"

text \<open>\<open>clone\<close>: the pages of one area are copied from the old space to the new one.\<close>

definition clone_page :: "memory_set \<Rightarrow> memory_set \<Rightarrow> nat \<Rightarrow> kmem \<Rightarrow> kmem option" where
  "clone_page src dst vpn m = do {
     se \<leftarrow> ms_translate src vpn m;
     de \<leftarrow> ms_translate dst vpn m;
     Some (m\<lparr>km_frames := (km_frames m)(pte_ppn de := km_frames m (pte_ppn se))\<rparr>)
   }"

definition clone_area :: "memory_set \<Rightarrow> map_area \<Rightarrow> memory_set \<times> kmem \<Rightarrow> (memory_set \<times> kmem) option" where
  "clone_area src a s = do {
     new_area \<leftarrow> map_area_clone a;
     (dst, m1) \<leftarrow> ms_push new_area None s;
     m2 \<leftarrow> fold_opt (clone_page src dst) (range_list (vpn_range a)) m1;
     Some (dst, m2)
   }"

definition ms_clone :: "nat \<Rightarrow> memory_set \<Rightarrow> kmem \<Rightarrow> (memory_set \<times> kmem) option" where
  "ms_clone stramp src m = do {
     s0 \<leftarrow> ms_new_bare m;
     s1 \<leftarrow> ms_map_trampoline stramp s0;
     fold_opt (clone_area src) (ms_areas src) s1
   }"

text \<open>The sections of the kernel image, as the linker script defines them, and the board.\<close>

record kernel_syms =
  stext :: nat
  etext :: nat
  srodata :: nat
  erodata :: nat
  sdata :: nat
  edata :: nat
  sbss_with_stack :: nat
  ebss :: nat
  ekernel :: nat
  strampoline :: nat

definition push_identical :: "nat \<Rightarrow> nat \<Rightarrow> nat \<Rightarrow> memory_set \<times> kmem \<Rightarrow> (memory_set \<times> kmem) option" where
  "push_identical start_usize end_usize perm s = do {
     a \<leftarrow> map_area_new (virt_addr_from start_usize) (virt_addr_from end_usize) Identical perm;
     ms_push a None s
   }"

definition ms_new_kernel :: "kernel_syms \<Rightarrow> nat \<Rightarrow> (nat \<times> nat) list \<Rightarrow> kmem \<Rightarrow> (memory_set \<times> kmem) option" where
  "ms_new_kernel k memory_end mmio m = do {
     s \<leftarrow> ms_new_bare m;
     s \<leftarrow> ms_map_trampoline (strampoline k) s;
     s \<leftarrow> push_identical (stext k) (etext k) (PERM_R OR PERM_X) s;
     s \<leftarrow> push_identical (srodata k) (erodata k) PERM_R s;
     s \<leftarrow> push_identical (sdata k) (edata k) (PERM_R OR PERM_W) s;
     s \<leftarrow> push_identical (sbss_with_stack k) (ebss k) (PERM_R OR PERM_W) s;
     s \<leftarrow> push_identical (ekernel k) memory_end (PERM_R OR PERM_W) s;
     fold_opt (\<lambda>(base, size). push_identical base (take_bit 64 (base + size)) (PERM_R OR PERM_W)) mmio s
   }"

text \<open>The part of a parsed ELF file the loader reads; a header that does not parse, and a
  header whose type does not, are \<open>None\<close>.\<close>

record elf_ph =
  ph_is_load :: "bool option"
  ph_virtual_addr :: nat
  ph_mem_size :: nat
  ph_offset :: nat
  ph_file_size :: nat
  ph_read :: bool
  ph_write :: bool
  ph_execute :: bool

record elf_file =
  elf_input :: "u8 list"
  elf_magic :: "u8 list"
  elf_phs :: "elf_ph option list"
  elf_entry :: nat

definition elf_perm :: "elf_ph \<Rightarrow> nat" where
  "elf_perm ph = (let p = PERM_U;
     p = (if ph_read ph then p OR PERM_R else p);
     p = (if ph_write ph then p OR PERM_W else p)
   in if ph_execute ph then p OR PERM_X else p)"

definition slice_opt :: "nat \<Rightarrow> nat \<Rightarrow> 'a list \<Rightarrow> 'a list option" where
  "slice_opt i j xs = (if i \<le> j \<and> j \<le> length xs then Some (take (j - i) (drop i xs)) else None)"

definition load_ph :: "u8 list \<Rightarrow> elf_ph option \<Rightarrow> nat \<times> memory_set \<times> kmem \<Rightarrow>
    (nat \<times> memory_set \<times> kmem) option" where
  "load_ph input phr st = (case st of (max_end_vpn, s) \<Rightarrow> do {
     ph \<leftarrow> phr;
     load \<leftarrow> ph_is_load ph;
     if \<not> load then Some (max_end_vpn, s)
     else do {
       let start_va = virt_addr_from (ph_virtual_addr ph);
       let end_va = virt_addr_from (take_bit 64 (ph_virtual_addr ph + ph_mem_size ph));
       a \<leftarrow> map_area_new start_va end_va Framed (elf_perm ph);
       d \<leftarrow> slice_opt (ph_offset ph) (take_bit 64 (ph_offset ph + ph_file_size ph)) input;
       s' \<leftarrow> ms_push a (Some d) s;
       Some (range_end (vpn_range a), s')
     }
   })"

definition ms_from_elf :: "(u8 list \<Rightarrow> elf_file option) \<Rightarrow> nat \<Rightarrow> u8 list \<Rightarrow> kmem \<Rightarrow>
    (memory_set \<times> nat \<times> nat \<times> kmem) option" where
  "ms_from_elf elf_new stramp elf_data m = do {
     s \<leftarrow> ms_new_bare m;
     s \<leftarrow> ms_map_trampoline stramp s;
     elf \<leftarrow> elf_new elf_data;
     assert_opt (elf_magic elf = [0x7f, 0x45, 0x4c, 0x46]);
     (max_end_vpn, ms, m') \<leftarrow> fold_opt (load_ph (elf_input elf)) (elf_phs elf) (0, s);
     let max_end_va = addr_from_pn max_end_vpn;
     let user_stack_base = take_bit 64 (virt_addr_into_usize max_end_va + PAGE_SIZE);
     Some (ms, user_stack_base, elf_entry elf, m')
   }"


section \<open>Frames a space owns\<close>

definition pt_owned :: "page_table \<Rightarrow> nat list" where
  "pt_owned pt = map snd (pt_data_frames pt) @ pt_metadata_frames pt"

definition as_ok :: "nat \<Rightarrow> nat \<Rightarrow> page_table \<Rightarrow> kmem \<Rightarrow> bool" where
  "as_ok l r pt m \<longleftrightarrow> pt_ok l r pt m \<and> btree_ok (pt_data_frames pt) \<and> distinct (pt_owned pt) \<and>
     (\<forall>f\<in>set (pt_owned pt). f \<in> fa_live l (km_alloc m)) \<and>
     (\<forall>(v, f)\<in>set (pt_data_frames pt). v < 2 ^ 27 \<and> (\<exists>fl. pt_abs pt m v = Some (f, fl)) \<and>
        length (km_frames m f) = 4096)"

text \<open>The table depends on memory through its own pages only.\<close>

lemma pt_frames_cong:
  assumes "pt_wf pt m" "\<forall>p\<in>set (pt_metadata_frames pt). km_frames m' p = km_frames m p"
  shows "length xs \<le> 2 \<Longrightarrow> pt_walk m' (pt_root_ppn pt) xs = pt_walk m (pt_root_ppn pt) xs"
    and "pt_wf pt m'" and "pt_abs pt m' = pt_abs pt m"
proof -
  let ?r = "pt_root_ppn pt"
  have arr: "as_pte_array m' p = as_pte_array m p" if "pt_walk m ?r xs = Some p" "length xs \<le> 2" for xs p
    using assms(2) pt_wf_owned [OF assms(1) that] as_pte_array_frames_cong by metis
  have w: "pt_walk m' ?r xs = pt_walk m ?r xs" if "length xs \<le> 2" for xs
    using that
  proof (induction xs rule: rev_induct)
    case (snoc x xs)
    then show ?case using arr [of xs] by (cases "pt_walk m ?r xs") (simp_all add: pt_walk_snoc)
  qed simp
  show "length xs \<le> 2 \<Longrightarrow> pt_walk m' ?r xs = pt_walk m ?r xs" by (rule w)
  show "pt_wf pt m'" using assms(1) unfolding pt_wf_def by (simp add: w cong: conj_cong)
  show "pt_abs pt m' = pt_abs pt m"
  proof
    fix v
    show "pt_abs pt m' v = pt_abs pt m v"
      using arr [of "take 2 (indexes v)"] w [of "take 2 (indexes v)"]
      by (cases "pt_walk m ?r (take 2 (indexes v))") (simp_all add: pt_abs_walk)
  qed
qed

lemma pt_ok_cong:
  assumes "pt_ok l r pt m" "\<forall>p\<in>set (pt_metadata_frames pt). km_frames m' p = km_frames m p"
    "fa_inv l r (km_alloc m')" "\<forall>f\<in>set (pt_metadata_frames pt). f \<in> fa_live l (km_alloc m')"
  shows "pt_ok l r pt m'" "pt_abs pt m' = pt_abs pt m"
  using pt_frames_cong [of pt m m'] assms by (simp_all add: pt_ok_def)

text \<open>The data frames of the record play no part in the walk.\<close>

lemma pt_data_frames_irrelevant [simp]:
  "pt_ok l r (pt\<lparr>pt_data_frames := d\<rparr>) m \<longleftrightarrow> pt_ok l r pt m"
  "pt_abs (pt\<lparr>pt_data_frames := d\<rparr>) m = pt_abs pt m"
  by (auto simp: pt_ok_def pt_wf_def pt_abs_walk fun_eq_iff)

text \<open>How a space grows: what it gains was not in use, and no frame in use changes except its
  own table pages.\<close>

definition as_grown :: "nat \<Rightarrow> nat \<Rightarrow> page_table \<Rightarrow> kmem \<Rightarrow> page_table \<Rightarrow> kmem \<Rightarrow> bool" where
  "as_grown l r pt m pt' m' \<longleftrightarrow> as_ok l r pt' m' \<and> pt_root_ppn pt' = pt_root_ppn pt \<and>
     set (pt_metadata_frames pt) \<subseteq> set (pt_metadata_frames pt') \<and>
     set (pt_owned pt) \<subseteq> set (pt_owned pt') \<and>
     fa_live l (km_alloc m') = fa_live l (km_alloc m) \<union> set (pt_owned pt') \<and>
     (\<forall>f\<in>set (pt_owned pt'). f \<in> set (pt_owned pt) \<or> f \<notin> fa_live l (km_alloc m)) \<and>
     (\<forall>f\<in>set (pt_metadata_frames pt'). f \<in> set (pt_metadata_frames pt) \<or> f \<notin> fa_live l (km_alloc m)) \<and>
     (\<forall>p\<in>fa_live l (km_alloc m). p \<notin> set (pt_metadata_frames pt) \<longrightarrow> km_frames m' p = km_frames m p)"

lemma as_grown_refl: "as_ok l r pt m \<Longrightarrow> as_grown l r pt m pt m"
  by (auto simp: as_grown_def as_ok_def)

lemma as_grown_trans:
  assumes "as_grown l r pt m pt1 m1" "as_grown l r pt1 m1 pt2 m2"
  shows "as_grown l r pt m pt2 m2"
proof -
  have "km_frames m2 p = km_frames m p"
    if "p \<in> fa_live l (km_alloc m)" "p \<notin> set (pt_metadata_frames pt)" for p
  proof -
    have "p \<in> fa_live l (km_alloc m1)" "p \<notin> set (pt_metadata_frames pt1)"
      using that assms(1) by (auto simp: as_grown_def)
    with that assms show ?thesis by (simp add: as_grown_def)
  qed
  with assms show ?thesis unfolding as_grown_def by (auto simp: subset_iff)
qed


section \<open>Mapping one framed page\<close>

lemma frame_dealloc_Some:
  assumes "frame_dealloc g m = Some m'" "fa_inv l r (km_alloc m)" "g \<in> fa_live l (km_alloc m)"
  shows "fa_inv l r (km_alloc m')" "fa_live l (km_alloc m') = fa_live l (km_alloc m) - {g}"
    "km_frames m' = km_frames m"
proof -
  obtain a where a: "fa_dealloc g (km_alloc m) = Some a" and m': "m' = m\<lparr>km_alloc := a\<rparr>"
    using assms(1) by (auto simp: frame_dealloc_def bind_eq_Some_conv)
  show "fa_inv l r (km_alloc m')" using frm_alloc.put_inv [OF assms(2,3) a] by (simp add: m')
  show "fa_live l (km_alloc m') = fa_live l (km_alloc m) - {g}"
    using frm_alloc.put_live [OF assms(2) a] by (simp add: m')
  show "km_frames m' = km_frames m" by (simp add: m')
qed

lemma as_ok_pt_ok: "as_ok l r pt m \<Longrightarrow> pt_ok l r pt m"
  by (simp add: as_ok_def)

lemma as_ok_fa_inv: "as_ok l r pt m \<Longrightarrow> fa_inv l r (km_alloc m)"
  by (simp add: as_ok_def pt_ok_def)

lemma as_ok_data:
  assumes "as_ok l r pt m" "map_of (pt_data_frames pt) v = Some f"
  shows "f \<in> fa_live l (km_alloc m)" "f \<notin> set (pt_metadata_frames pt)"
    "v < 2 ^ 27" "\<exists>fl. pt_abs pt m v = Some (f, fl)" "length (km_frames m f) = 4096"
proof -
  have vf: "(v, f) \<in> set (pt_data_frames pt)" by (rule map_of_SomeD [OF assms(2)])
  then have "f \<in> set (map snd (pt_data_frames pt))" by force
  then show "f \<in> fa_live l (km_alloc m)" "f \<notin> set (pt_metadata_frames pt)"
    using assms(1) by (auto simp: as_ok_def pt_owned_def)
  show "v < 2 ^ 27" "\<exists>fl. pt_abs pt m v = Some (f, fl)" "length (km_frames m f) = 4096"
    using assms(1) vf by (auto simp: as_ok_def)
qed

text \<open>The state in which \<open>map_one\<close> calls \<open>PageTable::map\<close>: a page that had a data
  frame is still mapped, so the call panics; hence a successful call found no old frame.\<close>

lemma map_one_framed_fresh:
  assumes ok: "as_ok l r pt m" and ty: "map_type a = Framed" and p: "map_perm a < 2 ^ 8"
    and v: "vpn < 2 ^ 27" and run: "map_one a vpn (pt, m) = Some s'"
  obtains f m1 where "frame_alloc m = (Some f, m1)" "map_of (pt_data_frames pt) vpn = None"
    "pt_map vpn f (map_perm a) (pt\<lparr>pt_data_frames := btree_insert vpn f (pt_data_frames pt)\<rparr>) m1 = Some s'"
proof -
  obtain f m1 where al: "frame_alloc m = (Some f, m1)"
    using run ty by (auto simp: map_one_def split: prod.splits option.splits)
  let ?pt1 = "pt\<lparr>pt_data_frames := btree_insert vpn f (pt_data_frames pt)\<rparr>"
  obtain m2 where dr: "drop_tracker (map_of (pt_data_frames pt) vpn) m1 = Some m2"
    and mp: "pt_map vpn f (map_perm a) ?pt1 m2 = Some s'"
    using run ty al by (auto simp: map_one_def pt_insert_def bind_eq_Some_conv)
  note fa = frame_alloc_Some [OF al as_ok_fa_inv [OF ok]]
  have "map_of (pt_data_frames pt) vpn = None"
  proof (rule ccontr)
    assume "map_of (pt_data_frames pt) vpn \<noteq> None"
    then obtain g where g: "map_of (pt_data_frames pt) vpn = Some g" by blast
    note d = as_ok_data [OF ok g]
    have de: "frame_dealloc g m1 = Some m2" using dr g by (simp add: drop_tracker_def)
    have "g \<in> fa_live l (km_alloc m1)" using d(1) fa(2) by simp
    note de' = frame_dealloc_Some [OF de fa(1) this]
    have own: "\<forall>h\<in>set (pt_metadata_frames pt). h \<in> fa_live l (km_alloc m)"
      using ok by (simp add: as_ok_def pt_owned_def)
    have "\<forall>h\<in>set (pt_metadata_frames pt). km_frames m2 h = km_frames m h"
      "\<forall>h\<in>set (pt_metadata_frames pt). h \<in> fa_live l (km_alloc m2)"
      using own fa(2,3,7) de'(2,3) d(2) by auto
    note c = pt_ok_cong [OF as_ok_pt_ok [OF ok] this(1) de'(1) this(2)]
    have "pt_map vpn f (map_perm a) ?pt1 m2 = None"
      by (rule pt_map_None_mapped [of l r]) (use c v p fa(6) d(4) in auto)
    with mp show False by simp
  qed
  with that al dr mp show ?thesis by (simp add: drop_tracker_def)
qed

lemma snd_set_btree_insert:
  "map_of d v = None \<Longrightarrow> btree_ok d \<Longrightarrow> set (btree_insert v f d) = insert (v, f) (set d)"
  by (induction v f d rule: btree_insert.induct) (auto simp: btree_ok_Cons split: if_splits)

lemma distinct_snd_btree_insert:
  "map_of d v = None \<Longrightarrow> btree_ok d \<Longrightarrow>
   distinct (map snd (btree_insert v f d)) \<longleftrightarrow> f \<notin> snd ` set d \<and> distinct (map snd d)"
proof (induction v f d rule: btree_insert.induct)
  case (2 k v k' v' xs)
  then show ?case by (auto simp: btree_ok_Cons snd_set_btree_insert split: if_splits)
qed simp

lemma as_grownI:
  assumes ok: "as_ok l r pt m" and pt': "pt_ok l r pt' m'" "pt_root_ppn pt' = pt_root_ppn pt"
    and d': "pt_data_frames pt' = btree_insert vpn f (pt_data_frames pt)"
      "map_of (pt_data_frames pt) vpn = None" "vpn < 2 ^ 27"
    and f: "f \<notin> fa_live l (km_alloc m)" "f \<notin> set (pt_metadata_frames pt')"
    and meta: "set (pt_metadata_frames pt) \<subseteq> set (pt_metadata_frames pt')"
      "\<And>h. h \<in> set (pt_metadata_frames pt') \<Longrightarrow> h \<in> set (pt_metadata_frames pt) \<or> h \<notin> fa_live l (km_alloc m)"
    and live: "fa_live l (km_alloc m') = insert f (fa_live l (km_alloc m)) \<union> set (pt_metadata_frames pt')"
    and abs': "\<And>w. w < 2 ^ 27 \<Longrightarrow> pt_abs pt' m' w = (if w = vpn then Some (f, fl) else pt_abs pt m w)"
    and keep: "\<And>h. h \<in> fa_live l (km_alloc m) \<Longrightarrow> h \<notin> set (pt_metadata_frames pt) \<Longrightarrow>
      km_frames m' h = km_frames m h"
    and len: "length (km_frames m' f) = 4096"
  shows "as_grown l r pt m pt' m'"
proof -
  let ?d = "pt_data_frames pt"
  have bt: "btree_ok ?d" and dist: "distinct (pt_owned pt)"
    and own: "\<And>h. h \<in> set (pt_owned pt) \<Longrightarrow> h \<in> fa_live l (km_alloc m)"
    using ok by (simp_all add: as_ok_def)
  have sd: "set (btree_insert vpn f ?d) = insert (vpn, f) (set ?d)"
    by (rule snd_set_btree_insert [OF d'(2) bt])
  have own': "set (pt_owned pt') = insert f (snd ` set ?d) \<union> set (pt_metadata_frames pt')"
    by (simp add: pt_owned_def d'(1) sd)
  have dm: "snd x \<in> fa_live l (km_alloc m)" "snd x \<notin> set (pt_metadata_frames pt)" if "x \<in> set ?d" for x
    using that own dist by (auto simp: pt_owned_def)
  have dm': "snd x \<notin> set (pt_metadata_frames pt')" if "x \<in> set ?d" for x
    using dm [OF that] meta(2) by blast
  have "distinct (pt_owned pt')"
    using distinct_snd_btree_insert [OF d'(2) bt, of f] dist dm(1) dm' f pt'(1)
    by (auto simp: pt_owned_def d'(1) sd pt_ok_def)
  moreover have "w < 2 ^ 27 \<and> (\<exists>fl. pt_abs pt' m' w = Some (g, fl)) \<and> length (km_frames m' g) = 4096"
    if "(w, g) \<in> insert (vpn, f) (set ?d)" for w g
  proof (cases "(w, g) \<in> set ?d")
    case True
    then have "w \<noteq> vpn" using d'(2) by (force simp: map_of_eq_None_iff)
    moreover have "w < 2 ^ 27 \<and> (\<exists>fl. pt_abs pt m w = Some (g, fl)) \<and> length (km_frames m g) = 4096"
      using ok True by (auto simp: as_ok_def)
    ultimately show ?thesis using abs' [of w] keep [of g] dm [OF True] by auto
  next
    case False
    then show ?thesis using that abs' [OF d'(3)] len d'(3) by auto
  qed
  moreover have "h \<in> fa_live l (km_alloc m')" if "h \<in> set (pt_owned pt')" for h
    using that own' live dm by auto
  ultimately have "as_ok l r pt' m'" using pt'(1) bt by (auto simp: as_ok_def d'(1) sd)
  then show ?thesis
    using pt'(2) meta live keep dm f(1) by (auto simp: as_grown_def pt_owned_def d'(1) sd)
qed

lemma map_one_framed:
  assumes ok: "as_ok l r pt m" and ty: "map_type a = Framed" and p: "map_perm a < 2 ^ 8"
    and v: "vpn < 2 ^ 27" and run: "map_one a vpn (pt, m) = Some (pt', m')"
  obtains f where "as_grown l r pt m pt' m'" "f \<notin> fa_live l (km_alloc m)" "f < 2 ^ 44"
    "pt_abs pt m vpn = None" "km_frames m' f = replicate 4096 0"
    "\<And>w. w < 2 ^ 27 \<Longrightarrow> pt_abs pt' m' w = (if w = vpn then Some (f, map_perm a OR PTE_V) else pt_abs pt m w)"
    "map_of (pt_data_frames pt') = (map_of (pt_data_frames pt))(vpn \<mapsto> f)"
proof -
  let ?d = "pt_data_frames pt"
  obtain f m1 where al: "frame_alloc m = (Some f, m1)" and none: "map_of ?d vpn = None"
    and mp: "pt_map vpn f (map_perm a) (pt\<lparr>pt_data_frames := btree_insert vpn f ?d\<rparr>) m1 = Some (pt', m')"
    by (rule map_one_framed_fresh [OF ok ty p v run])
  note fa = frame_alloc_Some [OF al as_ok_fa_inv [OF ok]]
  have bt: "btree_ok ?d" and own: "\<And>h. h \<in> set (pt_metadata_frames pt) \<Longrightarrow> h \<in> fa_live l (km_alloc m)"
    using ok by (simp_all add: as_ok_def pt_owned_def)
  have "\<forall>h\<in>set (pt_metadata_frames pt). km_frames m1 h = km_frames m h"
    "\<forall>h\<in>set (pt_metadata_frames pt). h \<in> fa_live l (km_alloc m1)"
    using own fa(2,3,7) by auto
  note c = pt_ok_cong [OF as_ok_pt_ok [OF ok] this(1) fa(1) this(2)]
  have ok1: "pt_ok l r (pt\<lparr>pt_data_frames := btree_insert vpn f ?d\<rparr>) m1" using c(1) by simp
  note M = pt_map_abs [OF ok1 mp v fa(6) p]
  have new: "h \<in> set (pt_metadata_frames pt) \<or> h \<notin> fa_live l (km_alloc m) \<and> h \<noteq> f"
    if "h \<in> set (pt_metadata_frames pt')" for h
    using M(9) [OF that] fa(2) by auto
  have fm: "f \<notin> set (pt_metadata_frames pt')" using new [of f] own fa(3) by blast
  have abs': "pt_abs pt' m' w = (if w = vpn then Some (f, map_perm a OR PTE_V) else pt_abs pt m w)"
    if "w < 2 ^ 27" for w using M(3) [OF that] c(2) by simp
  have zero: "km_frames m' f = replicate 4096 0" using M(7) [OF fm] fa(7) by simp
  have keep: "km_frames m' h = km_frames m h"
    if "h \<in> fa_live l (km_alloc m)" "h \<notin> set (pt_metadata_frames pt)" for h
  proof -
    have "h \<notin> set (pt_metadata_frames pt')" "h \<noteq> f" using that new [of h] fa(3) by blast+
    then show ?thesis using M(7) [of h] fa(7) by simp
  qed
  have "as_grown l r pt m pt' m'"
    by (rule as_grownI [OF ok M(1) _ _ none v fa(3) fm _ _ _ abs' keep])
      (use M(4,5,6,8) new fa(2) zero in auto)
  then show ?thesis
    using that [OF _ fa(3,6) _ zero abs'] M(2) c(2) bt M(5) by simp
qed


section \<open>Mapping an area of frames\<close>

text \<open>The pages \<open>vs\<close> of a space are fresh: own, distinct, cleared frames with the
  permissions \<open>perm\<close>; everything else of the space is as before.\<close>

definition framed_pages ::
  "nat \<Rightarrow> nat list \<Rightarrow> nat \<Rightarrow> page_table \<Rightarrow> kmem \<Rightarrow> page_table \<Rightarrow> kmem \<Rightarrow> bool" where
  "framed_pages l vs perm pt m pt' m' \<longleftrightarrow> distinct vs \<and>
     (\<forall>v\<in>set vs. pt_abs pt m v = None \<and> (\<exists>f. pt_abs pt' m' v = Some (f, perm OR PTE_V) \<and>
        map_of (pt_data_frames pt') v = Some f \<and> f \<notin> fa_live l (km_alloc m) \<and>
        km_frames m' f = replicate 4096 0)) \<and>
     (\<forall>w<2 ^ 27. w \<notin> set vs \<longrightarrow> pt_abs pt' m' w = pt_abs pt m w \<and>
        map_of (pt_data_frames pt') w = map_of (pt_data_frames pt) w)"

lemma map_pages_framed:
  "as_ok l r pt m \<Longrightarrow> map_type a = Framed \<Longrightarrow> map_perm a < 2 ^ 8 \<Longrightarrow> \<forall>v\<in>set vs. v < 2 ^ 27 \<Longrightarrow>
   fold_opt (map_one a) vs (pt, m) = Some (pt', m') \<Longrightarrow>
   as_grown l r pt m pt' m' \<and> framed_pages l vs (map_perm a) pt m pt' m'"
proof (induction vs arbitrary: pt m)
  case Nil
  then show ?case using as_grown_refl by (simp add: framed_pages_def)
next
  case (Cons v vs)
  obtain pt1 m1 where one: "map_one a v (pt, m) = Some (pt1, m1)"
    and run: "fold_opt (map_one a) vs (pt1, m1) = Some (pt', m')"
    using Cons.prems(5) by (auto simp: bind_eq_Some_conv)
  have v: "v < 2 ^ 27" using Cons.prems(4) by simp
  obtain f where g1: "as_grown l r pt m pt1 m1" and f: "f \<notin> fa_live l (km_alloc m)"
    and un: "pt_abs pt m v = None" and z: "km_frames m1 f = replicate 4096 0"
    and abs1: "\<And>w. w < 2 ^ 27 \<Longrightarrow> pt_abs pt1 m1 w = (if w = v then Some (f, map_perm a OR PTE_V) else pt_abs pt m w)"
    and d1: "map_of (pt_data_frames pt1) = (map_of (pt_data_frames pt))(v \<mapsto> f)"
    by (rule map_one_framed [OF Cons.prems(1-3) v one]) (rule that; assumption)
  have ok1: "as_ok l r pt1 m1" using g1 by (simp add: as_grown_def)
  have ih: "as_grown l r pt1 m1 pt' m'" "framed_pages l vs (map_perm a) pt1 m1 pt' m'"
    using Cons.IH [OF ok1 Cons.prems(2,3) _ run] Cons.prems(4) by simp_all
  have vn: "v \<notin> set vs" using ih(2) abs1 [OF v] by (auto simp: framed_pages_def)
  note df = as_ok_data [OF ok1, of v f]
  have f': "km_frames m' f = replicate 4096 0"
    using ih(1) df(1,2) d1 z by (simp add: as_grown_def)
  have sub: "h \<notin> fa_live l (km_alloc m)" if "h \<notin> fa_live l (km_alloc m1)" for h
    using that g1 by (auto simp: as_grown_def)
  have neq: "u \<noteq> v" if "u \<in> set vs" for u using that vn by blast
  have "framed_pages l (v # vs) (map_perm a) pt m pt' m'"
    unfolding framed_pages_def
  proof (intro conjI)
    show "distinct (v # vs)" using ih(2) vn by (simp add: framed_pages_def)
    show "\<forall>u\<in>set (v # vs). pt_abs pt m u = None \<and> (\<exists>f. pt_abs pt' m' u = Some (f, map_perm a OR PTE_V) \<and>
        map_of (pt_data_frames pt') u = Some f \<and> f \<notin> fa_live l (km_alloc m) \<and>
        km_frames m' f = replicate 4096 0)"
    proof
      fix u assume u: "u \<in> set (v # vs)"
      show "pt_abs pt m u = None \<and> (\<exists>f. pt_abs pt' m' u = Some (f, map_perm a OR PTE_V) \<and>
        map_of (pt_data_frames pt') u = Some f \<and> f \<notin> fa_live l (km_alloc m) \<and>
        km_frames m' f = replicate 4096 0)"
      proof (cases "u = v")
        case True
        then show ?thesis using un ih(2) vn v abs1 [OF v] d1 f f' by (simp add: framed_pages_def)
      next
        case False
        then have "u \<in> set vs" "u < 2 ^ 27" using u Cons.prems(4) by auto
        with ih(2) abs1 [of u] False sub show ?thesis unfolding framed_pages_def by force
      qed
    qed
    show "\<forall>w<2 ^ 27. w \<notin> set (v # vs) \<longrightarrow> pt_abs pt' m' w = pt_abs pt m w \<and>
        map_of (pt_data_frames pt') w = map_of (pt_data_frames pt) w"
      using ih(2) abs1 d1 by (simp add: framed_pages_def)
  qed
  with as_grown_trans [OF g1 ih(1)] show ?case by simp
qed

text \<open>Three frames per page, one for the data and at most two for the table, are enough.\<close>

lemma map_one_total:
  assumes ok: "as_ok l r pt m" and ty: "map_type a = Framed"
    and free: "3 \<le> card (free_frames l r m)" and un: "pt_abs pt m vpn = None"
  shows "\<exists>s'. map_one a vpn (pt, m) = Some s' \<and> card (free_frames l r m) \<le> card (free_frames l r (snd s')) + 3"
proof -
  have "0 < card (free_frames l r m)" using free by simp
  then obtain f m1 where al: "frame_alloc m = (Some f, m1)"
    by (rule frame_alloc_free [OF as_ok_fa_inv [OF ok]])
  note fa = frame_alloc_Some [OF al as_ok_fa_inv [OF ok]]
  have c1: "card (free_frames l r m) = card (free_frames l r m1) + 1"
    by (rule frame_alloc_card [OF as_ok_fa_inv [OF ok] al])
  have none: "map_of (pt_data_frames pt) vpn = None"
    using as_ok_data(4) [OF ok, of vpn] un by (cases "map_of (pt_data_frames pt) vpn") auto
  let ?pt1 = "pt\<lparr>pt_data_frames := btree_insert vpn f (pt_data_frames pt)\<rparr>"
  have "\<forall>h\<in>set (pt_metadata_frames pt). km_frames m1 h = km_frames m h"
    "\<forall>h\<in>set (pt_metadata_frames pt). h \<in> fa_live l (km_alloc m1)"
    using ok fa(2,3,7) by (auto simp: as_ok_def pt_owned_def)
  note c = pt_ok_cong [OF as_ok_pt_ok [OF ok] this(1) fa(1) this(2)]
  obtain pt' m' where mp: "pt_map vpn f (map_perm a) ?pt1 m1 = Some (pt', m')"
    using pt_map_total [of l r ?pt1 m1 vpn f "map_perm a"] c free c1 un by auto
  moreover have "card (free_frames l r m1) \<le> card (free_frames l r m') + 2"
    by (rule pt_map_free [OF fa(1) mp])
  ultimately show ?thesis using al none ty c1
    by (simp add: map_one_def pt_insert_def drop_tracker_def)
qed

lemma map_pages_total:
  "as_ok l r pt m \<Longrightarrow> map_type a = Framed \<Longrightarrow> map_perm a < 2 ^ 8 \<Longrightarrow> \<forall>v\<in>set vs. v < 2 ^ 27 \<Longrightarrow>
   distinct vs \<Longrightarrow> \<forall>v\<in>set vs. pt_abs pt m v = None \<Longrightarrow> 3 * length vs \<le> card (free_frames l r m) \<Longrightarrow>
   \<exists>s'. fold_opt (map_one a) vs (pt, m) = Some s' \<and>
     card (free_frames l r m) \<le> card (free_frames l r (snd s')) + 3 * length vs"
proof (induction vs arbitrary: pt m)
  case Nil
  then show ?case by simp
next
  case (Cons v vs)
  obtain pt1 m1 where one: "map_one a v (pt, m) = Some (pt1, m1)"
    and c: "card (free_frames l r m) \<le> card (free_frames l r m1) + 3"
    using map_one_total [OF Cons.prems(1,2), of v] Cons.prems(6,7) by auto
  have v: "v < 2 ^ 27" using Cons.prems(4) by simp
  obtain f where g1: "as_grown l r pt m pt1 m1"
    and abs1: "\<And>w. w < 2 ^ 27 \<Longrightarrow> pt_abs pt1 m1 w = (if w = v then Some (f, map_perm a OR PTE_V) else pt_abs pt m w)"
    by (rule map_one_framed [OF Cons.prems(1-3) v one]) (rule that; assumption)
  have "as_ok l r pt1 m1" using g1 by (simp add: as_grown_def)
  moreover have "\<forall>u\<in>set vs. pt_abs pt1 m1 u = None"
    using abs1 Cons.prems(4,5,6) by auto
  ultimately have "\<exists>s'. fold_opt (map_one a) vs (pt1, m1) = Some s' \<and>
      card (free_frames l r m1) \<le> card (free_frames l r (snd s')) + 3 * length vs"
    using Cons.prems(2-5,7) c by (intro Cons.IH) simp_all
  then show ?case using one c by auto
qed


section \<open>Isolation\<close>

definition as_disjoint :: "page_table \<Rightarrow> page_table \<Rightarrow> bool" where
  "as_disjoint pt qt \<longleftrightarrow> (\<forall>f\<in>set (pt_owned pt). f \<notin> set (pt_owned qt))"

lemma as_disjoint_sym: "as_disjoint pt qt \<longleftrightarrow> as_disjoint qt pt"
  by (auto simp: as_disjoint_def)

lemma as_ok_cong:
  assumes "as_ok l r qt m" "\<And>f. f \<in> set (pt_owned qt) \<Longrightarrow> km_frames m' f = km_frames m f"
    "fa_inv l r (km_alloc m')" "\<And>f. f \<in> set (pt_owned qt) \<Longrightarrow> f \<in> fa_live l (km_alloc m')"
  shows "as_ok l r qt m'" "pt_abs qt m' = pt_abs qt m"
proof -
  have c: "pt_ok l r qt m'" "pt_abs qt m' = pt_abs qt m"
    using pt_ok_cong [OF as_ok_pt_ok [OF assms(1)], of m'] assms(2-4) by (simp_all add: pt_owned_def)
  show "pt_abs qt m' = pt_abs qt m" by (rule c(2))
  have "length (km_frames m' f) = 4096" if "(v, f) \<in> set (pt_data_frames qt)" for v f
  proof -
    have "f \<in> set (pt_owned qt)" using that by (force simp: pt_owned_def)
    with assms(1,2) that show ?thesis by (fastforce simp: as_ok_def)
  qed
  with c assms(1,4) show "as_ok l r qt m'" by (auto simp: as_ok_def)
qed

lemma as_grown_isolated:
  assumes g: "as_grown l r pt m pt' m'" and ok: "as_ok l r qt m" and d: "as_disjoint qt pt"
  shows "as_ok l r qt m'" "as_disjoint qt pt'" "pt_abs qt m' = pt_abs qt m"
    "\<And>f. f \<in> set (pt_owned qt) \<Longrightarrow> km_frames m' f = km_frames m f"
proof -
  have live: "f \<in> fa_live l (km_alloc m)" if "f \<in> set (pt_owned qt)" for f
    using that ok by (simp add: as_ok_def)
  show "as_disjoint qt pt'" using g d live by (auto simp: as_disjoint_def as_grown_def)
  show keep: "km_frames m' f = km_frames m f" if "f \<in> set (pt_owned qt)" for f
    using g d live [OF that] that by (auto simp: as_disjoint_def as_grown_def pt_owned_def)
  have "fa_inv l r (km_alloc m')" using g as_ok_fa_inv by (auto simp: as_grown_def)
  moreover have "f \<in> fa_live l (km_alloc m')" if "f \<in> set (pt_owned qt)" for f
    using live [OF that] g by (simp add: as_grown_def)
  ultimately show "as_ok l r qt m'" "pt_abs qt m' = pt_abs qt m"
    using as_ok_cong [OF ok keep] by simp_all
qed

text \<open>Writing the bytes of a frame that is not a page of the table.\<close>

definition frame_write :: "nat \<Rightarrow> u8 list \<Rightarrow> kmem \<Rightarrow> kmem" where
  "frame_write p bs m = m\<lparr>km_frames := (km_frames m)(p := bs)\<rparr>"

lemma frame_write_sel [simp]:
  "km_alloc (frame_write p bs m) = km_alloc m"
  "km_frames (frame_write p bs m) q = (if q = p then bs else km_frames m q)"
  by (simp_all add: frame_write_def)

lemma as_ok_frame_write:
  assumes "as_ok l r pt m" "p \<notin> set (pt_metadata_frames pt)" "length bs = 4096"
  shows "as_ok l r pt (frame_write p bs m)" "pt_abs pt (frame_write p bs m) = pt_abs pt m"
proof -
  have c: "pt_ok l r pt (frame_write p bs m)" "pt_abs pt (frame_write p bs m) = pt_abs pt m"
    using pt_ok_cong [OF as_ok_pt_ok [OF assms(1)], of "frame_write p bs m"] assms
    by (auto simp: as_ok_def pt_ok_def)
  show "pt_abs pt (frame_write p bs m) = pt_abs pt m" by (rule c(2))
  show "as_ok l r pt (frame_write p bs m)" using c assms(1,3) by (auto simp: as_ok_def)
qed

lemma pt_translate_abs:
  assumes "pt_abs pt m v = Some (f, fl)"
  obtains e where "pt_translate pt v m = Some e" "pte_ppn e = f" "pte_flags e = fl"
  using assms by (auto simp: pt_abs_def pte_decode_def bind_eq_Some_conv split: if_splits)

section \<open>Giving the frames back\<close>

lemma frames_dealloc:
  "fa_inv l r (km_alloc m) \<Longrightarrow> distinct fs \<Longrightarrow> \<forall>f\<in>set fs. f \<in> fa_live l (km_alloc m) \<Longrightarrow>
   \<exists>m'. fold_opt frame_dealloc fs m = Some m' \<and> fa_inv l r (km_alloc m') \<and>
     fa_live l (km_alloc m') = fa_live l (km_alloc m) - set fs \<and> km_frames m' = km_frames m"
proof (induction fs arbitrary: m)
  case Nil
  then show ?case by simp
next
  case (Cons f fs)
  have fl: "f \<in> fa_live l (km_alloc m)" using Cons.prems(3) by simp
  obtain m1 where de: "frame_dealloc f m = Some m1"
    using frm_alloc.put_ok [OF Cons.prems(1) fl] by (auto simp: frame_dealloc_def)
  note d = frame_dealloc_Some [OF de Cons.prems(1) fl]
  have "\<forall>g\<in>set fs. g \<in> fa_live l (km_alloc m1)" using d(2) Cons.prems(2,3) by auto
  with Cons.IH [OF d(1)] Cons.prems(2) obtain m' where "fold_opt frame_dealloc fs m1 = Some m'"
    "fa_inv l r (km_alloc m')" "fa_live l (km_alloc m') = fa_live l (km_alloc m1) - set fs"
    "km_frames m' = km_frames m1" by auto
  then show ?case using de d by auto
qed

lemma as_drop:
  assumes "as_ok l r pt m"
  shows "\<exists>m'. pt_drop pt m = Some m' \<and> fa_inv l r (km_alloc m') \<and>
    fa_live l (km_alloc m') = fa_live l (km_alloc m) - set (pt_owned pt) \<and> km_frames m' = km_frames m"
  using frames_dealloc [OF as_ok_fa_inv [OF assms], of "pt_owned pt"] assms
  by (simp add: as_ok_def pt_drop_def pt_owned_def)

section \<open>Unmapping\<close>

lemma set_btree_remove: "set (btree_remove v d) = {x \<in> set d. fst x \<noteq> v}"
  by (auto simp: btree_remove_def)

lemma distinct_snd_filter: "distinct (map snd d) \<Longrightarrow> distinct (map snd (filter P d))"
  by (induction d) auto

lemma as_ok_remove:
  assumes ok: "as_ok l r pt m" and d: "map_of (pt_data_frames pt) vpn = Some f"
    and pt1: "pt_ok l r (pt\<lparr>pt_data_frames := btree_remove vpn (pt_data_frames pt)\<rparr>) m'"
    and abs': "\<And>w. w < 2 ^ 27 \<Longrightarrow>
      pt_abs (pt\<lparr>pt_data_frames := btree_remove vpn (pt_data_frames pt)\<rparr>) m' w =
      (if w = vpn then None else pt_abs pt m w)"
    and live': "fa_live l (km_alloc m') = fa_live l (km_alloc m) - {f}"
    and keep: "\<And>p. p \<notin> set (pt_metadata_frames pt) \<Longrightarrow> km_frames m' p = km_frames m p"
  shows "as_ok l r (pt\<lparr>pt_data_frames := btree_remove vpn (pt_data_frames pt)\<rparr>) m'"
proof -
  let ?d = "pt_data_frames pt"
  have dist: "distinct (pt_owned pt)" and bt: "btree_ok ?d"
    and own: "\<And>h. h \<in> set (pt_owned pt) \<Longrightarrow> h \<in> fa_live l (km_alloc m)"
    using ok by (simp_all add: as_ok_def)
  have inj: "inj_on snd (set ?d)" using dist by (simp add: pt_owned_def distinct_map)
  have f: "(vpn, f) \<in> set ?d" by (rule map_of_SomeD [OF d])
  have once: "snd x \<noteq> f" if "x \<in> set ?d" "fst x \<noteq> vpn" for x
    using inj_onD [OF inj _ that(1) f] that(2) by (cases x) auto
  have dm: "snd x \<notin> set (pt_metadata_frames pt)" if "x \<in> set ?d" for x
    using that dist by (auto simp: pt_owned_def)
  have "distinct (map snd (btree_remove vpn ?d) @ pt_metadata_frames pt)"
    using dist dm by (auto simp: pt_owned_def set_btree_remove btree_remove_def distinct_snd_filter)
  moreover have "h \<in> fa_live l (km_alloc m')"
    if h: "h \<in> set (map snd (btree_remove vpn ?d) @ pt_metadata_frames pt)" for h
  proof -
    have "h \<in> set (pt_owned pt)" using h by (auto simp: set_btree_remove pt_owned_def)
    moreover have "h \<noteq> f" using h once dm [OF f] by (auto simp: set_btree_remove)
    ultimately show ?thesis using own live' by simp
  qed
  moreover have "w < 2 ^ 27 \<and> (\<exists>fl. pt_abs (pt\<lparr>pt_data_frames := btree_remove vpn ?d\<rparr>) m' w = Some (g, fl)) \<and>
      length (km_frames m' g) = 4096" if "(w, g) \<in> set ?d" "w \<noteq> vpn" for w g
    using ok that abs' [of w] keep [of g] dm [OF that(1)] by (auto simp: as_ok_def)
  ultimately show ?thesis
    using pt1 bt by (auto simp: as_ok_def pt_owned_def set_btree_remove)
qed

lemma unmap_one_framed:
  assumes ok: "as_ok l r pt m" and ty: "map_type a = Framed"
    and d: "map_of (pt_data_frames pt) vpn = Some f"
  obtains pt' m' where "unmap_one a vpn (pt, m) = Some (pt', m')" "as_ok l r pt' m'"
    "\<And>w. w < 2 ^ 27 \<Longrightarrow> pt_abs pt' m' w = (if w = vpn then None else pt_abs pt m w)"
    "pt_data_frames pt' = btree_remove vpn (pt_data_frames pt)"
    "pt_metadata_frames pt' = pt_metadata_frames pt" "pt_root_ppn pt' = pt_root_ppn pt"
    "fa_live l (km_alloc m') = fa_live l (km_alloc m) - {f}"
    "\<And>p. p \<notin> set (pt_metadata_frames pt) \<Longrightarrow> km_frames m' p = km_frames m p"
proof -
  let ?pt1 = "pt\<lparr>pt_data_frames := btree_remove vpn (pt_data_frames pt)\<rparr>"
  note df = as_ok_data [OF ok d]
  have own: "h \<in> fa_live l (km_alloc m)" if "h \<in> set (pt_owned pt)" for h
    using that ok by (simp add: as_ok_def)
  obtain m1 where de: "frame_dealloc f m = Some m1"
    using frm_alloc.put_ok [OF as_ok_fa_inv [OF ok] df(1)] by (auto simp: frame_dealloc_def)
  note de' = frame_dealloc_Some [OF de as_ok_fa_inv [OF ok] df(1)]
  have "\<forall>h\<in>set (pt_metadata_frames pt). h \<in> fa_live l (km_alloc m1)"
    using own df(2) de'(2) by (auto simp: pt_owned_def)
  note c = pt_ok_cong [OF as_ok_pt_ok [OF ok] _ de'(1) this]
  have ok1: "pt_ok l r ?pt1 m1" and abs1: "pt_abs ?pt1 m1 = pt_abs pt m" using c de'(3) by simp_all
  obtain m' where un: "pt_unmap vpn ?pt1 m1 = Some m'"
    using pt_unmap_eq(1) [OF ok1, of vpn] abs1 df(4) by (cases "pt_unmap vpn ?pt1 m1") auto
  note u = pt_unmap_eq(2-5) [OF ok1 un]
  have abs': "pt_abs ?pt1 m' w = (if w = vpn then None else pt_abs pt m w)" if "w < 2 ^ 27" for w
    using u(2) [OF df(3) that] abs1 by simp
  have run: "unmap_one a vpn (pt, m) = Some (?pt1, m')"
    using ty d de un by (simp add: unmap_one_def pt_remove_def drop_tracker_def)
  have live': "fa_live l (km_alloc m') = fa_live l (km_alloc m) - {f}" using u(3) de'(2) by simp
  have keep: "km_frames m' p = km_frames m p" if "p \<notin> set (pt_metadata_frames pt)" for p
    using u(4) that de'(3) by simp
  have "as_ok l r ?pt1 m'" by (rule as_ok_remove [OF ok d u(1) abs' live' keep])
  then show ?thesis using that run abs' live' keep by simp
qed


section \<open>Well-formed memory sets\<close>

abbreviation area_pages :: "map_area \<Rightarrow> nat list" where
  "area_pages a \<equiv> range_list (vpn_range a)"

abbreviation ms_pages :: "memory_set \<Rightarrow> nat list" where
  "ms_pages ms \<equiv> concat (map area_pages (ms_areas ms))"

definition area_ok :: "map_area \<Rightarrow> bool" where
  "area_ok a \<longleftrightarrow> map_type a = Framed \<and> map_perm a < 2 ^ 8 \<and>
     range_start (vpn_range a) \<le> range_end (vpn_range a) \<and> range_end (vpn_range a) < 2 ^ 27"

text \<open>A user space: framed areas without overlap, each page backed by an own frame with the
  permissions of its area, the trampoline in the last page, nothing else.\<close>

definition ms_ok :: "nat \<Rightarrow> nat \<Rightarrow> nat \<Rightarrow> memory_set \<Rightarrow> kmem \<Rightarrow> bool" where
  "ms_ok l r tr ms m \<longleftrightarrow> as_ok l r (ms_page_table ms) m \<and>
     (\<forall>a\<in>set (ms_areas ms). area_ok a) \<and> distinct (ms_pages ms) \<and>
     (\<forall>a\<in>set (ms_areas ms). \<forall>v\<in>set (area_pages a).
        \<exists>f. map_of (pt_data_frames (ms_page_table ms)) v = Some f \<and>
          pt_abs (ms_page_table ms) m v = Some (f, map_perm a OR PTE_V)) \<and>
     pt_abs (ms_page_table ms) m (2 ^ 27 - 1) = Some (tr, PTE_R OR PTE_X OR PTE_V) \<and>
     (\<forall>w<2 ^ 27 - 1. w \<notin> set (ms_pages ms) \<longrightarrow> pt_abs (ms_page_table ms) m w = None)"

lemma area_pages_bound:
  "area_ok a \<Longrightarrow> v \<in> set (area_pages a) \<Longrightarrow> v < 2 ^ 27 - 1"
  by (auto simp: area_ok_def range_list_def range_iter_eq)

lemma ms_ok_as_ok: "ms_ok l r tr ms m \<Longrightarrow> as_ok l r (ms_page_table ms) m"
  by (simp add: ms_ok_def)

lemma ms_push_framed:
  assumes ok: "ms_ok l r tr ms m" and a: "area_ok a"
    and run: "ms_push a None (ms, m) = Some (ms', m')"
  shows "ms_ok l r tr ms' m'" "ms_areas ms' = ms_areas ms @ [a]"
    "as_grown l r (ms_page_table ms) m (ms_page_table ms') m'"
    "framed_pages l (area_pages a) (map_perm a) (ms_page_table ms) m (ms_page_table ms') m'"
proof -
  let ?pt = "ms_page_table ms" and ?pt' = "ms_page_table ms'"
  have am: "fold_opt (map_one a) (area_pages a) (?pt, m) = Some (?pt', m')"
    and ar: "ms_areas ms' = ms_areas ms @ [a]"
    using run by (auto simp: ms_push_def area_map_def bind_eq_Some_conv)
  have b: "\<forall>v\<in>set (area_pages a). v < 2 ^ 27" using area_pages_bound [OF a] by fastforce
  have mp: "as_grown l r ?pt m ?pt' m'" "framed_pages l (area_pages a) (map_perm a) ?pt m ?pt' m'"
    using map_pages_framed [OF ms_ok_as_ok [OF ok] _ _ b am] a by (simp_all add: area_ok_def)
  show "ms_areas ms' = ms_areas ms @ [a]" by (rule ar)
  show "as_grown l r ?pt m ?pt' m'" "framed_pages l (area_pages a) (map_perm a) ?pt m ?pt' m'" by (rule mp)+
  have old: "pt_abs ?pt' m' w = pt_abs ?pt m w"
    "map_of (pt_data_frames ?pt') w = map_of (pt_data_frames ?pt) w"
    if "w < 2 ^ 27" "w \<notin> set (area_pages a)" for w
    using mp(2) that by (auto simp: framed_pages_def)
  have new: "w \<notin> set (area_pages a)" if "pt_abs ?pt m w \<noteq> None" for w
    using mp(2) that by (auto simp: framed_pages_def)
  have mem: "\<exists>f. map_of (pt_data_frames ?pt) v = Some f \<and> pt_abs ?pt m v = Some (f, map_perm b OR PTE_V)"
    "v < 2 ^ 27 - 1" if "b \<in> set (ms_areas ms)" "v \<in> set (area_pages b)" for b v
    using ok that area_pages_bound by (auto simp: ms_ok_def)
  have tr: "pt_abs ?pt m (2 ^ 27 - 1) = Some (tr, PTE_R OR PTE_X OR PTE_V)" using ok by (simp add: ms_ok_def)
  show "ms_ok l r tr ms' m'"
    unfolding ms_ok_def
  proof (intro conjI)
    show "as_ok l r ?pt' m'" using mp(1) by (simp add: as_grown_def)
    show "\<forall>b\<in>set (ms_areas ms'). area_ok b" using ok a ar by (auto simp: ms_ok_def)
    have "v \<notin> set (area_pages a)" if "v \<in> set (ms_pages ms)" for v
      using that mem new by fastforce
    then show "distinct (ms_pages ms')" using ok mp(2) ar by (auto simp: ms_ok_def framed_pages_def)
    show "\<forall>b\<in>set (ms_areas ms'). \<forall>v\<in>set (area_pages b). \<exists>f. map_of (pt_data_frames ?pt') v = Some f \<and>
          pt_abs ?pt' m' v = Some (f, map_perm b OR PTE_V)"
    proof (intro ballI)
      fix b v assume b: "b \<in> set (ms_areas ms')" and v: "v \<in> set (area_pages b)"
      show "\<exists>f. map_of (pt_data_frames ?pt') v = Some f \<and> pt_abs ?pt' m' v = Some (f, map_perm b OR PTE_V)"
      proof (cases "b \<in> set (ms_areas ms)")
        case True
        with mem [OF _ v] old [of v] new [of v] show ?thesis by auto
      next
        case False
        then show ?thesis using b v ar mp(2) by (auto simp: framed_pages_def)
      qed
    qed
    show "pt_abs ?pt' m' (2 ^ 27 - 1) = Some (tr, PTE_R OR PTE_X OR PTE_V)"
      using old(1) [of "2 ^ 27 - 1"] new tr by auto
    show "\<forall>w<2 ^ 27 - 1. w \<notin> set (ms_pages ms') \<longrightarrow> pt_abs ?pt' m' w = None"
      using ok old(1) ar by (simp add: ms_ok_def)
  qed
qed


lemma ms_push_total:
  assumes ok: "ms_ok l r tr ms m" and a: "area_ok a" and new: "\<forall>v\<in>set (area_pages a). v \<notin> set (ms_pages ms)"
    and free: "3 * length (area_pages a) \<le> card (free_frames l r m)"
  shows "\<exists>s'. ms_push a None (ms, m) = Some s' \<and>
    card (free_frames l r m) \<le> card (free_frames l r (snd s')) + 3 * length (area_pages a)"
proof -
  have b: "v < 2 ^ 27 - 1" if "v \<in> set (area_pages a)" for v using area_pages_bound [OF a that] .
  have "distinct (area_pages a)" using a by (simp add: area_ok_def range_list_def range_iter_eq)
  moreover have "\<forall>v\<in>set (area_pages a). pt_abs (ms_page_table ms) m v = None"
    using ok new b by (simp add: ms_ok_def)
  moreover have "\<forall>v\<in>set (area_pages a). v < 2 ^ 27" using b by fastforce
  ultimately obtain pt' m' where "fold_opt (map_one a) (area_pages a) (ms_page_table ms, m) = Some (pt', m')"
    "card (free_frames l r m) \<le> card (free_frames l r m') + 3 * length (area_pages a)"
    using map_pages_total [OF ms_ok_as_ok [OF ok], of a "area_pages a"] a free
    by (auto simp: area_ok_def)
  then show ?thesis by (simp add: ms_push_def area_map_def)
qed

text \<open>A new space with the trampoline only.\<close>

lemma trampoline_vpn: "pn_from_addr (virt_addr_from TRAMPOLINE) = Some (2 ^ 27 - 1)"
  by (simp add: pn_from_addr_def is_aligned_def page_offset_mod conv_mod as_pn_by_floor_def
      TRAMPOLINE_def)

lemma ms_new_trampoline:
  assumes inv: "fa_inv l r (km_alloc m)" and free: "3 \<le> card (free_frames l r m)"
    and al: "stramp mod 4096 = 0" "stramp < 2 ^ 56"
  obtains ms m1 where "do { s \<leftarrow> ms_new_bare m; ms_map_trampoline stramp s } = Some (ms, m1)"
    "ms_ok l r (stramp div 4096) ms m1" "ms_areas ms = []"
    "card (free_frames l r m) \<le> card (free_frames l r m1) + 3"
    "\<And>f. f \<in> set (pt_owned (ms_page_table ms)) \<Longrightarrow> f \<notin> fa_live l (km_alloc m)"
    "\<And>f. f \<in> fa_live l (km_alloc m) \<Longrightarrow> f \<in> fa_live l (km_alloc m1)"
    "\<And>f. f \<in> fa_live l (km_alloc m) \<Longrightarrow> km_frames m1 f = km_frames m f"
proof -
  have "0 < card (free_frames l r m)" using free by simp
  then obtain f m0 where fal: "frame_alloc m = (Some f, m0)" by (rule frame_alloc_free [OF inv])
  define pt where "pt = \<lparr>pt_root_ppn = f, pt_data_frames = [], pt_metadata_frames = [f]\<rparr>"
  have new: "pt_new m = Some (pt, m0)" using fal by (simp add: pt_new_def pt_def)
  note n = pt_new_ok [OF inv new]
  have c0: "card (free_frames l r m) = card (free_frames l r m0) + 1" by (rule frame_alloc_card [OF inv fal])
  let ?p = "stramp div 4096" and ?fl = "PTE_R OR PTE_X"
  have pp: "pn_from_addr (phys_addr_from stramp) = Some ?p"
    using al by (simp add: pn_from_addr_def is_aligned_def page_offset_mod conv_mod as_pn_by_floor_def)
  have b: "?p < 2 ^ 44" "?fl < 2 ^ 8" "(2 ^ 27 - 1 :: nat) < 2 ^ 27"
    using al(2) by (simp_all add: less_mult_imp_div_less PTE_R_def PTE_X_def)
  obtain pt1 m1 where mp: "pt_map (2 ^ 27 - 1) ?p ?fl pt m0 = Some (pt1, m1)"
    using pt_map_total [OF n(1)] free c0 n(2) by fastforce
  note M = pt_map_abs [OF n(1) mp b(3,1,2)]
  have c1: "card (free_frames l r m0) \<le> card (free_frames l r m1) + 2"
    by (rule pt_map_free [OF _ mp]) (use n(1) in \<open>simp add: pt_ok_def\<close>)
  have meta: "h \<notin> fa_live l (km_alloc m)" if "h \<in> set (pt_metadata_frames pt1)" for h
    using M(9) [OF that] n(4-6) by auto
  have ok: "as_ok l r pt1 m1" using M(1,5) n(3) by (auto simp: as_ok_def pt_owned_def pt_ok_def)
  let ?ms = "\<lparr>ms_page_table = pt1, ms_areas = []\<rparr>"
  have "do { s \<leftarrow> ms_new_bare m; ms_map_trampoline stramp s } = Some (?ms, m1)"
    using new mp pp by (simp add: ms_new_bare_def ms_map_trampoline_def trampoline_vpn)
  moreover have "ms_ok l r ?p ?ms m1"
    using ok M(3) n(2) b(3) by (simp add: ms_ok_def or.assoc)
  moreover have "h \<in> fa_live l (km_alloc m1)" "km_frames m1 h = km_frames m h"
    if "h \<in> fa_live l (km_alloc m)" for h
  proof -
    have hn: "h \<notin> set (pt_metadata_frames pt1)" "h \<noteq> pt_root_ppn pt" using that meta n(5) by blast+
    show "h \<in> fa_live l (km_alloc m1)" using that M(6) n(6) by simp
    show "km_frames m1 h = km_frames m h" using M(7) [OF hn(1)] hn(2) n(8) by simp
  qed
  ultimately show ?thesis using that [of ?ms m1] c0 c1 meta M(5) n(3) by (auto simp: pt_owned_def)
qed


section \<open>Cloning a space\<close>

text \<open>What a program sees in a page: its bytes and its permissions.\<close>

definition user_page :: "memory_set \<Rightarrow> kmem \<Rightarrow> nat \<Rightarrow> (u8 list \<times> nat) option" where
  "user_page ms m v = map_option (\<lambda>(f, fl). (km_frames m f, fl)) (pt_abs (ms_page_table ms) m v)"

lemma data_frame_inj:
  assumes "as_ok l r pt m" "map_of (pt_data_frames pt) v = Some f" "map_of (pt_data_frames pt) w = Some f"
  shows "v = w"
proof -
  have "inj_on snd (set (pt_data_frames pt))" using assms(1) by (simp add: as_ok_def pt_owned_def distinct_map)
  from inj_onD [OF this _ map_of_SomeD [OF assms(2)] map_of_SomeD [OF assms(3)]] show ?thesis by simp
qed

lemma data_frame_owned: "map_of (pt_data_frames pt) v = Some f \<Longrightarrow> f \<in> set (pt_owned pt)"
  by (force simp: pt_owned_def dest: map_of_SomeD)

lemma clone_page_step:
  assumes s: "as_ok l r (ms_page_table src) m" and d: "as_ok l r (ms_page_table dst) m"
    and dj: "as_disjoint (ms_page_table src) (ms_page_table dst)"
    and sf: "map_of (pt_data_frames (ms_page_table src)) v = Some sf"
    and df: "map_of (pt_data_frames (ms_page_table dst)) v = Some df"
  shows "clone_page src dst v m = Some (frame_write df (km_frames m sf) m)"
    "as_ok l r (ms_page_table src) (frame_write df (km_frames m sf) m)"
    "as_ok l r (ms_page_table dst) (frame_write df (km_frames m sf) m)"
    "pt_abs (ms_page_table src) (frame_write df (km_frames m sf) m) = pt_abs (ms_page_table src) m"
    "pt_abs (ms_page_table dst) (frame_write df (km_frames m sf) m) = pt_abs (ms_page_table dst) m"
proof -
  note ds = as_ok_data [OF s sf] and dd = as_ok_data [OF d df]
  obtain fl fl' where a: "pt_abs (ms_page_table src) m v = Some (sf, fl)"
    "pt_abs (ms_page_table dst) m v = Some (df, fl')" using ds(4) dd(4) by blast
  show "clone_page src dst v m = Some (frame_write df (km_frames m sf) m)"
  proof -
    obtain e where e: "pt_translate (ms_page_table src) v m = Some e" "pte_ppn e = sf"
      by (rule pt_translate_abs [OF a(1)])
    obtain e' where e': "pt_translate (ms_page_table dst) v m = Some e'" "pte_ppn e' = df"
      by (rule pt_translate_abs [OF a(2)])
    show ?thesis using e e' by (simp add: clone_page_def ms_translate_def frame_write_def)
  qed
  have "df \<notin> set (pt_metadata_frames (ms_page_table src))"
    using dj data_frame_owned [OF df] by (auto simp: as_disjoint_def pt_owned_def)
  then show "as_ok l r (ms_page_table src) (frame_write df (km_frames m sf) m)"
    "pt_abs (ms_page_table src) (frame_write df (km_frames m sf) m) = pt_abs (ms_page_table src) m"
    using as_ok_frame_write [OF s _ ds(5)] by simp_all
  show "as_ok l r (ms_page_table dst) (frame_write df (km_frames m sf) m)"
    "pt_abs (ms_page_table dst) (frame_write df (km_frames m sf) m) = pt_abs (ms_page_table dst) m"
    using as_ok_frame_write [OF d dd(2) ds(5)] by simp_all
qed

text \<open>The memory after the pages \<open>vs\<close> have been copied.\<close>

definition pages_copied :: "page_table \<Rightarrow> page_table \<Rightarrow> nat list \<Rightarrow> kmem \<Rightarrow> kmem \<Rightarrow> bool" where
  "pages_copied st dt vs m m' \<longleftrightarrow> km_alloc m' = km_alloc m \<and>
     pt_abs st m' = pt_abs st m \<and> pt_abs dt m' = pt_abs dt m \<and>
     (\<forall>v\<in>set vs. \<forall>sf df. map_of (pt_data_frames st) v = Some sf \<longrightarrow> map_of (pt_data_frames dt) v = Some df \<longrightarrow>
        km_frames m' df = km_frames m sf) \<and>
     (\<forall>p. (\<forall>v\<in>set vs. map_of (pt_data_frames dt) v \<noteq> Some p) \<longrightarrow> km_frames m' p = km_frames m p)"

lemma clone_pages:
  "as_ok l r (ms_page_table src) m \<Longrightarrow> as_ok l r (ms_page_table dst) m \<Longrightarrow>
   as_disjoint (ms_page_table src) (ms_page_table dst) \<Longrightarrow> distinct vs \<Longrightarrow>
   \<forall>v\<in>set vs. map_of (pt_data_frames (ms_page_table src)) v \<noteq> None \<and>
     map_of (pt_data_frames (ms_page_table dst)) v \<noteq> None \<Longrightarrow>
   \<exists>m'. fold_opt (clone_page src dst) vs m = Some m' \<and> as_ok l r (ms_page_table src) m' \<and>
     as_ok l r (ms_page_table dst) m' \<and> pages_copied (ms_page_table src) (ms_page_table dst) vs m m'"
proof (induction vs arbitrary: m)
  case Nil
  then show ?case by (simp add: pages_copied_def)
next
  case (Cons v vs)
  let ?st = "ms_page_table src" and ?dt = "ms_page_table dst"
  obtain sf df where sf: "map_of (pt_data_frames ?st) v = Some sf" and df: "map_of (pt_data_frames ?dt) v = Some df"
    using Cons.prems(5) by auto
  let ?m1 = "frame_write df (km_frames m sf) m"
  note c = clone_page_step [OF Cons.prems(1-3) sf df]
  obtain m' where run: "fold_opt (clone_page src dst) vs ?m1 = Some m'"
    and ok: "as_ok l r ?st m'" "as_ok l r ?dt m'" and cp: "pages_copied ?st ?dt vs ?m1 m'"
    using Cons.IH [OF c(2,3) Cons.prems(3)] Cons.prems(4,5) by auto
  have own: "sf' \<noteq> df" if "map_of (pt_data_frames ?st) u = Some sf'" for u sf'
    using Cons.prems(3) data_frame_owned [OF that] data_frame_owned [OF df] by (auto simp: as_disjoint_def)
  have inj: "map_of (pt_data_frames ?dt) u \<noteq> Some df" if "u \<in> set vs" for u
    using data_frame_inj [OF Cons.prems(2) df] that Cons.prems(4) by auto
  have "km_frames m' df = km_frames m sf" using cp inj by (auto simp: pages_copied_def)
  moreover have "km_frames m' df' = km_frames m sf'"
    if "u \<in> set vs" "map_of (pt_data_frames ?st) u = Some sf'" "map_of (pt_data_frames ?dt) u = Some df'"
    for u sf' df'
    using cp that own [OF that(2)] by (auto simp: pages_copied_def)
  ultimately have "pages_copied ?st ?dt (v # vs) m m'"
    using cp c(4,5) sf df by (auto simp: pages_copied_def)
  then show ?case using run c(1) ok by simp
qed


lemma map_area_clone_same: "area_ok a \<Longrightarrow> map_area_clone a = Some a"
  by (simp add: map_area_clone_def simple_range_new_def area_ok_def)

lemma ms_ok_cong:
  assumes "ms_ok l r tr ms m" "as_ok l r (ms_page_table ms) m'"
    "pt_abs (ms_page_table ms) m' = pt_abs (ms_page_table ms) m"
  shows "ms_ok l r tr ms m'"
  using assms by (simp add: ms_ok_def)

lemma ms_ok_page:
  assumes "ms_ok l r tr ms m" "a \<in> set (ms_areas ms)" "v \<in> set (area_pages a)"
  obtains f where "map_of (pt_data_frames (ms_page_table ms)) v = Some f"
    "pt_abs (ms_page_table ms) m v = Some (f, map_perm a OR PTE_V)" "v < 2 ^ 27 - 1"
proof -
  have "area_ok a" using assms(1,2) by (simp add: ms_ok_def)
  moreover have "\<exists>f. map_of (pt_data_frames (ms_page_table ms)) v = Some f \<and>
      pt_abs (ms_page_table ms) m v = Some (f, map_perm a OR PTE_V)"
    using assms unfolding ms_ok_def by blast
  ultimately show ?thesis using that area_pages_bound [OF _ assms(3)] by blast
qed

text \<open>The loop of \<open>clone\<close>, \<open>m0\<close> being the memory before the call: every frame that was in
  use is untouched, and the pages copied so far look alike in both spaces.\<close>

definition clone_inv :: "nat \<Rightarrow> nat \<Rightarrow> nat \<Rightarrow> memory_set \<Rightarrow> kmem \<Rightarrow> memory_set \<Rightarrow> kmem \<Rightarrow> bool" where
  "clone_inv l r tr src m0 dst m \<longleftrightarrow> ms_ok l r tr src m \<and> ms_ok l r tr dst m \<and>
     pt_abs (ms_page_table src) m = pt_abs (ms_page_table src) m0 \<and>
     (\<forall>f\<in>fa_live l (km_alloc m0). f \<in> fa_live l (km_alloc m) \<and> km_frames m f = km_frames m0 f \<and>
        f \<notin> set (pt_owned (ms_page_table dst))) \<and>
     (\<forall>v\<in>set (ms_pages dst). user_page dst m v = user_page src m0 v)"

lemma clone_inv_disjoint:
  assumes "clone_inv l r tr src m0 dst m" "as_ok l r (ms_page_table src) m0"
  shows "as_disjoint (ms_page_table src) (ms_page_table dst)"
  using assms by (auto simp: clone_inv_def as_disjoint_def as_ok_def)

text \<open>Mapping the area in the new space keeps the invariant for the pages copied before.\<close>

lemma clone_push:
  assumes inv: "clone_inv l r tr src m0 dst m" and src0: "ms_ok l r tr src m0" and a: "area_ok a"
    and run: "ms_push a None (dst, m) = Some (dst1, m1)"
  shows "ms_ok l r tr src m1" "ms_ok l r tr dst1 m1" "ms_areas dst1 = ms_areas dst @ [a]"
    "pt_abs (ms_page_table src) m1 = pt_abs (ms_page_table src) m0"
    "\<And>f. f \<in> fa_live l (km_alloc m0) \<Longrightarrow> f \<in> fa_live l (km_alloc m1) \<and> km_frames m1 f = km_frames m0 f \<and>
        f \<notin> set (pt_owned (ms_page_table dst1))"
    "\<And>v. v \<in> set (ms_pages dst) \<Longrightarrow> user_page dst1 m1 v = user_page src m0 v"
proof -
  let ?st = "ms_page_table src" and ?dt = "ms_page_table dst" and ?dt1 = "ms_page_table dst1"
  have dok: "ms_ok l r tr dst m" and sok: "ms_ok l r tr src m" and sabs: "pt_abs ?st m = pt_abs ?st m0"
    using inv by (simp_all add: clone_inv_def)
  note p = ms_push_framed [OF dok a run]
  show "ms_ok l r tr dst1 m1" "ms_areas dst1 = ms_areas dst @ [a]" by (rule p)+
  note iso = as_grown_isolated [OF p(3) ms_ok_as_ok [OF sok] clone_inv_disjoint [OF inv ms_ok_as_ok [OF src0]]]
  show "ms_ok l r tr src m1" by (rule ms_ok_cong [OF sok iso(1,3)])
  show "pt_abs ?st m1 = pt_abs ?st m0" using iso(3) sabs by simp
  show "f \<in> fa_live l (km_alloc m1) \<and> km_frames m1 f = km_frames m0 f \<and> f \<notin> set (pt_owned ?dt1)"
    if "f \<in> fa_live l (km_alloc m0)" for f
  proof -
    have f: "f \<in> fa_live l (km_alloc m)" "km_frames m f = km_frames m0 f" "f \<notin> set (pt_owned ?dt)"
      using inv that by (auto simp: clone_inv_def)
    then show ?thesis using p(3) by (auto simp: as_grown_def pt_owned_def)
  qed
  fix v assume v: "v \<in> set (ms_pages dst)"
  then obtain b where b: "b \<in> set (ms_areas dst)" "v \<in> set (area_pages b)" by auto
  obtain f where f: "map_of (pt_data_frames ?dt) v = Some f" "pt_abs ?dt m v = Some (f, map_perm b OR PTE_V)"
    and vb: "v < 2 ^ 27 - 1" by (rule ms_ok_page [OF dok b])
  have "v \<notin> set (area_pages a)" using p(4) f(2) by (auto simp: framed_pages_def)
  then have "pt_abs ?dt1 m1 v = pt_abs ?dt m v" using p(4) vb by (simp add: framed_pages_def)
  moreover have "km_frames m1 f = km_frames m f"
    using p(3) as_ok_data(1,2) [OF ms_ok_as_ok [OF dok] f(1)] by (simp add: as_grown_def)
  ultimately have "user_page dst1 m1 v = user_page dst m v" using f(2) by (simp add: user_page_def)
  also have "\<dots> = user_page src m0 v" using inv v unfolding clone_inv_def by blast
  finally show "user_page dst1 m1 v = user_page src m0 v" .
qed

text \<open>Copying the pages of the area restores the invariant with the area included.\<close>

lemma clone_copied:
  assumes src0: "ms_ok l r tr src m0" and a: "a \<in> set (ms_areas src)"
    and P: "ms_ok l r tr src m1" "ms_ok l r tr dst1 m1" "ms_areas dst1 = ms_areas dst @ [a]"
      "pt_abs (ms_page_table src) m1 = pt_abs (ms_page_table src) m0"
      "\<And>f. f \<in> fa_live l (km_alloc m0) \<Longrightarrow> f \<in> fa_live l (km_alloc m1) \<and> km_frames m1 f = km_frames m0 f \<and>
        f \<notin> set (pt_owned (ms_page_table dst1))"
      "\<And>v. v \<in> set (ms_pages dst) \<Longrightarrow> user_page dst1 m1 v = user_page src m0 v"
    and ok: "as_ok l r (ms_page_table src) m2" "as_ok l r (ms_page_table dst1) m2"
    and C: "pages_copied (ms_page_table src) (ms_page_table dst1) (area_pages a) m1 m2"
  shows "clone_inv l r tr src m0 dst1 m2"
proof -
  let ?st = "ms_page_table src" and ?dt = "ms_page_table dst1"
  have abs: "pt_abs ?st m2 = pt_abs ?st m1" "pt_abs ?dt m2 = pt_abs ?dt m1" and al: "km_alloc m2 = km_alloc m1"
    using C by (simp_all add: pages_copied_def)
  have keep: "km_frames m2 f = km_frames m1 f"
    if "\<And>v. v \<in> set (area_pages a) \<Longrightarrow> map_of (pt_data_frames ?dt) v \<noteq> Some f" for f
    using C that by (simp add: pages_copied_def)
  have live: "f \<in> fa_live l (km_alloc m2) \<and> km_frames m2 f = km_frames m0 f \<and> f \<notin> set (pt_owned ?dt)"
    if "f \<in> fa_live l (km_alloc m0)" for f
    using P(5) [OF that] keep [of f] data_frame_owned [of ?dt _ f] al by auto
  have new: "user_page dst1 m2 v = user_page src m0 v" if v: "v \<in> set (area_pages a)" for v
  proof -
    obtain sf where sf: "map_of (pt_data_frames ?st) v = Some sf" "pt_abs ?st m0 v = Some (sf, map_perm a OR PTE_V)"
      by (rule ms_ok_page [OF src0 a v])
    have a': "a \<in> set (ms_areas dst1)" by (simp add: P(3))
    obtain df where df: "map_of (pt_data_frames ?dt) v = Some df" "pt_abs ?dt m1 v = Some (df, map_perm a OR PTE_V)"
      by (rule ms_ok_page [OF P(2) a' v])
    have "km_frames m2 df = km_frames m1 sf" using C v sf df by (simp add: pages_copied_def)
    also have "\<dots> = km_frames m0 sf" using P(5) as_ok_data(1) [OF ms_ok_as_ok [OF src0] sf(1)] by simp
    finally show ?thesis using sf df abs by (simp add: user_page_def)
  qed
  have old: "user_page dst1 m2 v = user_page dst1 m1 v" if v: "v \<in> set (ms_pages dst)" "v \<notin> set (area_pages a)" for v
  proof -
    obtain b where b: "b \<in> set (ms_areas dst1)" "v \<in> set (area_pages b)" using v P(3) by auto
    obtain f where f: "map_of (pt_data_frames ?dt) v = Some f" "pt_abs ?dt m1 v = Some (f, map_perm b OR PTE_V)"
      by (rule ms_ok_page [OF P(2) b])
    have "km_frames m2 f = km_frames m1 f"
      using keep data_frame_inj [OF ms_ok_as_ok [OF P(2)] f(1)] v(2) by blast
    then show ?thesis using f abs by (simp add: user_page_def)
  qed
  have "user_page dst1 m2 v = user_page src m0 v" if "v \<in> set (ms_pages dst1)" for v
    using that new old P(3,6) by (cases "v \<in> set (area_pages a)") auto
  then show ?thesis unfolding clone_inv_def
    using live abs P(4) ms_ok_cong [OF P(1) ok(1) abs(1)] ms_ok_cong [OF P(2) ok(2) abs(2)] by simp
qed

lemma clone_area_step:
  assumes inv: "clone_inv l r tr src m0 dst m" and src0: "ms_ok l r tr src m0"
    and a: "a \<in> set (ms_areas src)" and new: "\<forall>v\<in>set (area_pages a). v \<notin> set (ms_pages dst)"
    and free: "3 * length (area_pages a) \<le> card (free_frames l r m)"
  obtains dst' m' where "clone_area src a (dst, m) = Some (dst', m')" "clone_inv l r tr src m0 dst' m'"
    "ms_areas dst' = ms_areas dst @ [a]"
    "card (free_frames l r m) \<le> card (free_frames l r m') + 3 * length (area_pages a)"
proof -
  let ?st = "ms_page_table src"
  have aok: "area_ok a" using src0 a by (simp add: ms_ok_def)
  have dok: "ms_ok l r tr dst m" using inv by (simp add: clone_inv_def)
  obtain dst1 m1 where push: "ms_push a None (dst, m) = Some (dst1, m1)"
    and c: "card (free_frames l r m) \<le> card (free_frames l r m1) + 3 * length (area_pages a)"
    using ms_push_total [OF dok aok new free] by auto
  let ?dt = "ms_page_table dst1"
  note P = clone_push [OF inv src0 aok push]
  have sp: "\<exists>f. map_of (pt_data_frames ?st) v = Some f \<and> pt_abs ?st m0 v = Some (f, map_perm a OR PTE_V)"
    "\<exists>f. map_of (pt_data_frames ?dt) v = Some f \<and> pt_abs ?dt m1 v = Some (f, map_perm a OR PTE_V)"
    if "v \<in> set (area_pages a)" for v
    using src0 a P(2,3) that by (auto simp: ms_ok_def)
  have live0: "f \<in> fa_live l (km_alloc m0)" if "f \<in> set (pt_owned ?st)" for f
    using that ms_ok_as_ok [OF src0] by (simp add: as_ok_def)
  have dj: "as_disjoint ?st ?dt" using P(5) live0 by (auto simp: as_disjoint_def)
  have da: "distinct (area_pages a)" using aok by (simp add: area_ok_def range_list_def range_iter_eq)
  have "\<forall>v\<in>set (area_pages a). map_of (pt_data_frames ?st) v \<noteq> None \<and> map_of (pt_data_frames ?dt) v \<noteq> None"
    using sp by auto
  from clone_pages [OF ms_ok_as_ok [OF P(1)] ms_ok_as_ok [OF P(2)] dj da this]
  obtain m2 where cp: "fold_opt (clone_page src dst1) (area_pages a) m1 = Some m2"
    and ok: "as_ok l r ?st m2" "as_ok l r ?dt m2" and C: "pages_copied ?st ?dt (area_pages a) m1 m2"
    by blast
  have run: "clone_area src a (dst, m) = Some (dst1, m2)"
    using push cp by (simp add: clone_area_def map_area_clone_same [OF aok])
  have "clone_inv l r tr src m0 dst1 m2" by (rule clone_copied [OF src0 a P ok C])
  with that run P(3) c C show ?thesis by (auto simp: pages_copied_def free_frames_def)
qed

lemma clone_areas:
  "clone_inv l r tr src m0 dst m \<Longrightarrow> ms_ok l r tr src m0 \<Longrightarrow> set as \<subseteq> set (ms_areas src) \<Longrightarrow>
   distinct (ms_pages dst @ concat (map area_pages as)) \<Longrightarrow>
   3 * length (concat (map area_pages as)) \<le> card (free_frames l r m) \<Longrightarrow>
   \<exists>dst' m'. fold_opt (clone_area src) as (dst, m) = Some (dst', m') \<and>
     clone_inv l r tr src m0 dst' m' \<and> ms_areas dst' = ms_areas dst @ as"
proof (induction as arbitrary: dst m)
  case Nil
  then show ?case by simp
next
  case (Cons a as)
  have a: "a \<in> set (ms_areas src)" and new: "\<forall>v\<in>set (area_pages a). v \<notin> set (ms_pages dst)"
    and free: "3 * length (area_pages a) \<le> card (free_frames l r m)"
    using Cons.prems(3-5) by auto
  obtain dst1 m1 where run: "clone_area src a (dst, m) = Some (dst1, m1)"
    and inv: "clone_inv l r tr src m0 dst1 m1" and ar: "ms_areas dst1 = ms_areas dst @ [a]"
    and c: "card (free_frames l r m) \<le> card (free_frames l r m1) + 3 * length (area_pages a)"
    by (rule clone_area_step [OF Cons.prems(1,2) a new free])
  have "\<exists>dst' m'. fold_opt (clone_area src) as (dst1, m1) = Some (dst', m') \<and>
      clone_inv l r tr src m0 dst' m' \<and> ms_areas dst' = ms_areas dst1 @ as"
    using Cons.prems(2-5) ar c by (intro Cons.IH [OF inv]) auto
  then show ?case using run ar by auto
qed

text \<open>\<open>clone\<close> of a well-formed space with enough free frames: it returns, the copy is
  well-formed, has the same areas and the same bytes in frames that were free, and no frame that
  was in use changes.\<close>

lemma ms_clone_correct:
  assumes src: "ms_ok l r (stramp div 4096) src m" and al: "stramp mod 4096 = 0" "stramp < 2 ^ 56"
    and free: "3 * length (ms_pages src) + 3 \<le> card (free_frames l r m)"
  shows "\<exists>dst m'. ms_clone stramp src m = Some (dst, m') \<and>
    clone_inv l r (stramp div 4096) src m dst m' \<and> ms_areas dst = ms_areas src"
proof -
  let ?tr = "stramp div 4096" and ?st = "ms_page_table src"
  have inv: "fa_inv l r (km_alloc m)" using src ms_ok_as_ok as_ok_fa_inv by blast
  have c3: "3 \<le> card (free_frames l r m)" using free by simp
  obtain d1 m1 where run: "do { s \<leftarrow> ms_new_bare m; ms_map_trampoline stramp s } = Some (d1, m1)"
    and dok: "ms_ok l r ?tr d1 m1" and ar: "ms_areas d1 = []"
    and c: "card (free_frames l r m) \<le> card (free_frames l r m1) + 3"
    and own: "\<And>f. f \<in> set (pt_owned (ms_page_table d1)) \<Longrightarrow> f \<notin> fa_live l (km_alloc m)"
    and live: "\<And>f. f \<in> fa_live l (km_alloc m) \<Longrightarrow> f \<in> fa_live l (km_alloc m1)"
    and keep: "\<And>f. f \<in> fa_live l (km_alloc m) \<Longrightarrow> km_frames m1 f = km_frames m f"
    by (rule ms_new_trampoline [OF inv c3 al]) (rule that; assumption)
  have sl: "f \<in> fa_live l (km_alloc m)" if "f \<in> set (pt_owned ?st)" for f
    using that ms_ok_as_ok [OF src] by (simp add: as_ok_def)
  have "fa_inv l r (km_alloc m1)" using dok ms_ok_as_ok as_ok_fa_inv by blast
  note s1 = as_ok_cong [OF ms_ok_as_ok [OF src] keep [OF sl] this live [OF sl]]
  have "clone_inv l r ?tr src m d1 m1"
    unfolding clone_inv_def using ms_ok_cong [OF src s1] s1(2) dok live keep own ar by auto
  moreover have "distinct (ms_pages d1 @ ms_pages src)" using src ar by (simp add: ms_ok_def)
  moreover have "3 * length (ms_pages src) \<le> card (free_frames l r m1)" using free c by simp
  ultimately obtain dst m' where cl: "fold_opt (clone_area src) (ms_areas src) (d1, m1) = Some (dst, m')"
    and ci: "clone_inv l r ?tr src m dst m'" and ad: "ms_areas dst = ms_areas src"
    using clone_areas [of l r ?tr src m d1 m1 "ms_areas src"] src ar by auto
  have "ms_clone stramp src m = do { s1 \<leftarrow> (do { s \<leftarrow> ms_new_bare m; ms_map_trampoline stramp s });
      fold_opt (clone_area src) (ms_areas src) s1 }"
    by (cases "ms_new_bare m") (simp_all add: ms_clone_def)
  with run cl ci ad show ?thesis by simp
qed


section \<open>Correctness of address spaces\<close>

lemma map_area_new_ok:
  assumes "start_va \<le> end_va" "end_va \<le> (2 ^ 27 - 1) * 4096" "perm < 2 ^ 8"
  obtains a where "map_area_new start_va end_va Framed perm = Some a" "area_ok a" "map_perm a = perm"
    "area_pages a = [start_va div 4096..<(end_va + 4095) div 4096]"
proof -
  have le: "start_va div 4096 \<le> (end_va + 4095) div 4096" using assms(1) by (intro div_le_mono) simp
  have "(end_va + 4095) div 4096 \<le> ((2 ^ 27 - 1) * 4096 + 4095) div 4096" using assms(2) by (intro div_le_mono) simp
  then have b: "(end_va + 4095) div 4096 < 2 ^ 27" by simp
  show ?thesis
    by (rule that [of "\<lparr>vpn_range = \<lparr>range_start = start_va div 4096, range_end = (end_va + 4095) div 4096\<rparr>,
         map_type = Framed, map_perm = perm\<rparr>"])
      (use le b assms(3) in \<open>simp_all add: map_area_new_def simple_range_new_def as_pn_by_floor_def
         as_pn_by_ceil_div area_ok_def range_list_def range_iter_eq\<close>)
qed

text \<open>A concrete space for examples: the trampoline and one page of user memory.\<close>

lemma boot_trampoline: "(8192 :: nat) mod 4096 = 0" "(8192 :: nat) < 2 ^ 56"
  by simp_all

lemma boot_ms:
  obtains ms m where "ms_ok 16 80 2 ms m" "ms_pages ms = []" "61 \<le> card (free_frames 16 80 m)"
proof -
  have c: "3 \<le> card (free_frames 16 80 boot_mem)" by (simp add: boot_mem_inv)
  obtain ms m where "ms_ok 16 80 (8192 div 4096) ms m" "ms_areas ms = []"
    "card (free_frames 16 80 boot_mem) \<le> card (free_frames 16 80 m) + 3"
    by (rule ms_new_trampoline [OF boot_mem_inv(1) c boot_trampoline]) (rule that; assumption)
  then show ?thesis using that [of ms m] boot_mem_inv(2) by simp
qed

text \<open>Two spaces side by side.\<close>

lemma boot_two_ms:
  obtains ms other m where "ms_ok 16 80 2 ms m" "ms_ok 16 80 2 other m" "ms_pages ms = []"
    "as_disjoint (ms_page_table other) (ms_page_table ms)" "58 \<le> card (free_frames 16 80 m)"
proof -
  obtain other m0 where b: "ms_ok 16 80 2 other m0" "61 \<le> card (free_frames 16 80 m0)" by (rule boot_ms)
  have inv: "fa_inv 16 80 (km_alloc m0)" by (rule as_ok_fa_inv [OF ms_ok_as_ok [OF b(1)]])
  have c: "3 \<le> card (free_frames 16 80 m0)" using b(2) by simp
  obtain ms m where n: "ms_ok 16 80 (8192 div 4096) ms m" "ms_areas ms = []"
    "card (free_frames 16 80 m0) \<le> card (free_frames 16 80 m) + 3"
    and o: "\<And>f. f \<in> set (pt_owned (ms_page_table ms)) \<Longrightarrow> f \<notin> fa_live 16 (km_alloc m0)"
    and k: "\<And>f. f \<in> fa_live 16 (km_alloc m0) \<Longrightarrow> f \<in> fa_live 16 (km_alloc m)"
      "\<And>f. f \<in> fa_live 16 (km_alloc m0) \<Longrightarrow> km_frames m f = km_frames m0 f"
    by (rule ms_new_trampoline [OF inv c boot_trampoline]) (rule that; assumption)
  have live: "f \<in> fa_live 16 (km_alloc m0)" if "f \<in> set (pt_owned (ms_page_table other))" for f
    using that ms_ok_as_ok [OF b(1)] by (simp add: as_ok_def)
  have inv1: "fa_inv 16 80 (km_alloc m)" by (rule as_ok_fa_inv [OF ms_ok_as_ok [OF n(1)]])
  note s = as_ok_cong [OF ms_ok_as_ok [OF b(1)] k(2) [OF live] inv1 k(1) [OF live]]
  show ?thesis
    by (rule that [of ms m other]) (use n b(2) ms_ok_cong [OF b(1) s] o live in \<open>auto simp: as_disjoint_def\<close>)
qed

text \<open>C23. \<open>insert_framed_area\<close> into a well-formed space, over pages no area has and with
  three free frames for each page: it returns a well-formed space in which exactly these pages
  are new, cleared, readable through the given permissions and backed by frames that were free.\<close>

lemma insert_framed_area_correct:
  assumes ok: "ms_ok l r tr ms m" and va: "start_va \<le> end_va" "end_va \<le> (2 ^ 27 - 1) * 4096" "perm < 2 ^ 8"
    and new: "\<forall>v\<in>{start_va div 4096..<(end_va + 4095) div 4096}. v \<notin> set (ms_pages ms)"
    and free: "3 * ((end_va + 4095) div 4096 - start_va div 4096) \<le> card (free_frames l r m)"
  shows "\<exists>ms' m'. ms_insert_framed_area start_va end_va perm (ms, m) = Some (ms', m') \<and> ms_ok l r tr ms' m' \<and>
    set (ms_pages ms') = set (ms_pages ms) \<union> {start_va div 4096..<(end_va + 4095) div 4096} \<and>
    (\<forall>v\<in>{start_va div 4096..<(end_va + 4095) div 4096}. \<exists>f.
       pt_abs (ms_page_table ms') m' v = Some (f, perm OR PTE_V) \<and> f \<notin> fa_live l (km_alloc m) \<and>
       km_frames m' f = replicate 4096 0)"
proof -
  obtain a where a: "map_area_new start_va end_va Framed perm = Some a" "area_ok a" "map_perm a = perm"
    "area_pages a = [start_va div 4096..<(end_va + 4095) div 4096]" by (rule map_area_new_ok [OF va])
  obtain ms' m' where push: "ms_push a None (ms, m) = Some (ms', m')"
    using ms_push_total [OF ok a(2)] new free a(4) by auto
  note p = ms_push_framed [OF ok a(2) push]
  have "\<forall>v\<in>set (area_pages a). \<exists>f. pt_abs (ms_page_table ms') m' v = Some (f, perm OR PTE_V) \<and>
      f \<notin> fa_live l (km_alloc m) \<and> km_frames m' f = replicate 4096 0"
    using p(4) a(3) unfolding framed_pages_def by metis
  with push p(1,2) a show ?thesis by (auto simp: ms_insert_framed_area_def)
qed

lemma insert_framed_area_witness:
  "\<exists>ms m ms' m' f. ms_ok 16 80 2 ms m \<and> ms_insert_framed_area 0x10000 0x12000 22 (ms, m) = Some (ms', m') \<and>
     pt_abs (ms_page_table ms') m' 17 = Some (f, 23) \<and> km_frames m' f = replicate 4096 0"
proof -
  obtain ms m where b: "ms_ok 16 80 2 ms m" "ms_pages ms = []" "61 \<le> card (free_frames 16 80 m)" by (rule boot_ms)
  have fl: "22 OR PTE_V = 23" by (simp add: PTE_V_def)
  have "\<exists>ms' m'. ms_insert_framed_area 0x10000 0x12000 22 (ms, m) = Some (ms', m') \<and>
      (\<forall>v\<in>{0x10000 div 4096..<(0x12000 + 4095) div 4096}. \<exists>f.
       pt_abs (ms_page_table ms') m' v = Some (f, 22 OR PTE_V) \<and> f \<notin> fa_live 16 (km_alloc m) \<and>
       km_frames m' f = replicate 4096 0)"
    using insert_framed_area_correct [OF b(1), of "0x10000" "0x12000" 22] b(2,3) by auto
  then obtain ms' m' where i: "ms_insert_framed_area 0x10000 0x12000 22 (ms, m) = Some (ms', m')"
    "\<forall>v\<in>{0x10000 div 4096..<(0x12000 + 4095) div 4096}. \<exists>f.
       pt_abs (ms_page_table ms') m' v = Some (f, 22 OR PTE_V) \<and> f \<notin> fa_live 16 (km_alloc m) \<and>
       km_frames m' f = replicate 4096 0" by blast
  have "17 \<in> {0x10000 div 4096..<(0x12000 + 4095) div (4096 :: nat)}" by simp
  with i fl b(1) show ?thesis by metis
qed

text \<open>C2. Isolation: adding an area to one address space changes neither the mapping of another
  space with disjoint frames nor any byte of its frames, and the spaces stay disjoint.\<close>

lemma address_space_isolation:
  assumes "ms_ok l r tr ms m" "area_ok a" "ms_push a None (ms, m) = Some (ms', m')"
    and "ms_ok l r tr' other m" "as_disjoint (ms_page_table other) (ms_page_table ms)"
  shows "ms_ok l r tr' other m' \<and> as_disjoint (ms_page_table other) (ms_page_table ms') \<and>
    pt_abs (ms_page_table other) m' = pt_abs (ms_page_table other) m \<and>
    (\<forall>f\<in>set (pt_owned (ms_page_table other)). km_frames m' f = km_frames m f)"
proof -
  note iso = as_grown_isolated [OF ms_push_framed(3) [OF assms(1-3)] ms_ok_as_ok [OF assms(4)] assms(5)]
  then show ?thesis using ms_ok_cong [OF assms(4) iso(1,3)] by simp
qed

lemma address_space_isolation_witness:
  "\<exists>ms other m a ms' m'. ms_push a None (ms, m) = Some (ms', m') \<and> area_pages a = [16] \<and>
     ms_ok 16 80 2 other m' \<and> as_disjoint (ms_page_table other) (ms_page_table ms')"
proof -
  obtain ms other m where b: "ms_ok 16 80 2 ms m" "ms_ok 16 80 2 other m" "ms_pages ms = []"
    "as_disjoint (ms_page_table other) (ms_page_table ms)" "58 \<le> card (free_frames 16 80 m)" by (rule boot_two_ms)
  obtain a where a: "area_ok a" "area_pages a = [0x10000 div 4096..<(0x11000 + 4095) div 4096]"
    by (rule map_area_new_ok [of "0x10000" "0x11000" 22]) simp_all
  then have p: "area_pages a = [16]" by simp
  obtain ms' m' where push: "ms_push a None (ms, m) = Some (ms', m')"
    using ms_push_total [OF b(1) a(1)] b(3,5) p by auto
  from address_space_isolation [OF b(1) a(1) push b(2,4)] push p show ?thesis by blast
qed

text \<open>C1. \<open>MemorySet::clone\<close>, the copy \<open>fork\<close> makes: with enough free frames it returns a
  well-formed space with the same areas, every page of which has the bytes and the permissions
  of the original page; the frames of the copy were free, the original space is unchanged and
  no frame in use before is written.\<close>

lemma clone_copies_space:
  assumes "ms_ok l r (stramp div 4096) src m" "stramp mod 4096 = 0" "stramp < 2 ^ 56"
    and "3 * length (ms_pages src) + 3 \<le> card (free_frames l r m)"
  shows "\<exists>dst m'. ms_clone stramp src m = Some (dst, m') \<and> ms_ok l r (stramp div 4096) dst m' \<and>
    ms_ok l r (stramp div 4096) src m' \<and> ms_areas dst = ms_areas src \<and>
    as_disjoint (ms_page_table src) (ms_page_table dst) \<and>
    (\<forall>v\<in>set (ms_pages src). user_page dst m' v = user_page src m v) \<and>
    (\<forall>f\<in>fa_live l (km_alloc m). km_frames m' f = km_frames m f)"
proof -
  obtain dst m' where "ms_clone stramp src m = Some (dst, m')" "ms_areas dst = ms_areas src"
    and c: "clone_inv l r (stramp div 4096) src m dst m'"
    using ms_clone_correct [OF assms] by blast
  with clone_inv_disjoint [OF c ms_ok_as_ok [OF assms(1)]] show ?thesis
    by (simp add: clone_inv_def)
qed

lemma clone_copies_space_witness:
  "\<exists>src m dst m' b. ms_ok 16 80 2 src m \<and> ms_pages src = [16] \<and> ms_clone 8192 src m = Some (dst, m') \<and>
     user_page dst m' 16 = user_page src m 16 \<and> user_page src m 16 = Some b"
proof -
  obtain ms m0 where b: "ms_ok 16 80 2 ms m0" "ms_pages ms = []" "61 \<le> card (free_frames 16 80 m0)" by (rule boot_ms)
  obtain a where a: "area_ok a" "area_pages a = [0x10000 div 4096..<(0x11000 + 4095) div 4096]"
    by (rule map_area_new_ok [of "0x10000" "0x11000" 22]) simp_all
  then have p: "area_pages a = [16]" by simp
  obtain src m where push: "ms_push a None (ms, m0) = Some (src, m)"
    and c: "card (free_frames 16 80 m0) \<le> card (free_frames 16 80 m) + 3"
    using ms_push_total [OF b(1) a(1)] b(2,3) p by auto
  note f = ms_push_framed [OF b(1) a(1) push]
  have pg: "ms_pages src = [16]" using f(2) b(2) p by simp
  obtain fr where "pt_abs (ms_page_table src) m 16 = Some (fr, map_perm a OR PTE_V)"
    using f(4) p by (auto simp: framed_pages_def)
  then have u: "user_page src m 16 = Some (km_frames m fr, map_perm a OR PTE_V)" by (simp add: user_page_def)
  obtain dst m' where "ms_clone 8192 src m = Some (dst, m')" "user_page dst m' 16 = user_page src m 16"
    using clone_copies_space [of 16 80 8192 src m] f(1) pg c b(3) by auto
  with f(1) pg u show ?thesis by blast
qed

text \<open>C26. Dropping the page table of a space never panics and gives every frame of the space,
  data and table pages, back to the allocator, and no other frame.\<close>

lemma drop_returns_frames:
  assumes "ms_ok l r tr ms m"
  shows "\<exists>m'. pt_drop (ms_page_table ms) m = Some m' \<and>
    fa_live l (km_alloc m') = fa_live l (km_alloc m) - set (pt_owned (ms_page_table ms))"
  using as_drop [OF ms_ok_as_ok [OF assms]] by blast

lemma drop_returns_frames_witness:
  "\<exists>ms m m'. ms_ok 16 80 2 ms m \<and> pt_drop (ms_page_table ms) m = Some m' \<and>
     fa_live 16 (km_alloc m') = fa_live 16 (km_alloc m) - set (pt_owned (ms_page_table ms))"
proof -
  obtain ms m where "ms_ok 16 80 2 ms m" by (rule boot_ms)
  with drop_returns_frames [of 16 80 2 ms m] show ?thesis by blast
qed

end
