(* ===== verification/Pipe.thy ===== *)
theory Pipe
  imports Prelude
begin

text \<open>
  Pipes: \<open>kernel/src/fs/pipe.rs\<close>. The ring buffer with its head, tail and status, the
  read and write ends, and the two loops of \<open>File for Pipe\<close>. A pass of such a loop runs
  with interrupts masked and ends by returning, by going round again, or by giving up the
  processor (\<open>suspend_current_and_run_next\<close>); \<open>pipe_step\<close> interleaves the passes of a
  reader and a writer in any order. The interface locale \<open>byte_fifo\<close> is what the loops
  need of the buffer.
\<close>

section \<open>The ring buffer\<close>

definition RING_BUFFER_SIZE :: nat where "RING_BUFFER_SIZE = 32"

datatype ring_status = Full | Empty | Normal

text \<open>
  \<open>write_end\<close> is a weak pointer to the write end; it is modelled by an identifier whose
  liveness (strong count above zero) the environment supplies as \<open>alive\<close>.
\<close>

record ring =
  rb_arr :: "u8 list"
  rb_head :: nat
  rb_tail :: nat
  rb_status :: ring_status
  rb_write_end :: "nat option"

definition ring_new :: ring where
  "ring_new = \<lparr>rb_arr = replicate RING_BUFFER_SIZE 0, rb_head = 0, rb_tail = 0,
     rb_status = Empty, rb_write_end = None\<rparr>"

definition set_write_end :: "nat \<Rightarrow> ring \<Rightarrow> ring" where
  "set_write_end w rb = rb\<lparr>rb_write_end := Some w\<rparr>"

definition write_byte :: "u8 \<Rightarrow> ring \<Rightarrow> ring" where
  "write_byte byte rb =
    (let rb1 = rb\<lparr>rb_status := Normal\<rparr>;
         rb2 = rb1\<lparr>rb_arr := (rb_arr rb1)[rb_tail rb1 := byte]\<rparr>;
         rb3 = rb2\<lparr>rb_tail := (rb_tail rb2 + 1) mod RING_BUFFER_SIZE\<rparr>
     in if rb_tail rb3 = rb_head rb3 then rb3\<lparr>rb_status := Full\<rparr> else rb3)"

definition read_byte :: "ring \<Rightarrow> u8 \<times> ring" where
  "read_byte rb =
    (let rb1 = rb\<lparr>rb_status := Normal\<rparr>;
         c = rb_arr rb1 ! rb_head rb1;
         rb2 = rb1\<lparr>rb_head := (rb_head rb1 + 1) mod RING_BUFFER_SIZE\<rparr>
     in (c, if rb_head rb2 = rb_tail rb2 then rb2\<lparr>rb_status := Empty\<rparr> else rb2))"

definition available_to_read :: "ring \<Rightarrow> nat" where
  "available_to_read rb =
    (if rb_status rb = Empty then 0
     else if rb_tail rb > rb_head rb then rb_tail rb - rb_head rb
     else rb_tail rb + RING_BUFFER_SIZE - rb_head rb)"

definition available_to_write :: "ring \<Rightarrow> nat" where
  "available_to_write rb =
    (if rb_status rb = Full then 0 else RING_BUFFER_SIZE - available_to_read rb)"

definition all_write_ends_closed :: "(nat \<Rightarrow> bool) \<Rightarrow> ring \<Rightarrow> bool option" where
  "all_write_ends_closed alive rb = do { w \<leftarrow> rb_write_end rb; Some (\<not> alive w) }"

section \<open>The ends of a pipe and their loops\<close>

record pipe =
  pipe_readable :: bool
  pipe_writable :: bool

definition read_end_with_buffer :: pipe where
  "read_end_with_buffer = \<lparr>pipe_readable = True, pipe_writable = False\<rparr>"

definition write_end_with_buffer :: pipe where
  "write_end_with_buffer = \<lparr>pipe_readable = False, pipe_writable = True\<rparr>"

text \<open>\<open>pipe::make\<close>: both ends share one buffer, whose weak pointer names the write end.\<close>

definition pipe_make :: "nat \<Rightarrow> pipe \<times> pipe \<times> ring" where
  "pipe_make w = (read_end_with_buffer, write_end_with_buffer, set_write_end w ring_new)"

datatype pass = Return | Again | Suspend

text \<open>
  The inner \<open>for\<close> loops. \<open>got\<close> are the bytes stored through the buffer iterator so far
  (its position is \<open>length got\<close>), \<open>k\<close> the number of bytes taken from it; the first
  component says whether the loop returned from the function.
\<close>

fun read_loop :: "('q \<Rightarrow> u8 \<times> 'q) \<Rightarrow> nat \<Rightarrow> nat \<Rightarrow> u8 list \<Rightarrow> 'q \<Rightarrow> bool \<times> u8 list \<times> 'q" where
  "read_loop rd 0 want got q = (False, got, q)"
| "read_loop rd (Suc n) want got q =
     (if length got < want
      then (case rd q of (c, q') \<Rightarrow>
        if length (got @ [c]) = want then (True, got @ [c], q')
        else read_loop rd n want (got @ [c]) q')
      else (True, got, q))"

fun write_loop :: "(u8 \<Rightarrow> 'q \<Rightarrow> 'q) \<Rightarrow> nat \<Rightarrow> u8 list \<Rightarrow> nat \<Rightarrow> 'q \<Rightarrow> bool \<times> nat \<times> 'q" where
  "write_loop wr 0 buf k q = (False, k, q)"
| "write_loop wr (Suc n) buf k q =
     (if k < length buf
      then (if k + 1 = length buf then (True, k + 1, wr (buf ! k) q)
            else write_loop wr n buf (k + 1) (wr (buf ! k) q))
      else (True, k, q))"

text \<open>One pass of the outer \<open>loop\<close> of \<open>read\<close> and of \<open>write\<close>.\<close>

definition pipe_read_pass ::
  "(nat \<Rightarrow> bool) \<Rightarrow> nat \<Rightarrow> u8 list \<Rightarrow> ring \<Rightarrow> (pass \<times> u8 list \<times> ring) option" where
  "pipe_read_pass alive want got rb =
     (if available_to_read rb = 0 then do {
        closed \<leftarrow> all_write_ends_closed alive rb;
        Some (if closed then Return else Suspend, got, rb)
      } else (case read_loop read_byte (available_to_read rb) want got rb of
        (returned, got', rb') \<Rightarrow> Some (if returned then Return else Again, got', rb')))"

definition pipe_write_pass :: "u8 list \<Rightarrow> nat \<Rightarrow> ring \<Rightarrow> pass \<times> nat \<times> ring" where
  "pipe_write_pass buf k rb =
     (if available_to_write rb = 0 then (Suspend, k, rb)
      else (case write_loop write_byte (available_to_write rb) buf k rb of
        (returned, k', rb') \<Rightarrow> (if returned then Return else Again, k', rb')))"

section \<open>The interface between the loops and the buffer\<close>

locale byte_fifo =
  fixes items :: "'q \<Rightarrow> u8 list"
    and inv :: "'q \<Rightarrow> bool"
    and rd :: "'q \<Rightarrow> u8 \<times> 'q"
    and wr :: "u8 \<Rightarrow> 'q \<Rightarrow> 'q"
    and cap :: nat
  assumes rd_items: "inv q \<Longrightarrow> items q = x # xs \<Longrightarrow> fst (rd q) = x \<and> items (snd (rd q)) = xs"
    and rd_inv: "inv q \<Longrightarrow> items q \<noteq> [] \<Longrightarrow> inv (snd (rd q))"
    and wr_items: "inv q \<Longrightarrow> length (items q) < cap \<Longrightarrow> items (wr b q) = items q @ [b]"
    and wr_inv: "inv q \<Longrightarrow> length (items q) < cap \<Longrightarrow> inv (wr b q)"
begin

text \<open>The read loop moves a prefix of the queue to the end of the caller's buffer.\<close>

lemma read_loop_fifo:
  "inv q \<Longrightarrow> n \<le> length (items q) \<Longrightarrow> length got \<le> want \<Longrightarrow>
   read_loop rd n want got q = (r, got', q') \<Longrightarrow>
   inv q' \<and> got' @ items q' = got @ items q \<and> length got' = min want (length got + n) \<and>
   (r \<longleftrightarrow> 0 < n \<and> want \<le> length got + n)"
proof (induction n arbitrary: got q)
  case 0
  then show ?case by simp
next
  case (Suc n)
  obtain x xs where q: "items q = x # xs" using Suc.prems(2) by (cases "items q") auto
  obtain c p where cp: "rd q = (c, p)" by force
  have p: "c = x" "items p = xs" "inv p"
    using rd_items [OF Suc.prems(1) q] rd_inv [OF Suc.prems(1)] q cp by auto
  consider "want = length got" | "want = Suc (length got)" | "Suc (length got) < want"
    using Suc.prems(3) by linarith
  then show ?case
  proof cases
    case 1
    with Suc.prems show ?thesis by auto
  next
    case 2
    with Suc.prems cp p q show ?thesis by auto
  next
    case 3
    with Suc.prems cp have "read_loop rd n want (got @ [c]) p = (r, got', q')" by auto
    from Suc.IH [OF p(3) _ _ this] 3 Suc.prems(2) p q show ?thesis by auto
  qed
qed

text \<open>The write loop appends a segment of the caller's bytes to the queue.\<close>

lemma write_loop_fifo:
  "inv q \<Longrightarrow> n + length (items q) \<le> cap \<Longrightarrow> k \<le> length buf \<Longrightarrow>
   write_loop wr n buf k q = (r, k', q') \<Longrightarrow>
   inv q' \<and> k \<le> k' \<and> items q' = items q @ take (k' - k) (drop k buf) \<and>
   k' = min (length buf) (k + n) \<and> (r \<longleftrightarrow> 0 < n \<and> length buf \<le> k + n)"
proof (induction n arbitrary: k q)
  case 0
  then show ?case by simp
next
  case (Suc n)
  let ?p = "wr (buf ! k) q"
  have p: "items ?p = items q @ [buf ! k]" "inv ?p"
    using wr_items [OF Suc.prems(1)] wr_inv [OF Suc.prems(1)] Suc.prems(2) by auto
  consider "k = length buf" | "Suc k = length buf" | "Suc k < length buf"
    using Suc.prems(3) by linarith
  then show ?case
  proof cases
    case 1
    with Suc.prems show ?thesis by auto
  next
    case 2
    with Suc.prems p show ?thesis by (auto simp: Cons_nth_drop_Suc [symmetric])
  next
    case 3
    with Suc.prems have "write_loop wr n buf (k + 1) ?p = (r, k', q')" by auto
    from Suc.IH [OF p(2) _ _ this] 3 Suc.prems(2) p
    have ih: "inv q'" "Suc k \<le> k'" "items q' = items q @ buf ! k # take (k' - Suc k) (drop (Suc k) buf)"
      "k' = min (length buf) (Suc k + n)" "r \<longleftrightarrow> 0 < n \<and> length buf \<le> Suc k + n" by auto
    moreover have "take (k' - k) (drop k buf) = buf ! k # take (k' - Suc k) (drop (Suc k) buf)"
      using 3 ih(2) by (simp add: Cons_nth_drop_Suc [symmetric] take_Cons')
    ultimately show ?thesis using 3 by auto
  qed
qed

end

section \<open>The ring buffer is a bounded queue\<close>

definition ring_inv :: "ring \<Rightarrow> bool" where
  "ring_inv rb \<longleftrightarrow> length (rb_arr rb) = 32 \<and> rb_head rb < 32 \<and> rb_tail rb < 32 \<and>
     (rb_status rb = Normal \<longleftrightarrow> rb_head rb \<noteq> rb_tail rb)"

definition ring_items :: "ring \<Rightarrow> u8 list" where
  "ring_items rb = map (\<lambda>i. rb_arr rb ! ((rb_head rb + i) mod 32)) [0..<available_to_read rb]"

lemma length_ring_items [simp]: "length (ring_items rb) = available_to_read rb"
  by (simp add: ring_items_def)

lemma ring_new_inv [simp]: "ring_inv (set_write_end w ring_new)" "ring_items (set_write_end w ring_new) = []"
  by (simp_all add: ring_inv_def ring_items_def set_write_end_def ring_new_def
      RING_BUFFER_SIZE_def available_to_read_def)

lemma available_bounds:
  assumes "ring_inv rb"
  shows "available_to_read rb \<le> 32" "available_to_write rb = 32 - available_to_read rb"
  using assms by (cases "rb_status rb"; auto simp: ring_inv_def available_to_read_def
      available_to_write_def RING_BUFFER_SIZE_def)+

lemma available_read_byte:
  "ring_inv rb \<Longrightarrow> 0 < available_to_read rb \<Longrightarrow>
   available_to_read (snd (read_byte rb)) = available_to_read rb - 1"
  by (cases "rb_status rb"; auto simp: ring_inv_def available_to_read_def read_byte_def
      RING_BUFFER_SIZE_def Let_def mod_Suc)

lemma available_write_byte:
  "ring_inv rb \<Longrightarrow> available_to_read rb < 32 \<Longrightarrow>
   available_to_read (write_byte b rb) = available_to_read rb + 1"
  by (cases "rb_status rb"; auto simp: ring_inv_def available_to_read_def write_byte_def
      RING_BUFFER_SIZE_def Let_def mod_Suc)

text \<open>The tail is the first free slot after the stored bytes.\<close>

lemma ring_tail_pos:
  "ring_inv rb \<Longrightarrow> rb_tail rb = (rb_head rb + available_to_read rb) mod 32"
  by (cases "rb_status rb"; auto simp: ring_inv_def available_to_read_def RING_BUFFER_SIZE_def)

lemma ring_inv_read_byte: "ring_inv rb \<Longrightarrow> ring_inv (snd (read_byte rb))"
  by (auto simp: ring_inv_def read_byte_def RING_BUFFER_SIZE_def Let_def)

lemma ring_inv_write_byte: "ring_inv rb \<Longrightarrow> ring_inv (write_byte b rb)"
  by (auto simp: ring_inv_def write_byte_def RING_BUFFER_SIZE_def Let_def)

lemma ring_items_read_byte:
  assumes "ring_inv rb" "0 < available_to_read rb"
  shows "ring_items rb = fst (read_byte rb) # ring_items (snd (read_byte rb))"
proof -
  obtain n where n: "available_to_read rb = Suc n" using assms(2) gr0_implies_Suc by blast
  have h: "rb_head (snd (read_byte rb)) = (rb_head rb + 1) mod 32"
    "rb_arr (snd (read_byte rb)) = rb_arr rb" "fst (read_byte rb) = rb_arr rb ! rb_head rb"
    by (simp_all add: read_byte_def Let_def RING_BUFFER_SIZE_def)
  have "rb_head rb mod 32 = rb_head rb" using assms(1) by (simp add: ring_inv_def)
  moreover have "((rb_head rb + 1) mod 32 + i) mod 32 = (rb_head rb + Suc i) mod 32" for i
    by (simp add: mod_add_left_eq)
  ultimately show ?thesis
    using available_read_byte [OF assms] n h
    by (simp add: ring_items_def map_upt_Suc del: upt_Suc)
qed

lemma ring_slots_distinct:
  assumes "i < n" "n < 32"
  shows "(h + i) mod 32 \<noteq> (h + n) mod (32 :: nat)"
proof
  assume "(h + i) mod 32 = (h + n) mod 32"
  then have "32 dvd (h + n) - (h + i)" using assms mod_eq_dvd_iff_nat [of "h + i" "h + n" 32] by simp
  then have "32 \<le> n - i" using assms(1) by (auto dest: dvd_imp_le)
  with assms(2) show False by simp
qed

lemma ring_items_write_byte:
  assumes "ring_inv rb" "available_to_read rb < 32"
  shows "ring_items (write_byte b rb) = ring_items rb @ [b]"
proof -
  have w: "rb_head (write_byte b rb) = rb_head rb"
    "rb_arr (write_byte b rb) = (rb_arr rb)[rb_tail rb := b]"
    by (simp_all add: write_byte_def Let_def)
  have ne: "(rb_head rb + i) mod 32 \<noteq> rb_tail rb" if "i < available_to_read rb" for i
    using ring_slots_distinct that assms(2) ring_tail_pos [OF assms(1)] by metis
  have len: "rb_tail rb < length (rb_arr rb)" using assms(1) by (simp add: ring_inv_def)
  have "ring_items (write_byte b rb) =
      map (\<lambda>i. (rb_arr rb)[rb_tail rb := b] ! ((rb_head rb + i) mod 32)) [0..<available_to_read rb]
      @ [(rb_arr rb)[rb_tail rb := b] ! ((rb_head rb + available_to_read rb) mod 32)]"
    by (simp add: ring_items_def w available_write_byte [OF assms])
  also have "map (\<lambda>i. (rb_arr rb)[rb_tail rb := b] ! ((rb_head rb + i) mod 32))
      [0..<available_to_read rb] = ring_items rb"
    unfolding ring_items_def by (rule map_cong) (auto simp: ne [THEN not_sym])
  also have "(rb_arr rb)[rb_tail rb := b] ! ((rb_head rb + available_to_read rb) mod 32) = b"
    using len ring_tail_pos [OF assms(1)] by simp
  finally show ?thesis .
qed

lemma ring_slot_empty: "ring_inv rb \<Longrightarrow> items = x # xs \<Longrightarrow> ring_items rb = items \<Longrightarrow> 0 < available_to_read rb"
  using length_ring_items [of rb] by simp

interpretation ring_fifo: byte_fifo ring_items ring_inv read_byte write_byte 32
proof (unfold_locales, goal_cases)
  case (1 q x xs)
  then show ?case using ring_items_read_byte [OF 1(1) ring_slot_empty [OF 1(1) refl 1(2)]] by simp
next
  case (2 q)
  then show ?case by (simp add: ring_inv_read_byte)
next
  case (3 q b)
  then show ?case by (simp add: ring_items_write_byte)
next
  case (4 q b)
  then show ?case by (simp add: ring_inv_write_byte)
qed

lemma pipe_read_pass_fifo:
  assumes "ring_inv rb" "length got \<le> want" "pipe_read_pass alive want got rb = Some (p, got', rb')"
  shows "ring_inv rb'" "got' @ ring_items rb' = got @ ring_items rb" "length got' \<le> want"
    "p = Return \<Longrightarrow> length got' < want \<Longrightarrow>
       ring_items rb' = [] \<and> (\<exists>w. rb_write_end rb = Some w \<and> \<not> alive w)"
    "p = Again \<Longrightarrow> ring_items rb' = []"
proof -
  have "ring_inv rb' \<and> got' @ ring_items rb' = got @ ring_items rb \<and> length got' \<le> want \<and>
    (p = Return \<longrightarrow> length got' < want \<longrightarrow>
       ring_items rb' = [] \<and> (\<exists>w. rb_write_end rb = Some w \<and> \<not> alive w)) \<and>
    (p = Again \<longrightarrow> ring_items rb' = [])"
  proof (cases "available_to_read rb = 0")
    case True
    then have "ring_items rb = []" by (simp add: ring_items_def)
    with True assms show ?thesis
      by (auto simp: pipe_read_pass_def all_write_ends_closed_def bind_eq_Some_conv split: if_splits)
  next
    case False
    then obtain r where r: "read_loop read_byte (available_to_read rb) want got rb = (r, got', rb')"
      and p: "p = (if r then Return else Again)"
      using assms(3) by (auto simp: pipe_read_pass_def split: prod.splits)
    from ring_fifo.read_loop_fifo [OF assms(1) _ assms(2) r] False
    have l: "ring_inv rb' \<and> got' @ ring_items rb' = got @ ring_items rb"
      "length got' = min want (length got + available_to_read rb)"
      "r \<longleftrightarrow> want \<le> length got + available_to_read rb" by auto
    have "length got' + length (ring_items rb') = length got + available_to_read rb"
      using l(1) by (metis length_append length_ring_items)
    with l p show ?thesis by (auto simp del: length_ring_items)
  qed
  then show "ring_inv rb'" "got' @ ring_items rb' = got @ ring_items rb" "length got' \<le> want"
    "p = Return \<Longrightarrow> length got' < want \<Longrightarrow>
       ring_items rb' = [] \<and> (\<exists>w. rb_write_end rb = Some w \<and> \<not> alive w)"
    "p = Again \<Longrightarrow> ring_items rb' = []" by auto
qed

lemma pipe_write_pass_fifo:
  assumes "ring_inv rb" "k \<le> length buf" "pipe_write_pass buf k rb = (p, k', rb')"
  shows "ring_inv rb'" "k \<le> k'" "k' \<le> length buf"
    "ring_items rb' = ring_items rb @ take (k' - k) (drop k buf)" "p = Return \<Longrightarrow> k' = length buf"
proof -
  have "ring_inv rb' \<and> k \<le> k' \<and> k' \<le> length buf \<and>
    ring_items rb' = ring_items rb @ take (k' - k) (drop k buf) \<and> (p = Return \<longrightarrow> k' = length buf)"
  proof (cases "available_to_write rb = 0")
    case True
    with assms show ?thesis by (auto simp: pipe_write_pass_def)
  next
    case False
    then obtain r where r: "write_loop write_byte (available_to_write rb) buf k rb = (r, k', rb')"
      and p: "p = (if r then Return else Again)"
      using assms(3) by (auto simp: pipe_write_pass_def split: prod.splits)
    have c: "available_to_write rb + length (ring_items rb) \<le> 32"
      using available_bounds [OF assms(1)] by simp
    from ring_fifo.write_loop_fifo [OF assms(1) c assms(2) r] p show ?thesis by auto
  qed
  then show "ring_inv rb'" "k \<le> k'" "k' \<le> length buf"
    "ring_items rb' = ring_items rb @ take (k' - k) (drop k buf)" "p = Return \<Longrightarrow> k' = length buf"
    by auto
qed

section \<open>Readers and writers interleaved\<close>

text \<open>
  A system of one pipe: the buffer, whether the write end is still held by someone, the
  read and the write in progress, and, as history, the bytes accepted by the write calls
  (\<open>ps_sent\<close>) and the bytes stored by the read calls (\<open>ps_recv\<close>) so far. Each call
  proceeds pass by pass; after a pass that suspends or goes round, any other step may
  come first.
\<close>

record pipe_sys =
  ps_ring :: ring
  ps_open :: bool
  ps_reader :: "(nat \<times> u8 list) option"
  ps_writer :: "(u8 list \<times> nat) option"
  ps_sent :: "u8 list"
  ps_recv :: "u8 list"
  ps_short :: bool \<comment> \<open>some read returned fewer bytes than it wanted\<close>

definition pipe_init :: pipe_sys where
  "pipe_init = \<lparr>ps_ring = snd (snd (pipe_make 0)), ps_open = True, ps_reader = None,
     ps_writer = None, ps_sent = [], ps_recv = [], ps_short = False\<rparr>"

inductive pipe_step :: "pipe_sys \<Rightarrow> pipe_sys \<Rightarrow> bool" where
  call_write: "ps_writer s = None \<Longrightarrow> ps_open s \<Longrightarrow> pipe_step s (s\<lparr>ps_writer := Some (buf, 0)\<rparr>)"
| call_read: "ps_reader s = None \<Longrightarrow> pipe_step s (s\<lparr>ps_reader := Some (want, [])\<rparr>)"
| drop_write_end: "ps_writer s = None \<Longrightarrow> ps_open s \<Longrightarrow> pipe_step s (s\<lparr>ps_open := False\<rparr>)"
| write_pass: "ps_writer s = Some (buf, k) \<Longrightarrow> pipe_write_pass buf k (ps_ring s) = (p, k', rb) \<Longrightarrow>
    pipe_step s (s\<lparr>ps_ring := rb, ps_sent := ps_sent s @ take (k' - k) (drop k buf),
      ps_writer := (if p = Return then None else Some (buf, k'))\<rparr>)"
| read_pass: "ps_reader s = Some (want, got) \<Longrightarrow>
    pipe_read_pass (\<lambda>_. ps_open s) want got (ps_ring s) = Some (p, got', rb) \<Longrightarrow>
    pipe_step s (s\<lparr>ps_ring := rb, ps_recv := ps_recv s @ drop (length got) got',
      ps_reader := (if p = Return then None else Some (want, got')),
      ps_short := (ps_short s \<or> p = Return \<and> length got' < want)\<rparr>)"

inductive pipe_reach :: "pipe_sys \<Rightarrow> bool" where
  init: "pipe_reach pipe_init"
| step: "pipe_reach s \<Longrightarrow> pipe_step s t \<Longrightarrow> pipe_reach t"

text \<open>No byte is lost, duplicated or reordered; a short read means the end of the stream.\<close>

definition pipe_inv :: "pipe_sys \<Rightarrow> bool" where
  "pipe_inv s \<longleftrightarrow> ring_inv (ps_ring s) \<and> ps_sent s = ps_recv s @ ring_items (ps_ring s) \<and>
     (\<forall>want got. ps_reader s = Some (want, got) \<longrightarrow> length got \<le> want) \<and>
     (\<forall>buf k. ps_writer s = Some (buf, k) \<longrightarrow> k \<le> length buf \<and> ps_open s) \<and>
     (ps_short s \<longrightarrow> \<not> ps_open s \<and> ring_items (ps_ring s) = [])"

lemma pipe_inv_init: "pipe_inv pipe_init"
  by (simp add: pipe_inv_def pipe_init_def pipe_make_def)

lemma read_pass_prefix:
  assumes "ring_inv rb" "length got \<le> want" "pipe_read_pass alive want got rb = Some (p, got', rb')"
  shows "drop (length got) got' @ ring_items rb' = ring_items rb"
proof -
  have "drop (length got) (got' @ ring_items rb') = ring_items rb"
    by (simp add: pipe_read_pass_fifo(2) [OF assms])
  moreover have "length got \<le> length got'"
    using assms(2,3) ring_fifo.read_loop_fifo [OF assms(1) order.refl assms(2)]
    by (auto simp: pipe_read_pass_def all_write_ends_closed_def bind_eq_Some_conv
        split: if_splits prod.splits)
  ultimately show ?thesis by simp
qed

lemma pipe_inv_step: "pipe_step s t \<Longrightarrow> pipe_inv s \<Longrightarrow> pipe_inv t"
proof (induction rule: pipe_step.induct)
  case (call_write s buf)
  then show ?case by (simp add: pipe_inv_def)
next
  case (call_read s want)
  then show ?case by (simp add: pipe_inv_def)
next
  case (drop_write_end s)
  then show ?case by (simp add: pipe_inv_def)
next
  case (write_pass s buf k p k' rb)
  then have "ring_inv (ps_ring s)" "k \<le> length buf" by (auto simp: pipe_inv_def)
  from pipe_write_pass_fifo [OF this write_pass(2)] write_pass show ?case
    by (auto simp: pipe_inv_def)
next
  case (read_pass s want got p got' rb)
  then have i: "ring_inv (ps_ring s)" "length got \<le> want" by (auto simp: pipe_inv_def)
  note f = pipe_read_pass_fifo(1,3,4) [OF i read_pass(2)] read_pass_prefix [OF i read_pass(2)]
  have "ring_items (ps_ring s) = [] \<Longrightarrow> ring_items rb = []" using f(4) by simp
  with f read_pass(1,3) show ?case by (simp add: pipe_inv_def)
qed

lemma pipe_reach_inv: "pipe_reach s \<Longrightarrow> pipe_inv s"
  by (induction rule: pipe_reach.induct) (rule pipe_inv_init, erule pipe_inv_step)


section \<open>Correctness of pipes\<close>

text \<open>C4. In every interleaving of reads, writes and the closing of the write end, the bytes the
  readers got followed by at most 32 bytes in the buffer are the bytes the writers wrote, in
  order: nothing is lost, duplicated or reordered.\<close>

lemma pipe_is_fifo:
  assumes "pipe_reach s"
  shows "ps_sent s = ps_recv s @ ring_items (ps_ring s) \<and> length (ring_items (ps_ring s)) \<le> RING_BUFFER_SIZE"
  using pipe_reach_inv [OF assms] available_bounds [of "ps_ring s"]
  by (simp add: pipe_inv_def RING_BUFFER_SIZE_def)

lemma ring_example:
  defines "rb \<equiv> \<lparr>rb_arr = 7 # 8 # 9 # replicate 29 0, rb_head = 0, rb_tail = 3, rb_status = Normal, rb_write_end = Some 0\<rparr>"
  shows "pipe_write_pass [7, 8, 9] 0 (snd (snd (pipe_make 0))) = (Return, 3, rb)"
    "pipe_read_pass (\<lambda>_. True) 2 [] rb = Some (Return, [7, 8], rb\<lparr>rb_head := 2\<rparr>)"
  unfolding rb_def by code_simp+

lemma pipe_is_fifo_witness:
  "\<exists>s. pipe_reach s \<and> ps_sent s = [7, 8, 9] \<and> ps_recv s = [7, 8] \<and>
     ps_sent s = ps_recv s @ ring_items (ps_ring s)"
proof -
  let ?s1 = "pipe_init\<lparr>ps_writer := Some ([7, 8, 9], 0)\<rparr>"
  have s1: "pipe_reach ?s1"
    by (rule pipe_reach.step [OF pipe_reach.init call_write]) (simp_all add: pipe_init_def)
  have "ps_ring ?s1 = snd (snd (pipe_make 0))" by (simp add: pipe_init_def)
  then obtain rb where w: "pipe_write_pass [7, 8, 9] 0 (ps_ring ?s1) = (Return, 3, rb)"
    and rd: "pipe_read_pass (\<lambda>_. True) 2 [] rb = Some (Return, [7, 8], rb\<lparr>rb_head := 2\<rparr>)"
    using ring_example by simp
  let ?s2 = "?s1\<lparr>ps_ring := rb, ps_sent := ps_sent ?s1 @ take (3 - 0) (drop 0 [7, 8, 9]),
      ps_writer := (if Return = Return then None else Some ([7, 8, 9], 3))\<rparr>"
  have s2: "pipe_reach ?s2" by (rule pipe_reach.step [OF s1 write_pass [OF _ w]]) simp
  let ?s3 = "?s2\<lparr>ps_reader := Some (2, [])\<rparr>"
  have s3: "pipe_reach ?s3" by (rule pipe_reach.step [OF s2 call_read]) (simp add: pipe_init_def)
  have rd': "pipe_read_pass (\<lambda>_. ps_open ?s3) 2 [] (ps_ring ?s3) = Some (Return, [7, 8], rb\<lparr>rb_head := 2\<rparr>)"
    using rd by (simp add: pipe_init_def)
  let ?s4 = "?s3\<lparr>ps_ring := rb\<lparr>rb_head := 2\<rparr>, ps_recv := ps_recv ?s3 @ drop (length ([] :: u8 list)) [7, 8],
      ps_reader := (if Return = Return then None else Some (2, [7, 8])),
      ps_short := (ps_short ?s3 \<or> Return = Return \<and> length [7, 8 :: u8] < 2)\<rparr>"
  have "pipe_reach ?s4" by (rule pipe_reach.step [OF s3 read_pass [OF _ rd']]) simp
  moreover have "ps_sent ?s4 = [7, 8, 9]" "ps_recv ?s4 = [7, 8]" by (simp_all add: pipe_init_def)
  ultimately show ?thesis using pipe_is_fifo [of ?s4] by blast
qed

text \<open>C27. A read that returns fewer bytes than asked for means the end of the stream: the write
  end is closed and everything ever written has been read.\<close>

lemma short_read_means_end:
  assumes "pipe_reach s" "ps_short s"
  shows "\<not> ps_open s \<and> ps_recv s = ps_sent s"
  using pipe_reach_inv [OF assms(1)] assms(2) by (simp add: pipe_inv_def)

lemma short_read_means_end_witness:
  "\<exists>s. pipe_reach s \<and> ps_short s \<and> \<not> ps_open s \<and> ps_recv s = ps_sent s"
proof -
  let ?s1 = "pipe_init\<lparr>ps_open := False\<rparr>"
  have s1: "pipe_reach ?s1"
    by (rule pipe_reach.step [OF pipe_reach.init drop_write_end]) (simp_all add: pipe_init_def)
  let ?s2 = "?s1\<lparr>ps_reader := Some (2, [])\<rparr>"
  have s2: "pipe_reach ?s2" by (rule pipe_reach.step [OF s1 call_read]) (simp add: pipe_init_def)
  have r: "pipe_read_pass (\<lambda>_. ps_open ?s2) 2 [] (ps_ring ?s2) = Some (Return, [], ps_ring ?s2)"
    by (simp add: pipe_read_pass_def pipe_init_def pipe_make_def ring_new_def set_write_end_def
        available_to_read_def all_write_ends_closed_def)
  let ?s3 = "?s2\<lparr>ps_ring := ps_ring ?s2, ps_recv := ps_recv ?s2 @ drop (length ([] :: u8 list)) [],
      ps_reader := (if Return = Return then None else Some (2, [])),
      ps_short := (ps_short ?s2 \<or> Return = Return \<and> length ([] :: u8 list) < 2)\<rparr>"
  have s3: "pipe_reach ?s3" by (rule pipe_reach.step [OF s2 read_pass [OF _ r]]) simp
  have "ps_short ?s3" by simp
  with short_read_means_end [OF s3] s3 show ?thesis by blast
qed

end
