(* ===== verification/Store.thy ===== *)
theory Store
  imports Prelude
begin

text \<open>
  The block device of easy-fs as the file system code sees it: a list of 512-byte blocks
  (\<open>easy-fs/src/config.rs\<close>, \<open>easy-fs/src/block_dev.rs\<close>). Every access of the code has the form
  \<open>block_cache::get(id, dev).lock().read(..)\<close> or \<open>.modify(..)\<close>; the closure runs with the lock of
  the block's cache taken. \<open>held\<close> is the list of the blocks whose locks the callers hold: to
  access one of them again would spin for ever, which is \<open>None\<close>, as is an access beyond
  the device. \<open>BlockCache\<close> shows that the cache manager implements this store.
\<close>

section \<open>Constants\<close>

definition BLOCK_SIZE :: nat where "BLOCK_SIZE = 512"
definition BLOCK_BITS :: nat where "BLOCK_BITS = BLOCK_SIZE * 8"
definition BLOCK_CACHE_SIZE :: nat where "BLOCK_CACHE_SIZE = 16"
definition EFS_MAGIC :: nat where "EFS_MAGIC = 0x3b800001"
definition DIRECT_COUNT :: nat where "DIRECT_COUNT = 27"
definition INDIRECT_COUNT :: nat where "INDIRECT_COUNT = BLOCK_SIZE div 4"
definition INDIRECT1_COUNT :: nat where "INDIRECT1_COUNT = INDIRECT_COUNT"
definition INDIRECT2_COUNT :: nat where "INDIRECT2_COUNT = INDIRECT_COUNT ^ 2"
definition INDIRECT3_COUNT :: nat where "INDIRECT3_COUNT = INDIRECT_COUNT ^ 3"
definition DIRECT_BOUND :: nat where "DIRECT_BOUND = DIRECT_COUNT"
definition INDIRECT1_BOUND :: nat where "INDIRECT1_BOUND = DIRECT_BOUND + INDIRECT1_COUNT"
definition INDIRECT2_BOUND :: nat where "INDIRECT2_BOUND = INDIRECT1_BOUND + INDIRECT2_COUNT"
definition INDIRECT3_BOUND :: nat where "INDIRECT3_BOUND = INDIRECT2_BOUND + INDIRECT3_COUNT"
definition NAME_LENGTH_LIMIT :: nat where "NAME_LENGTH_LIMIT = 27"

lemma fs_consts [simp]:
  "BLOCK_SIZE = 512" "BLOCK_BITS = 4096" "BLOCK_CACHE_SIZE = 16" "DIRECT_COUNT = 27"
  "INDIRECT_COUNT = 128" "INDIRECT1_COUNT = 128" "INDIRECT2_COUNT = 16384" "INDIRECT3_COUNT = 2097152"
  "DIRECT_BOUND = 27" "INDIRECT1_BOUND = 155" "INDIRECT2_BOUND = 16539" "INDIRECT3_BOUND = 2113691" "NAME_LENGTH_LIMIT = 27"
  by (simp_all add: BLOCK_SIZE_def BLOCK_BITS_def BLOCK_CACHE_SIZE_def DIRECT_COUNT_def
      INDIRECT_COUNT_def INDIRECT1_COUNT_def INDIRECT2_COUNT_def INDIRECT3_COUNT_def
      DIRECT_BOUND_def INDIRECT1_BOUND_def INDIRECT2_BOUND_def INDIRECT3_BOUND_def NAME_LENGTH_LIMIT_def)

section \<open>The store\<close>

type_synonym block = "u8 list"
type_synonym disk = "block list"

definition disk_ok :: "disk \<Rightarrow> bool" where
  "disk_ok s \<longleftrightarrow> (\<forall>bs\<in>set s. length bs = 512)"

definition blk_read :: "nat list \<Rightarrow> nat \<Rightarrow> disk \<Rightarrow> block option" where
  "blk_read held b s = (if b \<in> set held then None else nth_opt s b)"

definition blk_write :: "nat list \<Rightarrow> nat \<Rightarrow> block \<Rightarrow> disk \<Rightarrow> disk option" where
  "blk_write held b bs s = (if b \<in> set held \<or> length s \<le> b then None else Some (s[b := bs]))"

lemma blk_read_Some [simp]:
  "blk_read held b s = Some bs \<longleftrightarrow> b \<notin> set held \<and> b < length s \<and> bs = s ! b"
  by (auto simp: blk_read_def)

lemma blk_read_ok [simp]: "b \<notin> set held \<Longrightarrow> b < length s \<Longrightarrow> blk_read held b s = Some (s ! b)"
  by (simp add: blk_read_def)

lemma blk_write_Some [simp]:
  "blk_write held b bs s = Some s' \<longleftrightarrow> b \<notin> set held \<and> b < length s \<and> s' = s[b := bs]"
  by (auto simp: blk_write_def)

lemma blk_write_ok [simp]: "b \<notin> set held \<Longrightarrow> b < length s \<Longrightarrow> blk_write held b bs s = Some (s[b := bs])"
  by (simp add: blk_write_def)

lemma disk_ok_nth [simp]: "disk_ok s \<Longrightarrow> b < length s \<Longrightarrow> length (s ! b) = 512"
  by (simp add: disk_ok_def)

lemma disk_ok_update [simp]: "disk_ok s \<Longrightarrow> length bs = 512 \<Longrightarrow> disk_ok (s[b := bs])"
  by (auto simp: disk_ok_def dest!: set_update_subset_insert [THEN subsetD])

text \<open>\<open>read(0, |v: &T| v)\<close> for the word arrays the code overlays on a block.\<close>

abbreviation ind_block :: "block \<Rightarrow> nat list" where
  "ind_block bs \<equiv> words_of 4 128 bs"

abbreviation bitmap_block :: "block \<Rightarrow> nat list" where
  "bitmap_block bs \<equiv> words_of 8 64 bs"

section \<open>The interface of the store\<close>

text \<open>The operations of the file system on blocks, in the order they happen.\<close>

datatype store_op = Rd nat | Wr nat block | Sync

fun disk_run :: "store_op list \<Rightarrow> disk \<Rightarrow> (block list \<times> disk) option" where
  "disk_run [] s = Some ([], s)"
| "disk_run (Rd b # ops) s = do { bs \<leftarrow> blk_read [] b s; (r, s') \<leftarrow> disk_run ops s; Some (bs # r, s') }"
| "disk_run (Wr b bs # ops) s = do { s1 \<leftarrow> blk_write [] b bs s; disk_run ops s1 }"
| "disk_run (Sync # ops) s = disk_run ops s"

fun store_run :: "(nat \<Rightarrow> 's \<Rightarrow> (block \<times> 's) option) \<Rightarrow> (nat \<Rightarrow> block \<Rightarrow> 's \<Rightarrow> 's option) \<Rightarrow> ('s \<Rightarrow> 's) \<Rightarrow>
    store_op list \<Rightarrow> 's \<Rightarrow> (block list \<times> 's) option" where
  "store_run rd wr sy [] s = Some ([], s)"
| "store_run rd wr sy (Rd b # ops) s = do {
     (bs, s1) \<leftarrow> rd b s; (r, s') \<leftarrow> store_run rd wr sy ops s1; Some (bs # r, s') }"
| "store_run rd wr sy (Wr b bs # ops) s = do { s1 \<leftarrow> wr b bs s; store_run rd wr sy ops s1 }"
| "store_run rd wr sy (Sync # ops) s = store_run rd wr sy ops (sy s)"

locale block_store =
  fixes view :: "'s \<Rightarrow> disk"
    and inv :: "'s \<Rightarrow> bool"
    and rd :: "nat \<Rightarrow> 's \<Rightarrow> (block \<times> 's) option"
    and wr :: "nat \<Rightarrow> block \<Rightarrow> 's \<Rightarrow> 's option"
    and sy :: "'s \<Rightarrow> 's"
  assumes rd_ok: "inv s \<Longrightarrow> b < length (view s) \<Longrightarrow> \<exists>s'. rd b s = Some (view s ! b, s') \<and> inv s' \<and> view s' = view s"
    and rd_fail: "inv s \<Longrightarrow> length (view s) \<le> b \<Longrightarrow> rd b s = None"
    and wr_ok: "inv s \<Longrightarrow> b < length (view s) \<Longrightarrow> \<exists>s'. wr b bs s = Some s' \<and> inv s' \<and> view s' = (view s)[b := bs]"
    and wr_fail: "inv s \<Longrightarrow> length (view s) \<le> b \<Longrightarrow> wr b bs s = None"
    and sy_ok: "inv s \<Longrightarrow> inv (sy s) \<and> view (sy s) = view s"
begin

lemma run_refines:
  "inv s \<Longrightarrow> (case store_run rd wr sy ops s of
      None \<Rightarrow> disk_run ops (view s) = None
    | Some (r, s') \<Rightarrow> disk_run ops (view s) = Some (r, view s') \<and> inv s')"
proof (induction ops arbitrary: s)
  case Nil
  then show ?case by simp
next
  case (Cons oper ops)
  show ?case
  proof (cases oper)
    case (Rd b)
    show ?thesis
    proof (cases "b < length (view s)")
      case True
      obtain s1 where "rd b s = Some (view s ! b, s1)" "inv s1" "view s1 = view s"
        using rd_ok [OF Cons.prems True] by blast
      then show ?thesis using Cons.IH [of s1] Rd True by (auto split: option.splits)
    next
      case False
      then show ?thesis using rd_fail [OF Cons.prems] Rd by (simp add: blk_read_def)
    qed
  next
    case (Wr b bs)
    show ?thesis
    proof (cases "b < length (view s)")
      case True
      obtain s1 where "wr b bs s = Some s1" "inv s1" "view s1 = (view s)[b := bs]"
        using wr_ok [OF Cons.prems True] by blast
      then show ?thesis using Cons.IH [of s1] Wr True by (auto split: option.splits)
    next
      case False
      then show ?thesis using wr_fail [OF Cons.prems] Wr by (simp add: blk_write_def)
    qed
  next
    case Sync
    then show ?thesis using sy_ok [OF Cons.prems] Cons.IH [of "sy s"] by (auto split: option.splits)
  qed
qed

end

end
