(* ===== verification/BlockCache.thy ===== *)
theory BlockCache
  imports Store
begin

text \<open>
  The block cache: \<open>easy-fs/src/block_cache.rs\<close>. A cache entry holds the bytes of a block and a
  dirty flag; the manager keeps at most 16 entries, evicts the first one nobody else holds
  (\<open>Arc::strong_count\<close> is 1), and an entry that is dropped writes itself back. \<open>pinned\<close> lists the
  blocks whose entries the callers hold. The logical content of a block is its cached bytes, or
  the bytes on the device.
\<close>

section \<open>Entries and the manager\<close>

record block_cache =
  bc_cache :: block
  bc_modified :: bool

record cache_mgr =
  cm_queue :: "(nat \<times> block_cache) list"
  cm_disk :: disk

definition bc_new :: "nat \<Rightarrow> disk \<Rightarrow> block_cache option" where
  "bc_new b d = do { bs \<leftarrow> nth_opt d b; Some \<lparr>bc_cache = bs, bc_modified = False\<rparr> }"

definition bc_sync :: "nat \<Rightarrow> block_cache \<Rightarrow> disk \<Rightarrow> block_cache \<times> disk" where
  "bc_sync b c d = (if bc_modified c then (c\<lparr>bc_modified := False\<rparr>, d[b := bc_cache c]) else (c, d))"

definition cm_new :: "disk \<Rightarrow> cache_mgr" where
  "cm_new d = \<lparr>cm_queue = [], cm_disk = d\<rparr>"

text \<open>\<open>Vec::swap_remove\<close>.\<close>

definition swap_remove :: "nat \<Rightarrow> 'a list \<Rightarrow> 'a list" where
  "swap_remove i xs = (if i = length xs - 1 then butlast xs else (butlast xs)[i := last xs])"

text \<open>The eviction drops the entry, and \<open>Drop for BlockCache\<close> writes it back if it is dirty.\<close>

definition cm_evict :: "nat list \<Rightarrow> cache_mgr \<Rightarrow> cache_mgr option" where
  "cm_evict pinned m =
     (if length (cm_queue m) = BLOCK_CACHE_SIZE then
        (case position (\<lambda>(b, _). b \<notin> set pinned) (cm_queue m) of
           None \<Rightarrow> None
         | Some i \<Rightarrow> (case cm_queue m ! i of (b, c) \<Rightarrow>
             Some \<lparr>cm_queue = swap_remove i (cm_queue m), cm_disk = snd (bc_sync b c (cm_disk m))\<rparr>))
      else Some m)"

definition cm_get :: "nat list \<Rightarrow> nat \<Rightarrow> cache_mgr \<Rightarrow> (block_cache \<times> cache_mgr) option" where
  "cm_get pinned b m = (case map_of (cm_queue m) b of
      Some c \<Rightarrow> Some (c, m)
    | None \<Rightarrow> do {
        m1 \<leftarrow> cm_evict pinned m;
        c \<leftarrow> bc_new b (cm_disk m1);
        Some (c, m1\<lparr>cm_queue := cm_queue m1 @ [(b, c)]\<rparr>)
      })"

text \<open>\<open>get(b).lock().read(0, f)\<close> and \<open>get(b).lock().modify(0, f)\<close> on the whole block.\<close>

definition cm_read :: "nat list \<Rightarrow> nat \<Rightarrow> cache_mgr \<Rightarrow> (block \<times> cache_mgr) option" where
  "cm_read pinned b m = do { (c, m') \<leftarrow> cm_get pinned b m; Some (bc_cache c, m') }"

definition cm_write :: "nat list \<Rightarrow> nat \<Rightarrow> block \<Rightarrow> cache_mgr \<Rightarrow> cache_mgr option" where
  "cm_write pinned b bs m = do {
     (c, m') \<leftarrow> cm_get pinned b m;
     Some (m'\<lparr>cm_queue := map (\<lambda>(b', c). if b' = b then (b', c\<lparr>bc_cache := bs, bc_modified := True\<rparr>) else (b', c))
        (cm_queue m')\<rparr>)
   }"

fun sync_entries :: "(nat \<times> block_cache) list \<Rightarrow> disk \<Rightarrow> (nat \<times> block_cache) list \<times> disk" where
  "sync_entries [] d = ([], d)"
| "sync_entries ((b, c) # q) d = (case bc_sync b c d of (c', d') \<Rightarrow>
     (case sync_entries q d' of (q', d'') \<Rightarrow> ((b, c') # q', d'')))"

definition cm_sync_all :: "cache_mgr \<Rightarrow> cache_mgr" where
  "cm_sync_all m = (case sync_entries (cm_queue m) (cm_disk m) of (q, d) \<Rightarrow> \<lparr>cm_queue = q, cm_disk = d\<rparr>)"

section \<open>The logical content\<close>

definition cm_view :: "cache_mgr \<Rightarrow> disk" where
  "cm_view m = map (\<lambda>i. case map_of (cm_queue m) i of Some c \<Rightarrow> bc_cache c | None \<Rightarrow> cm_disk m ! i)
     [0..<length (cm_disk m)]"

definition cm_inv :: "cache_mgr \<Rightarrow> bool" where
  "cm_inv m \<longleftrightarrow> distinct (map fst (cm_queue m)) \<and> length (cm_queue m) \<le> 16 \<and>
     (\<forall>(b, c)\<in>set (cm_queue m). b < length (cm_disk m) \<and> (\<not> bc_modified c \<longrightarrow> bc_cache c = cm_disk m ! b))"

lemma length_cm_view [simp]: "length (cm_view m) = length (cm_disk m)"
  by (simp add: cm_view_def)

lemma nth_cm_view:
  "i < length (cm_disk m) \<Longrightarrow>
   cm_view m ! i = (case map_of (cm_queue m) i of Some c \<Rightarrow> bc_cache c | None \<Rightarrow> cm_disk m ! i)"
  by (simp add: cm_view_def split: option.split)

lemma cm_new_inv [simp]: "cm_inv (cm_new d)" "cm_view (cm_new d) = d"
  by (simp_all add: cm_inv_def cm_view_def cm_new_def map_nth)

lemma set_swap_remove:
  assumes "i < length xs" "distinct xs"
  shows "set (swap_remove i xs) = set xs - {xs ! i}" "distinct (swap_remove i xs)"
    "length (swap_remove i xs) = length xs - 1"
proof -
  obtain ys x where xs: "xs = ys @ [x]" using assms(1) by (cases xs rule: rev_cases) auto
  show "length (swap_remove i xs) = length xs - 1" by (simp add: swap_remove_def)
  show "set (swap_remove i xs) = set xs - {xs ! i}" "distinct (swap_remove i xs)"
  proof (atomize (full), cases "i = length ys")
    case True
    then show "set (swap_remove i xs) = set xs - {xs ! i} \<and> distinct (swap_remove i xs)"
      using assms by (auto simp: swap_remove_def xs)
  next
    case False
    then have i: "i < length ys" using assms(1) xs by simp
    then have "ys ! i \<in> set ys" by simp
    then show "set (swap_remove i xs) = set xs - {xs ! i} \<and> distinct (swap_remove i xs)"
      using assms i by (auto simp: swap_remove_def xs nth_append set_update_distinct intro: distinct_list_update)
  qed
qed

lemma map_swap_remove: "map f (swap_remove i xs) = swap_remove i (map f xs)"
  by (cases "xs = []") (simp_all add: swap_remove_def map_butlast map_update last_map)


lemma map_of_swap_remove:
  assumes "i < length q" "distinct (map fst q)"
  shows "map_of (swap_remove i q) = (map_of q)(fst (q ! i) := None)"
proof
  fix x
  have dq: "distinct q" using assms(2) by (simp add: distinct_map)
  have d': "distinct (map fst (swap_remove i q))"
    using set_swap_remove(2) [of i "map fst q"] assms by (simp add: map_swap_remove)
  note sq = set_swap_remove(1) [OF assms(1) dq]
  have eq: "map_of (swap_remove i q) x = Some y \<longleftrightarrow> x \<noteq> fst (q ! i) \<and> map_of q x = Some y" for y
  proof -
    have "map_of (swap_remove i q) x = Some y \<longleftrightarrow> (x, y) \<in> set q \<and> (x, y) \<noteq> q ! i"
      using map_of_eq_Some_iff [OF d'] sq by auto
    also have "\<dots> \<longleftrightarrow> (x, y) \<in> set q \<and> x \<noteq> fst (q ! i)"
      using assms nth_mem [OF assms(1)] eq_key_imp_eq_value [OF assms(2)] by (cases "q ! i") auto
    finally show ?thesis using map_of_eq_Some_iff [OF assms(2)] by auto
  qed
  show "map_of (swap_remove i q) x = ((map_of q)(fst (q ! i) := None)) x"
  proof (cases "map_of (swap_remove i q) x")
    case None
    then have "\<And>y. \<not> (x \<noteq> fst (q ! i) \<and> map_of q x = Some y)" using eq by auto
    then show ?thesis using None by (cases "map_of q x") auto
  next
    case (Some y)
    then show ?thesis using eq by auto
  qed
qed

lemma cm_evict_ok:
  assumes inv: "cm_inv m" and run: "cm_evict pinned m = Some m1"
  shows "cm_inv m1" "cm_view m1 = cm_view m" "length (cm_queue m1) < 16"
    "length (cm_disk m1) = length (cm_disk m)" "\<And>b. map_of (cm_queue m) b = None \<Longrightarrow> map_of (cm_queue m1) b = None"
proof -
  have "cm_inv m1 \<and> cm_view m1 = cm_view m \<and> length (cm_queue m1) < 16 \<and>
      length (cm_disk m1) = length (cm_disk m) \<and> (\<forall>b. map_of (cm_queue m) b = None \<longrightarrow> map_of (cm_queue m1) b = None)"
  proof (cases "length (cm_queue m) = 16")
    case False
    with inv run show ?thesis by (auto simp: cm_evict_def cm_inv_def)
  next
    case True
    then obtain i b c where pos: "i < length (cm_queue m)" and e: "cm_queue m ! i = (b, c)"
      and m1: "m1 = \<lparr>cm_queue = swap_remove i (cm_queue m), cm_disk = snd (bc_sync b c (cm_disk m))\<rparr>"
      using run by (auto simp: cm_evict_def position_Some split: option.splits prod.splits)
    have dist: "distinct (map fst (cm_queue m))" and dq: "distinct (cm_queue m)"
      using inv by (auto simp: cm_inv_def distinct_map)
    have bc: "(b, c) \<in> set (cm_queue m)" using pos e by (metis nth_mem)
    then have b: "b < length (cm_disk m)" "\<not> bc_modified c \<Longrightarrow> bc_cache c = cm_disk m ! b"
      using inv by (auto simp: cm_inv_def)
    have mo: "map_of (cm_queue m1) = (map_of (cm_queue m))(b := None)"
      using map_of_swap_remove [OF pos dist] e by (simp add: m1)
    have cb: "map_of (cm_queue m) b = Some c" using bc dist by simp
    have dk: "cm_disk m1 = (cm_disk m)[b := bc_cache c]"
      using b by (auto simp: m1 bc_sync_def)
    have "cm_view m1 = cm_view m"
      by (rule nth_equalityI) (auto simp: nth_cm_view mo dk cb nth_list_update split: option.split)
    moreover have "b \<noteq> a \<and> a < length (cm_disk m) \<and> (\<not> bc_modified d \<longrightarrow> bc_cache d = cm_disk m ! a)"
      if "(a, d) \<in> set (swap_remove i (cm_queue m))" for a d
    proof -
      have ad: "(a, d) \<in> set (cm_queue m)" "(a, d) \<noteq> (b, c)"
        using that set_swap_remove(1) [OF pos dq] e by auto
      moreover have "a \<noteq> b" using ad eq_key_imp_eq_value [OF dist bc] by blast
      ultimately show ?thesis using inv by (auto simp: cm_inv_def)
    qed
    then have "cm_inv m1"
      using set_swap_remove(3) [OF pos dq] set_swap_remove(2) [of i "map fst (cm_queue m)"] dist pos True dk
      by (fastforce simp: cm_inv_def m1 map_swap_remove)
    ultimately show ?thesis
      using True mo dk set_swap_remove(3) [OF pos dq] by (auto simp: m1)
  qed
  then show "cm_inv m1" "cm_view m1 = cm_view m" "length (cm_queue m1) < 16"
    "length (cm_disk m1) = length (cm_disk m)" "\<And>b. map_of (cm_queue m) b = None \<Longrightarrow> map_of (cm_queue m1) b = None"
    by auto
qed

lemma cm_evict_total:
  assumes "cm_inv m" "length pinned < 16"
  shows "cm_evict pinned m \<noteq> None"
proof (rule ccontr)
  assume "\<not> cm_evict pinned m \<noteq> None"
  then have l: "length (cm_queue m) = 16" and "\<forall>x\<in>set (cm_queue m). fst x \<in> set pinned"
    by (auto simp: cm_evict_def split: if_splits option.splits prod.splits)
  then have "set (map fst (cm_queue m)) \<subseteq> set pinned" by auto
  then have "card (set (map fst (cm_queue m))) \<le> card (set pinned)" by (rule card_mono [rotated]) simp
  also have "\<dots> \<le> length pinned" by (rule card_length)
  finally show False using assms l by (simp add: cm_inv_def distinct_card del: set_map)
qed

lemma cm_get_ok:
  assumes inv: "cm_inv m" and b: "b < length (cm_disk m)" and p: "length pinned < 16"
  obtains c m' where "cm_get pinned b m = Some (c, m')" "bc_cache c = cm_view m ! b" "cm_inv m'"
    "cm_view m' = cm_view m" "map_of (cm_queue m') b = Some c" "length (cm_disk m') = length (cm_disk m)"
proof (cases "map_of (cm_queue m) b")
  case (Some c)
  then show ?thesis using that [of c m] inv b by (simp add: cm_get_def nth_cm_view)
next
  case None
  obtain m1 where ev: "cm_evict pinned m = Some m1" using cm_evict_total [OF inv p] by blast
  note e = cm_evict_ok [OF inv ev]
  have b1: "b < length (cm_disk m1)" and n1: "map_of (cm_queue m1) b = None" using e(4,5) b None by auto
  let ?c = "\<lparr>bc_cache = cm_disk m1 ! b, bc_modified = False\<rparr>"
  let ?m = "m1\<lparr>cm_queue := cm_queue m1 @ [(b, ?c)]\<rparr>"
  have run: "cm_get pinned b m = Some (?c, ?m)"
    using None ev b1 by (simp add: cm_get_def bc_new_def)
  have v: "cm_view m1 ! b = cm_disk m1 ! b" using b1 n1 by (simp add: nth_cm_view)
  have "cm_view ?m = cm_view m1"
    by (rule nth_equalityI) (use n1 in \<open>auto simp: nth_cm_view map_add_def split: option.splits\<close>)
  moreover have "cm_inv ?m"
    using e(1,3) b1 n1 by (auto simp: cm_inv_def map_of_eq_None_iff)
  ultimately show ?thesis
    using that [OF run] v e(2,4) n1 by (simp add: map_add_def)
qed

lemma cm_get_fail:
  assumes "cm_inv m" "length (cm_disk m) \<le> b"
  shows "cm_get pinned b m = None"
proof -
  have "map_of (cm_queue m) b = None"
    using assms by (fastforce simp: cm_inv_def map_of_eq_None_iff)
  with assms show ?thesis
    by (cases "cm_evict pinned m") (auto simp: cm_get_def bc_new_def dest: cm_evict_ok(4))
qed

lemma map_of_map_entry:
  "map_of (map (\<lambda>(b', c). if b' = b then (b', g c) else (b', c)) q) x =
   (if x = b then map_option g (map_of q x) else map_of q x)"
  by (induction q) auto

lemma cm_write_ok:
  assumes inv: "cm_inv m" and b: "b < length (cm_disk m)" and p: "length pinned < 16"
  shows "\<exists>m'. cm_write pinned b bs m = Some m' \<and> cm_inv m' \<and> cm_view m' = (cm_view m)[b := bs]"
proof -
  obtain c m1 where g: "cm_get pinned b m = Some (c, m1)" and i1: "cm_inv m1"
    and v1: "cm_view m1 = cm_view m" and mo: "map_of (cm_queue m1) b = Some c"
    and l1: "length (cm_disk m1) = length (cm_disk m)"
    by (rule cm_get_ok [OF inv b p]) blast
  let ?f = "\<lambda>(b', c). if b' = b then (b', c\<lparr>bc_cache := bs, bc_modified := True\<rparr>) else (b', c)"
  let ?m = "m1\<lparr>cm_queue := map ?f (cm_queue m1)\<rparr>"
  have "cm_view ?m = (cm_view m1)[b := bs]"
    by (rule nth_equalityI) (auto simp: nth_cm_view map_of_map_entry mo nth_list_update split: option.split)
  moreover have "cm_inv ?m"
  proof -
    have "map fst (map ?f (cm_queue m1)) = map fst (cm_queue m1)" by auto
    then have "distinct (map fst (map ?f (cm_queue m1)))" using i1 by (simp only: cm_inv_def)
    then show ?thesis using i1 unfolding cm_inv_def by (auto simp del: map_map split: if_splits)
  qed
  ultimately show ?thesis using g v1 by (simp add: cm_write_def)
qed


text \<open>\<open>sync_all\<close> writes the logical content to the device.\<close>

lemma sync_entries_ok:
  "distinct (map fst q) \<Longrightarrow> \<forall>(b, c)\<in>set q. b < length d \<and> (\<not> bc_modified c \<longrightarrow> bc_cache c = d ! b) \<Longrightarrow>
   sync_entries q d = (q', d') \<Longrightarrow>
   map fst q' = map fst q \<and> length d' = length d \<and> (\<forall>(b, c)\<in>set q'. \<not> bc_modified c \<and> bc_cache c = d' ! b) \<and>
   (\<forall>i<length d. d' ! i = (case map_of q i of Some c \<Rightarrow> bc_cache c | None \<Rightarrow> d ! i)) \<and>
   (\<forall>i. map_option bc_cache (map_of q' i) = map_option bc_cache (map_of q i))"
proof (induction q arbitrary: d q' d')
  case Nil
  then show ?case by simp
next
  case (Cons e q)
  obtain b c where e: "e = (b, c)" by force
  obtain c1 d1 where s1: "bc_sync b c d = (c1, d1)" by force
  obtain q2 d2 where s2: "sync_entries q d1 = (q2, d2)" by force
  have r: "q' = (b, c1) # q2" "d' = d2" using Cons.prems(3) e s1 s2 by simp_all
  have c1: "\<not> bc_modified c1" "bc_cache c1 = bc_cache c" "d1 = d[b := bc_cache c]" "b < length d"
    using s1 Cons.prems(2) e by (auto simp: bc_sync_def split: if_splits)
  have nb: "map_of q b = None" using Cons.prems(1) e by (force simp: map_of_eq_None_iff)
  have "\<forall>(b', c)\<in>set q. b' < length d1 \<and> (\<not> bc_modified c \<longrightarrow> bc_cache c = d1 ! b')"
  proof (clarify, rule conjI)
    fix b' c' assume i: "(b', c') \<in> set q"
    have "b \<noteq> b'" using Cons.prems(1) e i by force
    moreover have "b' < length d \<and> (\<not> bc_modified c' \<longrightarrow> bc_cache c' = d ! b')"
      using Cons.prems(2) i by auto
    ultimately show "b' < length d1" "\<not> bc_modified c' \<longrightarrow> bc_cache c' = d1 ! b'" by (simp_all add: c1(3))
  qed
  note ih = Cons.IH [OF _ this s2]
  have ih': "map fst q2 = map fst q \<and> length d2 = length d1 \<and> (\<forall>(b, c)\<in>set q2. \<not> bc_modified c \<and> bc_cache c = d2 ! b) \<and>
     (\<forall>i<length d1. d2 ! i = (case map_of q i of Some c \<Rightarrow> bc_cache c | None \<Rightarrow> d1 ! i)) \<and>
     (\<forall>i. map_option bc_cache (map_of q2 i) = map_option bc_cache (map_of q i))"
    by (rule ih) (use Cons.prems(1) e in simp)
  then have "d2 ! b = bc_cache c" using c1(3,4) nb by simp
  with ih' r e c1 nb show ?case by (auto simp: nth_list_update split: option.splits)
qed

lemma cm_sync_all_ok:
  assumes "cm_inv m"
  shows "cm_inv (cm_sync_all m)" "cm_view (cm_sync_all m) = cm_view m" "cm_disk (cm_sync_all m) = cm_view m"
proof -
  obtain q d where s: "sync_entries (cm_queue m) (cm_disk m) = (q, d)" by force
  have i: "distinct (map fst (cm_queue m))"
    "\<forall>(b, c)\<in>set (cm_queue m). b < length (cm_disk m) \<and> (\<not> bc_modified c \<longrightarrow> bc_cache c = cm_disk m ! b)"
    "length (cm_queue m) \<le> 16" using assms by (auto simp: cm_inv_def)
  note r = sync_entries_ok [OF i(1,2) s]
  have m: "cm_sync_all m = \<lparr>cm_queue = q, cm_disk = d\<rparr>" using s by (simp add: cm_sync_all_def)
  have d: "d = cm_view m" by (rule nth_equalityI) (use r in \<open>auto simp: nth_cm_view\<close>)
  show "cm_disk (cm_sync_all m) = cm_view m" using m d by simp
  have lq: "length q = length (cm_queue m)" using r by (metis length_map)
  have "b < length d" if "(b, c) \<in> set q" for b c
  proof -
    have "b \<in> set (map fst q)" using that by force
    then have "b \<in> set (map fst (cm_queue m))" using r by simp
    then show ?thesis using i(2) r by auto
  qed
  then show "cm_inv (cm_sync_all m)" using r i lq by (auto simp: m cm_inv_def)
  show "cm_view (cm_sync_all m) = cm_view m"
  proof (rule nth_equalityI)
    show "length (cm_view (cm_sync_all m)) = length (cm_view m)" using r by (simp add: m)
  next
    fix i assume "i < length (cm_view (cm_sync_all m))"
    then have i: "i < length d" by (simp add: m)
    have "cm_view (cm_sync_all m) ! i = (case map_of q i of Some c \<Rightarrow> bc_cache c | None \<Rightarrow> d ! i)"
      using nth_cm_view [of i "cm_sync_all m"] i unfolding m by (simp split: option.split)
    also have "\<dots> = d ! i"
      using r by (cases "map_of q i") (auto dest!: map_of_SomeD)
    finally show "cm_view (cm_sync_all m) ! i = cm_view m ! i" by (simp add: d)
  qed
qed

section \<open>The cache implements the store\<close>

text \<open>With fewer than 16 entries pinned; the deepest nesting of the file system code pins the
  block of an inode, three indirect blocks and one more.\<close>

interpretation cache_store: block_store cm_view "\<lambda>m. cm_inv m \<and> length pinned < 16"
  "cm_read pinned" "cm_write pinned" cm_sync_all for pinned
proof (unfold_locales, goal_cases)
  case (1 s b)
  then have b: "b < length (cm_disk s)" by simp
  obtain c m' where "cm_get pinned b s = Some (c, m')" "bc_cache c = cm_view s ! b" "cm_inv m'"
    "cm_view m' = cm_view s" using cm_get_ok [OF _ b] 1 by blast
  then show ?case using 1 by (simp add: cm_read_def)
next
  case (2 s b)
  then show ?case using cm_get_fail by (simp add: cm_read_def)
next
  case (3 s b bs)
  then show ?case using cm_write_ok [of s b pinned bs] by auto
next
  case (4 s b bs)
  then show ?case using cm_get_fail by (simp add: cm_write_def)
next
  case (5 s)
  then show ?case using cm_sync_all_ok by simp
qed

text \<open>C10. The block cache is transparent: whatever reads, writes and \<open>sync_all\<close> calls the file
  system makes, through evictions and write-backs, it gets the results a plain array of
  blocks gives, the logical content stays that array, and a final \<open>sync_all\<close> makes the device
  equal to it. Fewer than 16 pinned entries are enough for the manager never to run out.\<close>

lemma block_cache_transparent:
  assumes "length pinned < 16" "disk_run ops d = Some (rs, d')"
  shows "\<exists>m. store_run (cm_read pinned) (cm_write pinned) cm_sync_all ops (cm_new d) = Some (rs, m) \<and>
    cm_view m = d' \<and> cm_disk (cm_sync_all m) = d'"
proof -
  have "cm_inv (cm_new d) \<and> length pinned < 16" using assms(1) by simp
  from cache_store.run_refines [OF this, of ops] assms(2)
  obtain m where "store_run (cm_read pinned) (cm_write pinned) cm_sync_all ops (cm_new d) = Some (rs, m)"
    "cm_view m = d'" "cm_inv m" by (auto split: option.splits)
  then show ?thesis using cm_sync_all_ok(3) by simp
qed

lemma block_cache_transparent_witness:
  "\<exists>m. store_run (cm_read []) (cm_write []) cm_sync_all [Wr 1 [5], Rd 0, Rd 1] (cm_new [[1], [2]]) = Some ([[1], [5]], m) \<and>
     cm_view m = [[1], [5]] \<and> cm_disk (cm_sync_all m) = [[1], [5]]"
  by (rule block_cache_transparent) simp_all

end
