(* ===== verification/Layout.thy ===== *)
theory Layout
  imports Store
begin

text \<open>
  The on-disk structures of easy-fs: \<open>SuperBlock\<close>, \<open>DiskInode\<close> and \<open>DirEntry\<close> of
  \<open>easy-fs/src/layout.rs\<close>, all \<open>repr(C)\<close>. The code overlays them on the bytes of a block; here they
  are records with a reader and a writer of the bytes. A \<open>DiskInode\<close> takes 128 bytes: the kind in
  one byte, three bytes of padding the code never writes, and 31 words of four bytes. Integers
  are natural numbers below \<open>2^32\<close>.
\<close>

section \<open>Super block\<close>

record super_block =
  sb_magic :: nat
  sb_total_blocks :: nat
  sb_inode_bitmap_blocks :: nat
  sb_inode_area_blocks :: nat
  sb_data_bitmap_blocks :: nat
  sb_data_area_blocks :: nat

definition sb_init :: "nat \<Rightarrow> nat \<Rightarrow> nat \<Rightarrow> nat \<Rightarrow> nat \<Rightarrow> super_block" where
  "sb_init total_blocks ib ia db da = \<lparr>sb_magic = EFS_MAGIC, sb_total_blocks = total_blocks,
     sb_inode_bitmap_blocks = ib, sb_inode_area_blocks = ia,
     sb_data_bitmap_blocks = db, sb_data_area_blocks = da\<rparr>"

definition sb_is_valid :: "super_block \<Rightarrow> bool" where
  "sb_is_valid sb \<longleftrightarrow> sb_magic sb = EFS_MAGIC"

definition sb_get :: "block \<Rightarrow> super_block" where
  "sb_get bs = (let ws = words_of 4 6 bs in
     \<lparr>sb_magic = ws ! 0, sb_total_blocks = ws ! 1, sb_inode_bitmap_blocks = ws ! 2,
      sb_inode_area_blocks = ws ! 3, sb_data_bitmap_blocks = ws ! 4, sb_data_area_blocks = ws ! 5\<rparr>)"

definition sb_put :: "super_block \<Rightarrow> block \<Rightarrow> block" where
  "sb_put sb bs = splice 0 (bytes_of 4 [sb_magic sb, sb_total_blocks sb, sb_inode_bitmap_blocks sb,
     sb_inode_area_blocks sb, sb_data_bitmap_blocks sb, sb_data_area_blocks sb]) bs"

section \<open>Disk inodes\<close>

datatype disk_inode_kind = File | Directory

record disk_inode =
  di_kind :: disk_inode_kind
  di_size :: nat
  di_direct :: "nat list"
  di_indirect1 :: nat
  di_indirect2 :: nat
  di_indirect3 :: nat

definition DISK_INODE_SIZE :: nat where "DISK_INODE_SIZE = 128"

text \<open>The discriminants are 0 and 1; no other byte is ever stored in the kind.\<close>

definition kind_byte :: "disk_inode_kind \<Rightarrow> u8" where
  "kind_byte k = (case k of File \<Rightarrow> 0 | Directory \<Rightarrow> 1)"

definition kind_of_byte :: "u8 \<Rightarrow> disk_inode_kind" where
  "kind_of_byte b = (if b = 1 then Directory else File)"

definition di_words :: "disk_inode \<Rightarrow> nat list" where
  "di_words ino = di_size ino # di_direct ino @ [di_indirect1 ino, di_indirect2 ino, di_indirect3 ino]"

definition di_get :: "nat \<Rightarrow> block \<Rightarrow> disk_inode" where
  "di_get off bs = (let ws = words_of 4 31 (drop (off + 4) bs) in
     \<lparr>di_kind = kind_of_byte (bs ! off), di_size = ws ! 0, di_direct = take 27 (tl ws),
      di_indirect1 = ws ! 28, di_indirect2 = ws ! 29, di_indirect3 = ws ! 30\<rparr>)"

definition di_put :: "nat \<Rightarrow> disk_inode \<Rightarrow> block \<Rightarrow> block" where
  "di_put off ino bs = splice (off + 4) (bytes_of 4 (di_words ino)) (bs[off := kind_byte (di_kind ino)])"

text \<open>\<open>init\<close> leaves \<open>indirect3\<close> as it finds it.\<close>

definition di_init :: "disk_inode_kind \<Rightarrow> disk_inode \<Rightarrow> disk_inode" where
  "di_init kind ino = ino\<lparr>di_kind := kind, di_size := 0, di_direct := replicate 27 0,
     di_indirect1 := 0, di_indirect2 := 0\<rparr>"

definition di_is_dir :: "disk_inode \<Rightarrow> bool" where
  "di_is_dir ino \<longleftrightarrow> di_kind ino = Directory"

definition di_is_file :: "disk_inode \<Rightarrow> bool" where
  "di_is_file ino \<longleftrightarrow> di_kind ino = File"

section \<open>Block counts\<close>

definition div_ceil :: "nat \<Rightarrow> nat \<Rightarrow> nat" where
  "div_ceil a b = (if a mod b = 0 then a div b else a div b + 1)"

definition count_data_block :: "nat \<Rightarrow> nat" where
  "count_data_block sz = div_ceil sz BLOCK_SIZE"

definition count_total_block :: "nat \<Rightarrow> nat" where
  "count_total_block sz = (
     let data_blocks = count_data_block sz;
         n = count_data_block sz;
         n = (if data_blocks > DIRECT_BOUND then n + 1 else n);
         n = (if data_blocks > INDIRECT1_BOUND
                  then n + 1 + min (div_ceil (data_blocks - INDIRECT1_BOUND) INDIRECT1_COUNT) INDIRECT1_COUNT
                  else n);
         n = (if data_blocks > INDIRECT2_BOUND
                  then n + 1 + (div_ceil (data_blocks - INDIRECT2_BOUND) INDIRECT2_COUNT +
                                    div_ceil (data_blocks - INDIRECT2_BOUND) INDIRECT1_COUNT)
                  else n)
     in as_u32 n)"

text \<open>The subtraction is on \<open>u32\<close>.\<close>

definition blocks_num_needed :: "nat \<Rightarrow> disk_inode \<Rightarrow> nat option" where
  "blocks_num_needed new_size ino = do {
     assert_opt (new_size \<ge> di_size ino);
     Some (as_u32 (count_total_block new_size + 2 ^ 32 - count_total_block (di_size ino)))
   }"

section \<open>Directory entries\<close>

text \<open>A \<open>&str\<close> is a byte list that \<open>core::str::from_utf8\<close> accepts.\<close>

definition utf8_cont :: "u8 \<Rightarrow> bool" where
  "utf8_cont b \<longleftrightarrow> 0x80 \<le> b \<and> b \<le> 0xBF"

fun utf8_valid :: "u8 list \<Rightarrow> bool" where
  "utf8_valid [] = True"
| "utf8_valid (a # xs) =
     (if a < 0x80 then utf8_valid xs
      else if 0xC2 \<le> a \<and> a \<le> 0xDF then
        (case xs of b # ys \<Rightarrow> utf8_cont b \<and> utf8_valid ys | _ \<Rightarrow> False)
      else if 0xE0 \<le> a \<and> a \<le> 0xEF then
        (case xs of b # c # ys \<Rightarrow>
           (if a = 0xE0 then 0xA0 \<le> b \<and> b \<le> 0xBF else if a = 0xED then 0x80 \<le> b \<and> b \<le> 0x9F else utf8_cont b) \<and>
           utf8_cont c \<and> utf8_valid ys
         | _ \<Rightarrow> False)
      else if 0xF0 \<le> a \<and> a \<le> 0xF4 then
        (case xs of b # c # d # ys \<Rightarrow>
           (if a = 0xF0 then 0x90 \<le> b \<and> b \<le> 0xBF else if a = 0xF4 then 0x80 \<le> b \<and> b \<le> 0x8F else utf8_cont b) \<and>
           utf8_cont c \<and> utf8_cont d \<and> utf8_valid ys
         | _ \<Rightarrow> False)
      else False)"

record dir_entry =
  de_name :: "u8 list"
  de_inode_number :: nat

definition DIRENT_SIZE :: nat where "DIRENT_SIZE = 32"

lemma layout_sizes [simp]: "DISK_INODE_SIZE = 128" "DIRENT_SIZE = 32"
  by (simp_all add: DISK_INODE_SIZE_def DIRENT_SIZE_def)

definition de_new :: "u8 list \<Rightarrow> nat \<Rightarrow> dir_entry option" where
  "de_new name inode_number = do {
     assert_opt (length name \<le> NAME_LENGTH_LIMIT + 1);
     Some \<lparr>de_name = splice 0 name (replicate (NAME_LENGTH_LIMIT + 1) 0), de_inode_number = inode_number\<rparr>
   }"

definition de_empty :: dir_entry where
  "de_empty = \<lparr>de_name = replicate (NAME_LENGTH_LIMIT + 1) 0, de_inode_number = 0\<rparr>"

definition de_as_bytes :: "dir_entry \<Rightarrow> u8 list" where
  "de_as_bytes d = de_name d @ le_bytes 4 (de_inode_number d)"

text \<open>The entry whose 32 bytes have been written through \<open>as_mut_bytes\<close>.\<close>

definition de_of_bytes :: "u8 list \<Rightarrow> dir_entry" where
  "de_of_bytes bs = \<lparr>de_name = take 28 bs, de_inode_number = le_nat (take 4 (drop 28 bs))\<rparr>"

definition de_name_str :: "dir_entry \<Rightarrow> u8 list option" where
  "de_name_str d = (
     let len = (case position (\<lambda>c. c = 0) (de_name d) of Some i \<Rightarrow> i | None \<Rightarrow> length (de_name d));
         str = take len (de_name d)
     in if utf8_valid str then Some str else None)"

section \<open>Round trips\<close>

lemma sb_round_trip_aux:
  assumes "length bs = 512" "sb_magic sb < 2 ^ 32" "sb_total_blocks sb < 2 ^ 32" "sb_inode_bitmap_blocks sb < 2 ^ 32"
    "sb_inode_area_blocks sb < 2 ^ 32" "sb_data_bitmap_blocks sb < 2 ^ 32" "sb_data_area_blocks sb < 2 ^ 32"
  shows "sb_get (sb_put sb bs) = sb" "length (sb_put sb bs) = 512"
proof -
  let ?ws = "[sb_magic sb, sb_total_blocks sb, sb_inode_bitmap_blocks sb,
     sb_inode_area_blocks sb, sb_data_bitmap_blocks sb, sb_data_area_blocks sb]"
  have l: "6 = length ?ws" by simp
  have "sb_put sb bs = bytes_of 4 ?ws @ drop 24 bs" by (simp add: sb_put_def splice_def)
  moreover have "words_of 4 6 (bytes_of 4 ?ws @ drop 24 bs) = ?ws"
    unfolding l by (rule words_of_bytes_of_append) (use assms in simp)
  ultimately have "words_of 4 6 (sb_put sb bs) = ?ws" by simp
  then show "sb_get (sb_put sb bs) = sb" by (simp add: sb_get_def Let_def)
  show "length (sb_put sb bs) = 512" using assms(1) by (simp add: sb_put_def)
qed

definition di_ok :: "disk_inode \<Rightarrow> bool" where
  "di_ok ino \<longleftrightarrow> length (di_direct ino) = 27 \<and> (\<forall>w\<in>set (di_words ino). w < 2 ^ 32)"

lemma di_ok_get: "length bs = 512 \<Longrightarrow> off + 128 \<le> 512 \<Longrightarrow> di_ok (di_get off bs)"
proof -
  let ?ws = "words_of 4 31 (drop (off + 4) bs)"
  have b: "w < 2 ^ 32" if "w \<in> set ?ws" for w using words_of_bound [OF that] by simp
  have "?ws ! i \<in> set ?ws" if "i < 31" for i using that by (intro nth_mem) simp
  moreover have "set (take 27 (tl ?ws)) \<subseteq> set ?ws"
    by (cases ?ws) (auto dest: in_set_takeD)
  ultimately show ?thesis using b by (auto simp: di_ok_def di_get_def di_words_def Let_def)
qed

lemma kind_round_trip [simp]: "kind_of_byte (kind_byte k) = k"
  by (cases k) (simp_all add: kind_of_byte_def kind_byte_def)

lemma length_di_put [simp]:
  "length bs = 512 \<Longrightarrow> off + 128 \<le> 512 \<Longrightarrow> length (di_direct ino) = 27 \<Longrightarrow> length (di_put off ino bs) = 512"
  by (simp add: di_put_def di_words_def)

lemma di_get_put:
  assumes "length bs = 512" "off + 128 \<le> 512" "di_ok ino"
  shows "di_get off (di_put off ino bs) = ino"
proof -
  have d: "length (di_direct ino) = 27" and w: "\<forall>w\<in>set (di_words ino). w < 256 ^ 4"
    using assms(3) by (simp_all add: di_ok_def)
  have lw: "length (di_words ino) = 31" using d by (simp add: di_words_def)
  have dr: "drop (off + 4) (di_put off ino bs) = bytes_of 4 (di_words ino) @ drop (off + 128) bs"
    using assms(1,2) lw by (simp add: di_put_def splice_def add.commute)
  have "words_of 4 31 (drop (off + 4) (di_put off ino bs)) = di_words ino"
    unfolding dr using words_of_bytes_of_append [OF w] lw by simp
  moreover have "di_put off ino bs ! off = kind_byte (di_kind ino)"
    using assms(1,2) lw by (simp add: di_put_def splice_def nth_append)
  ultimately show ?thesis
    using d by (simp add: di_get_def Let_def di_words_def nth_Cons' nth_append)
qed

text \<open>Writing an inode leaves the bytes of the other inodes of the block alone.\<close>

lemma di_get_put_other:
  assumes "length bs = 512" "off + 128 \<le> 512" "off' + 128 \<le> 512" "length (di_direct ino) = 27"
    and "off' + 128 \<le> off \<or> off + 128 \<le> off'"
  shows "di_get off' (di_put off ino bs) = di_get off' bs"
proof -
  have lw: "length (di_words ino) = 31" using assms(4) by (simp add: di_words_def)
  have nth: "di_put off ino bs ! i = bs ! i" if "off' \<le> i" "i < off' + 128" for i
  proof -
    have "\<not> (off + 4 \<le> i \<and> i < off + 4 + 124)" "i \<noteq> off" "i < 512" using that assms(3,5) by auto
    then show ?thesis using assms(1,2) lw by (auto simp: di_put_def nth_splice nth_list_update)
  qed
  have "take 124 (drop (off' + 4) (di_put off ino bs)) = take 124 (drop (off' + 4) bs)"
    by (rule nth_equalityI) (use assms(1-4) nth in simp_all)
  then have "words_of 4 31 (take 124 (drop (off' + 4) (di_put off ino bs))) =
      words_of 4 31 (take 124 (drop (off' + 4) bs))" by (rule arg_cong)
  then have "words_of 4 31 (drop (off' + 4) (di_put off ino bs)) = words_of 4 31 (drop (off' + 4) bs)"
    by (simp add: words_of_take)
  then show ?thesis using nth [of off'] by (simp add: di_get_def Let_def)
qed

lemma length_de_as_bytes: "length (de_name d) = 28 \<Longrightarrow> length (de_as_bytes d) = 32"
  by (simp add: de_as_bytes_def)

lemma de_of_as_bytes:
  "length (de_name d) = 28 \<Longrightarrow> de_inode_number d < 2 ^ 32 \<Longrightarrow> de_of_bytes (de_as_bytes d) = d"
  by (simp add: de_of_bytes_def de_as_bytes_def)

lemma position_Cons_miss: "\<forall>x\<in>set xs. \<not> P x \<Longrightarrow> P y \<Longrightarrow> position P (xs @ y # ys) = Some (length xs)"
  by (induction xs) auto

lemma de_name_str_padded:
  assumes "0 \<notin> set name"
  shows "de_name_str \<lparr>de_name = name @ replicate n 0, de_inode_number = i\<rparr> =
    (if utf8_valid name then Some name else None)"
proof (cases n)
  case 0
  have "position (\<lambda>c. c = 0) name = None" using assms by auto
  then show ?thesis using 0 by (simp add: de_name_str_def Let_def del: position_None)
next
  case (Suc m)
  have "position (\<lambda>c. c = 0) (name @ 0 # replicate m 0) = Some (length name)"
    by (rule position_Cons_miss) (use assms in auto)
  then show ?thesis using Suc by (simp add: de_name_str_def Let_def)
qed

text \<open>C40: a directory entry made for a name of at most 28 bytes without a NUL byte, written as its
  32 bytes and read back, gives the same name and inode number; for a longer name \<open>DirEntry::new\<close>
  panics.\<close>

theorem dir_entry_round_trip:
  assumes "utf8_valid name" "0 \<notin> set name" "inode_number < 2 ^ 32"
  shows "if length name \<le> 28
    then \<exists>d. de_new name inode_number = Some d \<and> length (de_as_bytes d) = 32 \<and>
           de_name_str (de_of_bytes (de_as_bytes d)) = Some name \<and>
           de_inode_number (de_of_bytes (de_as_bytes d)) = inode_number
    else de_new name inode_number = None"
proof (cases "length name \<le> 28")
  case True
  let ?d = "\<lparr>de_name = name @ replicate (28 - length name) 0, de_inode_number = inode_number\<rparr>"
  have "de_new name inode_number = Some ?d"
    using True by (simp add: de_new_def splice_def NAME_LENGTH_LIMIT_def)
  moreover have "de_of_bytes (de_as_bytes ?d) = ?d" using True assms(3) by (intro de_of_as_bytes) simp_all
  ultimately show ?thesis
    using True assms(1) de_name_str_padded [OF assms(2)] by (simp add: length_de_as_bytes)
next
  case False
  then show ?thesis by (simp add: de_new_def NAME_LENGTH_LIMIT_def)
qed

theorem dir_entry_round_trip_witness:
  "\<exists>d. de_new [0x2F, 0xC3, 0xA9] 7 = Some d \<and>
     de_name_str (de_of_bytes (de_as_bytes d)) = Some [0x2F, 0xC3, 0xA9] \<and>
     de_inode_number (de_of_bytes (de_as_bytes d)) = 7"
proof -
  have v: "utf8_valid [0x2F, 0xC3, 0xA9]" "(0 :: u8) \<notin> set [0x2F, 0xC3, 0xA9]" "(7 :: nat) < 2 ^ 32"
    "length [0x2F, 0xC3, 0xA9 :: u8] \<le> 28"
    by (simp_all add: utf8_cont_def)
  from dir_entry_round_trip [OF v(1-3)] show ?thesis unfolding if_P [OF v(4)] by blast
qed

text \<open>the super block and every disk inode survive being written to the bytes of a block and
  read back, a write keeps the size of the block, and an inode written at one slot of a block
  leaves the inodes of the other slots unchanged.\<close>

theorem disk_structures_round_trip:
  assumes "length bs = 512" "slot < 4" "slot' < 4" "slot' \<noteq> slot" "di_ok ino"
    and "total_blocks < 2 ^ 32" "ib < 2 ^ 32" "ia < 2 ^ 32" "db < 2 ^ 32" "da < 2 ^ 32"
  shows "di_get (slot * DISK_INODE_SIZE) (di_put (slot * DISK_INODE_SIZE) ino bs) = ino \<and>
    di_get (slot' * DISK_INODE_SIZE) (di_put (slot * DISK_INODE_SIZE) ino bs) =
      di_get (slot' * DISK_INODE_SIZE) bs \<and>
    length (di_put (slot * DISK_INODE_SIZE) ino bs) = 512 \<and>
    sb_get (sb_put (sb_init total_blocks ib ia db da) bs) = sb_init total_blocks ib ia db da \<and>
    sb_is_valid (sb_get (sb_put (sb_init total_blocks ib ia db da) bs))"
proof -
  have "slot' * 128 + 128 \<le> slot * 128 \<or> slot * 128 + 128 \<le> slot' * 128"
    using assms(4) by (cases "slot' < slot") auto
  moreover have "length (di_direct ino) = 27" using assms(5) by (simp add: di_ok_def)
  moreover have "sb_get (sb_put (sb_init total_blocks ib ia db da) bs) = sb_init total_blocks ib ia db da"
    by (rule sb_round_trip_aux(1)) (use assms in \<open>simp_all add: sb_init_def EFS_MAGIC_def\<close>)
  ultimately show ?thesis
    using assms by (simp add: di_get_put di_get_put_other sb_is_valid_def sb_init_def)
qed

theorem disk_structures_witness:
  "di_get 128 (di_put 256 (di_init Directory (di_get 256 (replicate 512 0))) (replicate 512 0)) =
   di_get 128 (replicate 512 0)"
proof -
  have l: "length (replicate 512 (0 :: u8)) = 512" by simp
  have "di_ok (di_init Directory (di_get 256 (replicate 512 0)))"
    using di_ok_get [OF l, of 256] by (simp add: di_ok_def di_init_def di_words_def)
  from disk_structures_round_trip [OF l, of 2 1, OF _ _ _ this, of 0 0 0 0 0]
  show ?thesis by simp
qed

end
