(* ===== verification/InodeTree.thy ===== *)
theory InodeTree
  imports Layout "HOL-Library.Multiset"
begin

text \<open>
  The trees of indirect blocks of a disk inode: \<open>DiskInode::build_tree\<close> and
  \<open>DiskInode::collect_tree\<close> of \<open>easy-fs/src/layout.rs\<close>. A tree of depth \<open>d\<close> below a block holds up to
  \<open>128^d\<close> leaves, packed to the left. \<open>nodes\<close>, \<open>leaves\<close> and \<open>inner\<close> read the tree off the disk:
  all blocks below the root in pre-order, the data blocks in file order, and the indirect blocks
  with the root. The main lemma, \<open>build_tree_ok\<close>, says that growing a tree keeps its leaves,
  takes exactly the blocks it needs from the front of the supply, hangs each of them into the tree
  once, and writes no block but the indirect ones.
\<close>

section \<open>Growing a tree\<close>

text \<open>The loop over the words of one indirect block; \<open>f\<close> is the recursive call for a child.\<close>

fun build_loop :: "(nat \<Rightarrow> nat \<Rightarrow> nat list \<Rightarrow> disk \<Rightarrow> (nat \<times> nat list \<times> disk) option) \<Rightarrow> nat \<Rightarrow> nat \<Rightarrow>
    nat list \<Rightarrow> nat \<Rightarrow> nat list \<Rightarrow> disk \<Rightarrow> (nat list \<times> nat \<times> nat list \<times> disk) option" where
  "build_loop f src_leaf dst_leaf [] cur_leaf blocks s = Some ([], cur_leaf, blocks, s)"
| "build_loop f src_leaf dst_leaf (indirect # rest) cur_leaf blocks s =
     (if cur_leaf \<ge> dst_leaf then Some (indirect # rest, cur_leaf, blocks, s)
      else do {
        (indirect', blocks1) \<leftarrow> (if cur_leaf \<ge> src_leaf
           then (case blocks of [] \<Rightarrow> None | b # bs \<Rightarrow> Some (b, bs))
           else Some (indirect, blocks));
        (cur_leaf', blocks2, s1) \<leftarrow> f indirect' cur_leaf blocks1 s;
        (rest', cur_leaf'', blocks3, s2) \<leftarrow> build_loop f src_leaf dst_leaf rest cur_leaf' blocks2 s1;
        Some (indirect' # rest', cur_leaf'', blocks3, s2)
      })"

text \<open>The first argument is \<open>dst_depth - cur_depth\<close>.\<close>

primrec build_tree :: "nat \<Rightarrow> nat list \<Rightarrow> nat \<Rightarrow> nat \<Rightarrow> nat \<Rightarrow> nat \<Rightarrow> nat list \<Rightarrow> disk \<Rightarrow>
    (nat \<times> nat list \<times> disk) option" where
  "build_tree 0 held block_id cur_leaf src_leaf dst_leaf blocks s = Some (cur_leaf + 1, blocks, s)"
| "build_tree (Suc d) held block_id cur_leaf src_leaf dst_leaf blocks s = do {
     indirect_block \<leftarrow> blk_read held block_id s;
     (indirect_block', cur_leaf', blocks', s1) \<leftarrow>
       build_loop (\<lambda>indirect cur bs t. build_tree d (block_id # held) indirect cur src_leaf dst_leaf bs t)
         src_leaf dst_leaf (ind_block indirect_block) cur_leaf blocks s;
     s2 \<leftarrow> blk_write held block_id (bytes_of 4 indirect_block') s1;
     Some (cur_leaf', blocks', s2)
   }"

section \<open>Collecting a tree\<close>

fun collect_loop :: "(nat list \<Rightarrow> nat \<Rightarrow> nat \<Rightarrow> (nat list \<times> nat) option) \<Rightarrow> nat \<Rightarrow> nat list \<Rightarrow>
    nat list \<Rightarrow> nat \<Rightarrow> (nat list \<times> nat) option" where
  "collect_loop f max_leaf [] collected cur_leaf = Some (collected, cur_leaf)"
| "collect_loop f max_leaf (indirect # rest) collected cur_leaf =
     (if cur_leaf \<ge> max_leaf then Some (collected, cur_leaf)
      else do {
        (collected', cur_leaf') \<leftarrow> f (collected @ [indirect]) indirect cur_leaf;
        collect_loop f max_leaf rest collected' cur_leaf'
      })"

primrec collect_tree :: "nat \<Rightarrow> nat list \<Rightarrow> nat list \<Rightarrow> nat \<Rightarrow> nat \<Rightarrow> nat \<Rightarrow> disk \<Rightarrow>
    (nat list \<times> nat) option" where
  "collect_tree 0 held collected block_id cur_leaf max_leaf s = Some (collected, cur_leaf + 1)"
| "collect_tree (Suc d) held collected block_id cur_leaf max_leaf s = do {
     indirect_block \<leftarrow> blk_read held block_id s;
     collect_loop (\<lambda>col indirect cur. collect_tree d (block_id # held) col indirect cur max_leaf s)
       max_leaf (ind_block indirect_block) collected cur_leaf
   }"

section \<open>Trees on the disk\<close>

text \<open>\<open>g i k\<close> is what the child with root \<open>i\<close> and \<open>k\<close> leaves contributes; all children but the
  last have \<open>cap\<close> leaves.\<close>

fun forest :: "(nat \<Rightarrow> nat \<Rightarrow> nat list) \<Rightarrow> nat \<Rightarrow> nat \<Rightarrow> nat list \<Rightarrow> nat list" where
  "forest g cap n [] = []"
| "forest g cap n (i # is) = (if n = 0 then [] else g i (min cap n) @ forest g cap (n - cap) is)"

primrec nodes :: "nat \<Rightarrow> nat \<Rightarrow> nat \<Rightarrow> disk \<Rightarrow> nat list" where
  "nodes 0 b n s = []"
| "nodes (Suc d) b n s = forest (\<lambda>i k. i # nodes d i k s) (128 ^ d) n (ind_block (s ! b))"

primrec leaves :: "nat \<Rightarrow> nat \<Rightarrow> nat \<Rightarrow> disk \<Rightarrow> nat list" where
  "leaves 0 b n s = (if n = 0 then [] else [b])"
| "leaves (Suc d) b n s = forest (\<lambda>i k. leaves d i k s) (128 ^ d) n (ind_block (s ! b))"

primrec inner :: "nat \<Rightarrow> nat \<Rightarrow> nat \<Rightarrow> disk \<Rightarrow> nat list" where
  "inner 0 b n s = []"
| "inner (Suc d) b n s = b # forest (\<lambda>i k. inner d i k s) (128 ^ d) n (ind_block (s ! b))"

abbreviation fnodes :: "nat \<Rightarrow> nat \<Rightarrow> nat list \<Rightarrow> disk \<Rightarrow> nat list" where
  "fnodes d n is s \<equiv> forest (\<lambda>i k. i # nodes d i k s) (128 ^ d) n is"

abbreviation fleaves :: "nat \<Rightarrow> nat \<Rightarrow> nat list \<Rightarrow> disk \<Rightarrow> nat list" where
  "fleaves d n is s \<equiv> forest (\<lambda>i k. leaves d i k s) (128 ^ d) n is"

abbreviation finner :: "nat \<Rightarrow> nat \<Rightarrow> nat list \<Rightarrow> disk \<Rightarrow> nat list" where
  "finner d n is s \<equiv> forest (\<lambda>i k. inner d i k s) (128 ^ d) n is"

text \<open>The number of blocks below the root of a tree with \<open>n\<close> leaves.\<close>

definition tot :: "nat \<Rightarrow> nat \<Rightarrow> nat" where
  "tot d n = (\<Sum>j<d. div_ceil n (128 ^ j))"

section \<open>Forests\<close>

lemma forest_0 [simp]: "forest g cap 0 is = []"
  by (cases "is") simp_all

lemma forest_cong:
  "(\<And>i k. i \<in> set is \<Longrightarrow> 0 < k \<Longrightarrow> set (h i k) \<subseteq> set (forest h cap n is) \<Longrightarrow> g i k = g' i k) \<Longrightarrow> 0 < cap \<Longrightarrow>
   forest g cap n is = forest g' cap n is"
proof (induction "is" arbitrary: n)
  case (Cons i "is")
  show ?case
  proof (cases "n = 0")
    case False
    have "g i (min cap n) = g' i (min cap n)"
      using False Cons.prems by (intro Cons.prems(1)) auto
    moreover have "forest g cap (n - cap) is = forest g' cap (n - cap) is"
      by (rule Cons.IH [OF Cons.prems]) (use False in auto)
    ultimately show ?thesis by simp
  qed simp
qed simp

lemma nodes_0 [simp]: "nodes d b 0 s = []"
  by (cases d) simp_all

lemma leaves_0 [simp]: "leaves d b 0 s = []"
  by (cases d) simp_all

text \<open>The tree depends on its indirect blocks only.\<close>

lemma tree_frame:
  assumes "\<forall>x\<in>set (inner d b n s). s' ! x = s ! x" "0 < n"
  shows "nodes d b n s' = nodes d b n s \<and> leaves d b n s' = leaves d b n s \<and> inner d b n s' = inner d b n s"
  using assms
proof (induction d arbitrary: b n)
  case (Suc d)
  let ?is = "ind_block (s ! b)"
  have b: "s' ! b = s ! b" using Suc.prems by simp
  have k: "nodes d i k s' = nodes d i k s \<and> leaves d i k s' = leaves d i k s \<and> inner d i k s' = inner d i k s"
    if "0 < k" "set (inner d i k s) \<subseteq> set (finner d n ?is s)" for i k
    using that Suc.prems by (intro Suc.IH) auto
  have "fnodes d n ?is s' = fnodes d n ?is s" "fleaves d n ?is s' = fleaves d n ?is s"
    "finner d n ?is s' = finner d n ?is s"
    using k by (auto intro!: forest_cong [where h = "\<lambda>i k. inner d i k s"])
  then show ?case using b by simp
qed simp

lemma forest_frame:
  assumes "\<forall>x\<in>set (finner d n is s). s' ! x = s ! x"
  shows "fnodes d n is s' = fnodes d n is s" "fleaves d n is s' = fleaves d n is s"
    "finner d n is s' = finner d n is s"
proof -
  have k: "nodes d i k s' = nodes d i k s \<and> leaves d i k s' = leaves d i k s \<and> inner d i k s' = inner d i k s"
    if "0 < k" "set (inner d i k s) \<subseteq> set (finner d n is s)" for i k
    by (rule tree_frame) (use that assms in auto)
  show "fnodes d n is s' = fnodes d n is s" "fleaves d n is s' = fleaves d n is s"
    "finner d n is s' = finner d n is s"
    using k by (auto intro!: forest_cong [where h = "\<lambda>i k. inner d i k s"])
qed

lemma mset_forest_split:
  "(\<And>i k. 0 < k \<Longrightarrow> mset (g i k) = mset (g1 i k) + mset (g2 i k)) \<Longrightarrow> 0 < cap \<Longrightarrow>
   mset (forest g cap n is) = mset (forest g1 cap n is) + mset (forest g2 cap n is)"
  by (induction "is" arbitrary: n) simp_all

text \<open>Below a root stand the indirect blocks and the leaves.\<close>

lemma mset_nodes: "0 < n \<Longrightarrow> mset (b # nodes d b n s) = mset (inner d b n s) + mset (leaves d b n s)"
proof (induction d arbitrary: b n)
  case (Suc d)
  have "mset (fnodes d n (ind_block (s ! b)) s) =
      mset (finner d n (ind_block (s ! b)) s) + mset (fleaves d n (ind_block (s ! b)) s)"
    by (rule mset_forest_split) (use Suc.IH in auto)
  then show ?case by simp
qed simp

lemma set_inner_subset: "0 < n \<Longrightarrow> set (inner d b n s) \<subseteq> set (b # nodes d b n s)"
  by (metis mset_nodes set_mset_mset set_mset_union Un_upper1)

lemma set_forest_mono:
  "(\<And>i k. 0 < k \<Longrightarrow> set (g i k) \<subseteq> set (h i k)) \<Longrightarrow> 0 < cap \<Longrightarrow> set (forest g cap n is) \<subseteq> set (forest h cap n is)"
proof (induction "is" arbitrary: n)
  case (Cons i "is")
  have "set (g i (min cap n)) \<subseteq> set (h i (min cap n))" if "n \<noteq> 0"
    by (rule Cons.prems(1)) (use that Cons.prems(2) in simp)
  then show ?case using Cons.IH [OF Cons.prems, of "n - cap"] by auto
qed simp

lemma set_finner_subset: "set (finner d n is s) \<subseteq> set (fnodes d n is s)"
  by (rule set_forest_mono [OF set_inner_subset]) simp_all

lemma length_forest:
  "(\<And>i k. 0 < k \<Longrightarrow> k \<le> cap \<Longrightarrow> length (g i k) = k) \<Longrightarrow> n \<le> cap * length is \<Longrightarrow> 0 < cap \<Longrightarrow>
   length (forest g cap n is) = n"
proof (induction "is" arbitrary: n)
  case (Cons i "is")
  have "length (forest g cap (n - cap) is) = n - cap"
    by (rule Cons.IH) (use Cons.prems in \<open>auto simp: algebra_simps\<close>)
  then show ?case using Cons.prems by (simp add: min_def)
qed simp

lemma length_leaves: "n \<le> 128 ^ d \<Longrightarrow> length (leaves d b n s) = n"
proof (induction d arbitrary: b n)
  case (Suc d)
  have "length (fleaves d n (ind_block (s ! b)) s) = n"
    by (rule length_forest) (use Suc in auto)
  then show ?case by simp
qed simp

lemma length_fleaves: "n \<le> 128 ^ d * length is \<Longrightarrow> length (fleaves d n is s) = n"
  by (rule length_forest) (simp_all add: length_leaves)

section \<open>Counting\<close>

lemma div_ceil_0 [simp]: "div_ceil 0 b = 0"
  by (simp add: div_ceil_def)

lemma div_ceil_1 [simp]: "div_ceil n (Suc 0) = n"
  by (simp add: div_ceil_def)

lemma div_ceil_alt: "0 < b \<Longrightarrow> div_ceil a b = (a + b - 1) div b"
proof -
  assume b: "0 < b"
  have "a + b - 1 = a div b * b + (a mod b + b - 1)" using b by simp
  then have "(a + b - 1) div b = a div b + (a mod b + b - 1) div b"
    using b by (metis add.commute div_mult_self1 not_less_zero)
  moreover have "(a mod b + b - 1) div b = (if a mod b = 0 then 0 else 1)"
    using b mod_less_divisor [OF b, of a] by (auto simp: div_nat_eqI)
  ultimately show ?thesis by (simp add: div_ceil_def)
qed

lemma div_ceil_mono: "0 < b \<Longrightarrow> m \<le> n \<Longrightarrow> div_ceil m b \<le> div_ceil n b"
  by (simp add: div_ceil_alt div_le_mono)

lemma div_ceil_small: "0 < n \<Longrightarrow> n \<le> b \<Longrightarrow> div_ceil n b = 1"
  by (simp add: div_ceil_alt div_nat_eqI)

lemma div_ceil_add_mult: "0 < b \<Longrightarrow> div_ceil (n + q * b) b = q + div_ceil n b"
  by (simp add: div_ceil_def)

lemma tot_0 [simp]: "tot d 0 = 0"
  by (simp add: tot_def)

lemma tot_depth_0 [simp]: "tot 0 n = 0"
  by (simp add: tot_def)

lemma tot_mono: "m \<le> n \<Longrightarrow> tot d m \<le> tot d n"
  by (auto simp: tot_def intro!: sum_mono div_ceil_mono)

lemma tot_add_cap: "tot d (n + 128 ^ d) = tot d (128 ^ d) + tot d n"
proof -
  have "div_ceil (n + 128 ^ d) (128 ^ j) = div_ceil (128 ^ d) (128 ^ j) + div_ceil n (128 ^ j)" if "j < d" for j
  proof -
    have "(128 :: nat) ^ d = 128 ^ (d - j) * 128 ^ j" using that by (simp flip: power_add)
    then show ?thesis
      using div_ceil_add_mult [of "128 ^ j" n "128 ^ (d - j)"] div_ceil_add_mult [of "128 ^ j" 0 "128 ^ (d - j)"]
      by simp
  qed
  then show ?thesis by (simp add: tot_def flip: sum.distrib)
qed

text \<open>A tree is its first child and the tree of the others.\<close>

lemma tot_rec: "0 < n \<Longrightarrow> tot (Suc d) n = 1 + tot d (min (128 ^ d) n) + tot (Suc d) (n - 128 ^ d)"
proof (cases "n \<le> 128 ^ d")
  case True
  then show "0 < n \<Longrightarrow> ?thesis" by (simp add: tot_def div_ceil_small min_def)
next
  case False
  then obtain m where n: "n = m + 128 ^ d" by (metis le_add_diff_inverse2 nat_le_linear)
  have "div_ceil (m + 128 ^ d) (128 ^ d) = 1 + div_ceil m (128 ^ d)"
    using div_ceil_add_mult [of "128 ^ d" m 1] by simp
  then show "0 < n \<Longrightarrow> ?thesis" using tot_add_cap [of d m] n by (simp add: tot_def)
qed

lemma length_fnodes:
  "(\<And>i k. k \<le> 128 ^ d \<Longrightarrow> length (nodes d i k s) = tot d k) \<Longrightarrow> n \<le> 128 ^ d * length is \<Longrightarrow>
   length (fnodes d n is s) = tot (Suc d) n"
proof (induction "is" arbitrary: n)
  case (Cons i "is")
  have "length (fnodes d (n - 128 ^ d) is s) = tot (Suc d) (n - 128 ^ d)"
    by (rule Cons.IH) (use Cons.prems in \<open>auto simp: algebra_simps\<close>)
  then show ?case using Cons.prems(1) tot_rec [of n d] by simp
qed simp

lemma length_nodes: "n \<le> 128 ^ d \<Longrightarrow> length (nodes d b n s) = tot d n"
proof (induction d arbitrary: b n)
  case (Suc d)
  have "length (fnodes d n (ind_block (s ! b)) s) = tot (Suc d) n"
    by (rule length_fnodes) (use Suc in auto)
  then show ?case by simp
qed simp

section \<open>Growing keeps the tree\<close>

text \<open>\<open>s'\<close> holds below \<open>b\<close> the tree of \<open>s\<close>, grown from \<open>m\<close> to \<open>n\<close> leaves with the first blocks of
  \<open>bs\<close>, and only its indirect blocks have changed.\<close>

definition tree_grown :: "nat \<Rightarrow> nat \<Rightarrow> nat \<Rightarrow> nat \<Rightarrow> nat list \<Rightarrow> disk \<Rightarrow> disk \<Rightarrow> bool" where
  "tree_grown d b m n bs s s' \<longleftrightarrow> length s' = length s \<and> disk_ok s' \<and>
     mset (nodes d b n s') = mset (nodes d b m s) + mset (take (tot d n - tot d m) bs) \<and>
     take m (leaves d b n s') = leaves d b m s \<and>
     (\<forall>x. x \<notin> set (inner d b n s') \<longrightarrow> s' ! x = s ! x)"

definition forest_grown :: "nat \<Rightarrow> nat \<Rightarrow> nat \<Rightarrow> nat list \<Rightarrow> nat list \<Rightarrow> nat list \<Rightarrow> disk \<Rightarrow> disk \<Rightarrow> bool" where
  "forest_grown d m n is is' bs s s' \<longleftrightarrow> length is' = length is \<and> (\<forall>i\<in>set is'. i < 2 ^ 32) \<and>
     length s' = length s \<and> disk_ok s' \<and>
     mset (fnodes d n is' s') = mset (fnodes d m is s) + mset (take (tot (Suc d) n - tot (Suc d) m) bs) \<and>
     take m (fleaves d n is' s') = fleaves d m is s \<and>
     (\<forall>x. x \<notin> set (finner d n is' s') \<longrightarrow> s' ! x = s ! x)"

text \<open>The blocks \<open>xs\<close> of a tree and the supply \<open>bs\<close> are distinct blocks of the disk that nobody
  holds, and the supply has at least \<open>k\<close> blocks.\<close>

definition supplied :: "nat list \<Rightarrow> nat list \<Rightarrow> nat list \<Rightarrow> nat \<Rightarrow> disk \<Rightarrow> bool" where
  "supplied held xs bs k s \<longleftrightarrow> distinct (xs @ bs) \<and> set (xs @ bs) \<inter> set held = {} \<and>
     (\<forall>x\<in>set (xs @ bs). x < length s) \<and> (\<forall>x\<in>set bs. x < 2 ^ 32) \<and> k \<le> length bs \<and> disk_ok s"

lemma supplied_rest:
  assumes "supplied held (xs @ ys) bs (k1 + k2) s" "length s' = length s" "disk_ok s'"
  shows "supplied held ys (drop k1 bs) k2 s'"
proof -
  have "set (drop k1 bs) \<subseteq> set bs" by (rule set_drop_subset)
  then show ?thesis using assms by (auto simp: supplied_def)
qed

lemma set_of_mset_add: "mset xs = mset ys + mset zs \<Longrightarrow> set xs = set ys \<union> set zs"
  by (metis set_mset_mset set_mset_union)

lemma set_tree_grown:
  "tree_grown d b m n bs s s' \<Longrightarrow> set (nodes d b n s') = set (nodes d b m s) \<union> set (take (tot d n - tot d m) bs)"
  by (rule set_of_mset_add) (simp add: tree_grown_def)

lemma set_forest_grown:
  "forest_grown d m n is is' bs s s' \<Longrightarrow>
   set (fnodes d n is' s') = set (fnodes d m is s) \<union> set (take (tot (Suc d) n - tot (Suc d) m) bs)"
  by (rule set_of_mset_add) (simp only: forest_grown_def)

lemma tree_grown_frame: "tree_grown d b m n bs s s' \<Longrightarrow> x \<notin> set (inner d b n s') \<Longrightarrow> s' ! x = s ! x"
  unfolding tree_grown_def by blast

lemma forest_grown_frame:
  "forest_grown d m n is is' bs s s' \<Longrightarrow> x \<notin> set (finner d n is' s') \<Longrightarrow> s' ! x = s ! x"
  unfolding forest_grown_def by blast

text \<open>Growing one child leaves its siblings alone.\<close>

lemma siblings_kept:
  assumes t: "tree_grown d i m n bs s s'" and n: "0 < n"
    and dist: "i \<notin> set (fnodes d k is s)" "set (nodes d i m s) \<inter> set (fnodes d k is s) = {}"
      "set (fnodes d k is s) \<inter> set bs = {}"
  shows "fnodes d k is s' = fnodes d k is s" "fleaves d k is s' = fleaves d k is s"
    "finner d k is s' = finner d k is s"
proof -
  have sub: "set (inner d i n s') \<subseteq> insert i (set (nodes d i m s) \<union> set (take (tot d n - tot d m) bs))"
    using set_inner_subset [OF n, of d i s'] set_tree_grown [OF t] by simp
  have "\<forall>x\<in>set (finner d k is s). s' ! x = s ! x"
  proof
    fix x assume "x \<in> set (finner d k is s)"
    then have "x \<in> set (fnodes d k is s)" using set_finner_subset [of d s k "is"] by (rule rev_subsetD)
    then have "x \<notin> set (inner d i n s')"
      using sub dist set_take_subset [of "tot d n - tot d m" bs] by blast
    then show "s' ! x = s ! x" by (rule tree_grown_frame [OF t])
  qed
  note fr = forest_frame [OF this]
  show "fnodes d k is s' = fnodes d k is s" "fleaves d k is s' = fleaves d k is s"
    "finner d k is s' = finner d k is s" by (rule fr)+
qed

text \<open>One child grown, then its right siblings.\<close>

lemma forest_grown_Cons:
  fixes bs i i' "is" d m n s
  defines "m1 \<equiv> min (128 ^ d) m" and "n1 \<equiv> min (128 ^ d) n"
  defines "k1 \<equiv> tot d n1 - tot d m1"
  assumes t: "tree_grown d i' m1 n1 bs1 s s1"
    and f: "forest_grown d (m - 128 ^ d) (n - 128 ^ d) is is' (drop k1 bs1) s1 s2"
    and fresh: "if m = 0 then bs = i' # bs1 else i' = i \<and> bs = bs1"
    and n: "0 < n" "m \<le> n" "n \<le> 128 ^ d * Suc (length is)" and i': "i' < 2 ^ 32"
    and dist: "distinct bs1" "i' \<notin> set bs1" "i' \<notin> set (fnodes d (m - 128 ^ d) is s)"
      "set (nodes d i' m1 s) \<inter> set (fnodes d (m - 128 ^ d) is s) = {}" "set (nodes d i' m1 s) \<inter> set bs1 = {}"
      "set (fnodes d (m - 128 ^ d) is s) \<inter> set bs1 = {}"
  shows "forest_grown d m n (i # is) (i' # is') bs s s2"
proof -
  let ?m2 = "m - 128 ^ d" and ?n2 = "n - 128 ^ d"
  define k2 where "k2 = tot (Suc d) ?n2 - tot (Suc d) ?m2"
  have n1: "0 < n1" "m1 \<le> n1" using n by (simp_all add: n1_def m1_def)
  have tm: "tot d m1 \<le> tot d n1" "tot (Suc d) ?m2 \<le> tot (Suc d) ?n2" using n1(2) n by (auto intro!: tot_mono)
  have in1: "set (inner d i' n1 s1) \<subseteq> insert i' (set (nodes d i' m1 s) \<union> set (take k1 bs1))"
    using set_inner_subset [OF n1(1), of d i' s1] set_tree_grown [OF t] by (simp add: k1_def)
  note nf1 = siblings_kept [OF t n1(1) dist(3,4,6)]
  have fi: "set (finner d ?n2 is' s2) \<subseteq> set (fnodes d ?m2 is s) \<union> set (take k2 (drop k1 bs1))"
    using set_finner_subset [of d s2 ?n2 is'] set_forest_grown [OF f] nf1 by (simp add: k2_def)
  have tk: "set (take k1 bs1) \<inter> set (take k2 (drop k1 bs1)) = {}"
    using set_take_disj_set_drop_if_distinct [OF dist(1) order_refl [of k1]] set_take_subset [of k2 "drop k1 bs1"]
    by blast
  have "\<forall>x\<in>set (inner d i' n1 s1). s2 ! x = s1 ! x"
  proof
    fix x assume "x \<in> set (inner d i' n1 s1)"
    then have "x \<notin> set (finner d ?n2 is' s2)"
      using in1 fi tk dist set_take_subset [of k1 bs1] set_take_subset [of k2 "drop k1 bs1"] set_drop_subset [of k1 bs1]
      by blast
    then show "s2 ! x = s1 ! x" by (rule forest_grown_frame [OF f])
  qed
  note fr = tree_frame [OF this n1(1)]
  have ns: "i' # nodes d i' n1 s2 @ fnodes d ?n2 is' s2 = fnodes d n (i' # is') s2"
    using n(1) by (simp add: n1_def)
  have "tot (Suc d) n - tot (Suc d) m = (if m = 0 then 1 else 0) + (k1 + k2)"
    using tot_rec [OF n(1), of d] tot_rec [of m d] tm by (simp add: k1_def k2_def m1_def n1_def)
  then have cnt: "take (tot (Suc d) n - tot (Suc d) m) bs =
      (if m = 0 then [i'] else []) @ take k1 bs1 @ take k2 (drop k1 bs1)"
    using fresh by (cases "m = 0") (simp_all add: take_add)
  have mt: "mset (nodes d i' n1 s2) = mset (nodes d i' m1 s) + mset (take k1 bs1)"
    using fr t by (simp add: tree_grown_def k1_def)
  have mf: "mset (fnodes d ?n2 is' s2) = mset (fnodes d ?m2 is s) + mset (take k2 (drop k1 bs1))"
    using f nf1 by (simp only: forest_grown_def k2_def)
  have m1: "mset (fnodes d n (i' # is') s2) = mset (fnodes d m (i # is) s) +
      mset (take (tot (Suc d) n - tot (Suc d) m) bs)"
    unfolding cnt ns [symmetric] using mt mf fresh by (cases "m = 0") (simp_all add: m1_def)
  have l1: "length (leaves d i' n1 s2) = n1" "length (leaves d i' m1 s) = m1"
    by (rule length_leaves, simp add: n1_def m1_def)+
  have m2: "take m (fleaves d n (i' # is') s2) = fleaves d m (i # is) s"
  proof -
    have a: "take m1 (leaves d i' n1 s2) = leaves d i' m1 s"
      and b: "take ?m2 (fleaves d ?n2 is' s2) = fleaves d ?m2 is s"
      using fr t f nf1 by (simp_all add: tree_grown_def forest_grown_def)
    have "take m (leaves d i' n1 s2) = leaves d i' m1 s"
      using a l1 n by (cases "m \<le> 128 ^ d") (simp_all add: m1_def n1_def)
    moreover have "take (m - n1) (fleaves d ?n2 is' s2) = fleaves d ?m2 is s"
      using b n by (cases "m \<le> 128 ^ d") (simp_all add: n1_def)
    ultimately show ?thesis using n(1) l1 fresh by (cases "m = 0") (simp_all flip: m1_def n1_def)
  qed
  have "\<forall>x. x \<notin> set (finner d n (i' # is') s2) \<longrightarrow> s2 ! x = s ! x"
    using n(1) fr t f by (simp add: tree_grown_def forest_grown_def flip: n1_def)
  then show ?thesis using m1 m2 t f i' by (simp add: tree_grown_def forest_grown_def)
qed

text \<open>What the recursive call promises for a child, in the terms of \<open>build_loop\<close>.\<close>

definition child_spec :: "nat \<Rightarrow> nat list \<Rightarrow> nat \<Rightarrow> nat \<Rightarrow>
    (nat \<Rightarrow> nat \<Rightarrow> nat list \<Rightarrow> disk \<Rightarrow> (nat \<times> nat list \<times> disk) option) \<Rightarrow> bool" where
  "child_spec d held src dst f \<longleftrightarrow> (\<forall>i cur bs s m n. cur < dst \<longrightarrow>
     m = min (128 ^ d) (src - cur) \<longrightarrow> n = min (128 ^ d) (dst - cur) \<longrightarrow>
     supplied held (i # nodes d i m s) bs (tot d n - tot d m) s \<longrightarrow>
     (\<exists>s'. f i cur bs s = Some (min (cur + 128 ^ d) dst, drop (tot d n - tot d m) bs, s') \<and>
           tree_grown d i m n bs s s'))"

lemma child_specE:
  assumes "child_spec d held src dst f" "cur < dst" "m = min (128 ^ d) (src - cur)" "n = min (128 ^ d) (dst - cur)"
    "supplied held (i # nodes d i m s) bs (tot d n - tot d m) s"
  obtains s' where "f i cur bs s = Some (min (cur + 128 ^ d) dst, drop (tot d n - tot d m) bs, s')"
    "tree_grown d i m n bs s s'"
  using assms unfolding child_spec_def by blast

lemma forest_grown_refl:
  "disk_ok s \<Longrightarrow> \<forall>i\<in>set is. i < 2 ^ 32 \<Longrightarrow> forest_grown d 0 0 is is bs s s"
  by (simp add: forest_grown_def)

text \<open>How the counts of a loop split into the first child and the rest.\<close>

lemma split_counts:
  fixes cur src dst q cap :: nat
  assumes "cur < dst" "src \<le> dst" "0 < cap" "m = min (cap + q) (src - cur)" "n = min (cap + q) (dst - cur)"
  shows "min cap m = min cap (src - cur)" "min cap n = min cap (dst - cur)" "0 < n" "m \<le> n" "n \<le> cap + q"
    "m - cap = min q (src - min (cur + cap) dst)" "n - cap = min q (dst - min (cur + cap) dst)"
    "min (min (cur + cap) dst + q) dst = min (cur + (cap + q)) dst" "m = 0 \<longleftrightarrow> src \<le> cur"
  using assms by (auto simp: min_def)

lemma build_loop_ok:
  assumes f: "child_spec d held src dst f" and "src \<le> dst"
  shows "cur \<le> dst \<Longrightarrow> \<forall>i\<in>set is. i < 2 ^ 32 \<Longrightarrow>
    m = min (128 ^ d * length is) (src - cur) \<Longrightarrow> n = min (128 ^ d * length is) (dst - cur) \<Longrightarrow>
    supplied held (fnodes d m is s) bs (tot (Suc d) n - tot (Suc d) m) s \<Longrightarrow>
    \<exists>is' s'. build_loop f src dst is cur bs s =
        Some (is', min (cur + 128 ^ d * length is) dst, drop (tot (Suc d) n - tot (Suc d) m) bs, s') \<and>
      forest_grown d m n is is' bs s s'"
proof (induction "is" arbitrary: cur m n bs s)
  case Nil
  then show ?case by (auto simp: supplied_def intro!: forest_grown_refl)
next
  case (Cons i "is")
  let ?cap = "128 ^ d :: nat"
  have ok: "disk_ok s" using Cons.prems(5) by (simp add: supplied_def)
  show ?case
  proof (cases "cur = dst")
    case True
    then show ?thesis using Cons.prems(2-4) assms(2) ok by (auto intro!: forest_grown_refl)
  next
    case False
    then have cd: "cur < dst" using Cons.prems(1) by simp
    have "0 < ?cap" "m = min (?cap + ?cap * length is) (src - cur)" "n = min (?cap + ?cap * length is) (dst - cur)"
      using Cons.prems(3,4) by simp_all
    note sc = split_counts [OF cd assms(2) this]
    define m1 n1 where "m1 = min ?cap m" and "n1 = min ?cap n"
    define k1 where "k1 = tot d n1 - tot d m1"
    define k2 where "k2 = tot (Suc d) (n - ?cap) - tot (Suc d) (m - ?cap)"
    have tm: "tot d m1 \<le> tot d n1" "tot (Suc d) (m - ?cap) \<le> tot (Suc d) (n - ?cap)"
      using sc(4) by (auto simp: m1_def n1_def intro!: tot_mono)
    have k: "tot (Suc d) n - tot (Suc d) m = (if m = 0 then 1 else 0) + (k1 + k2)"
      using tot_rec [OF sc(3), of d] tot_rec [of m d] tm by (simp add: k1_def k2_def m1_def n1_def)
    obtain i' bs1 where fresh: "if m = 0 then bs = i' # bs1 else i' = i \<and> bs = bs1"
      and nx: "(if cur \<ge> src then (case bs of [] \<Rightarrow> None | b # bs \<Rightarrow> Some (b, bs)) else Some (i, bs)) = Some (i', bs1)"
      using that Cons.prems(5) k sc(9) by (cases bs) (auto simp: supplied_def split: if_splits)
    have i32: "i' < 2 ^ 32" using fresh Cons.prems(2,5) by (auto simp: supplied_def split: if_splits)
    have fN: "fnodes d m (i # is) s = (if m = 0 then [] else i # nodes d i m1 s @ fnodes d (m - ?cap) is s)"
      by (simp add: m1_def)
    have all: "supplied held (i' # nodes d i' m1 s @ fnodes d (m - ?cap) is s) bs1 (k1 + k2) s"
      using Cons.prems(5) fresh unfolding fN k by (cases "m = 0") (auto simp: supplied_def m1_def)
    have "supplied held (i' # nodes d i' m1 s) bs1 k1 s" using all by (auto simp: supplied_def)
    then obtain s1 where s1: "f i' cur bs1 s = Some (min (cur + ?cap) dst, drop k1 bs1, s1)"
      and g1: "tree_grown d i' m1 n1 bs1 s s1"
      using child_specE [OF f cd sc(1) [folded m1_def] sc(2) [folded n1_def]] unfolding k1_def by blast
    have n1: "0 < n1" using sc(3) by (simp add: n1_def)
    have dist: "distinct bs1" "i' \<notin> set bs1" "i' \<notin> set (fnodes d (m - ?cap) is s)"
      "set (nodes d i' m1 s) \<inter> set (fnodes d (m - ?cap) is s) = {}" "set (nodes d i' m1 s) \<inter> set bs1 = {}"
      "set (fnodes d (m - ?cap) is s) \<inter> set bs1 = {}"
      using all by (auto simp: supplied_def)
    note kept = siblings_kept [OF g1 n1 dist(3,4,6)]
    have r: "supplied held (fnodes d (m - ?cap) is s1) (drop k1 bs1) k2 s1"
      unfolding kept
      by (rule supplied_rest [of held "i' # nodes d i' m1 s" _ bs1 k1 k2 s]) (use all g1 in \<open>simp_all add: tree_grown_def\<close>)
    have "min (cur + ?cap) dst \<le> dst" "\<forall>i\<in>set is. i < 2 ^ 32" using Cons.prems(2) by simp_all
    from Cons.IH [OF this sc(6,7) r [unfolded k2_def], folded k2_def]
    obtain is' s2 where s2: "build_loop f src dst is (min (cur + ?cap) dst) (drop k1 bs1) s1 =
        Some (is', min (min (cur + ?cap) dst + ?cap * length is) dst, drop k2 (drop k1 bs1), s2)"
      and g2: "forest_grown d (m - ?cap) (n - ?cap) is is' (drop k1 bs1) s1 s2"
      by blast
    have "n \<le> ?cap * Suc (length is)" using sc(5) by simp
    from forest_grown_Cons [OF g1 [unfolded m1_def n1_def] g2 [unfolded k1_def m1_def n1_def] fresh sc(3,4) this i32 dist [unfolded m1_def]]
    have "forest_grown d m n (i # is) (i' # is') bs s s2" .
    moreover have "drop (tot (Suc d) n - tot (Suc d) m) bs = drop k2 (drop k1 bs1)"
      unfolding k using fresh by (cases "m = 0") (simp_all add: add.commute)
    moreover have "build_loop f src dst (i # is) cur bs s =
        Some (i' # is', min (cur + ?cap * length (i # is)) dst, drop k2 (drop k1 bs1), s2)"
      using cd nx s1 s2 sc(8) by simp
    ultimately show ?thesis by metis
  qed
qed

lemma build_tree_child: "src \<le> dst \<Longrightarrow>
  child_spec d held src dst (\<lambda>i cur bs t. build_tree d held i cur src dst bs t)"
proof (induction d arbitrary: held)
  case 0
  then show ?case by (auto simp: child_spec_def tree_grown_def supplied_def min_def)
next
  case (Suc d)
  show ?case unfolding child_spec_def
  proof (intro allI impI)
    fix b cur bs s m n
    assume cd: "cur < dst" and m: "m = min (128 ^ Suc d) (src - cur)" and n: "n = min (128 ^ Suc d) (dst - cur)"
      and sup: "supplied held (b # nodes (Suc d) b m s) bs (tot (Suc d) n - tot (Suc d) m) s"
    let ?k = "tot (Suc d) n - tot (Suc d) m"
    let ?is = "ind_block (s ! b)"
    have b: "b \<notin> set held" "b < length s" "disk_ok s" "b \<notin> set (fnodes d m ?is s)" "b \<notin> set bs"
      using sup by (auto simp: supplied_def)
    have w: "\<forall>i\<in>set ?is. i < 2 ^ 32" using words_of_bound [of _ 4] by simp
    have ml: "128 ^ d * length ?is = 128 ^ Suc d" by simp
    have "supplied (b # held) (fnodes d m ?is s) bs ?k s" using sup by (auto simp: supplied_def)
    from build_loop_ok [OF Suc.IH [OF Suc.prems] Suc.prems less_imp_le [OF cd] w _ _ this, unfolded ml, OF m n]
    obtain is' s1 where lp: "build_loop (\<lambda>i cur bs t. build_tree d (b # held) i cur src dst bs t) src dst ?is cur bs s =
        Some (is', min (cur + 128 ^ Suc d) dst, drop ?k bs, s1)" and g: "forest_grown d m n ?is is' bs s s1"
      by blast
    define s2 where "s2 = s1[b := bytes_of 4 is']"
    have ls: "length s1 = length s" "disk_ok s1" "length is' = 128" "\<forall>i\<in>set is'. i < 256 ^ 4"
      using g by (simp_all add: forest_grown_def)
    have ib: "ind_block (s2 ! b) = is'" using b(2) ls by (simp add: s2_def)
    have nb: "b \<notin> set (fnodes d n is' s1)"
      using set_forest_grown [OF g] b(4,5) set_take_subset [of ?k bs] by blast
    then have "b \<notin> set (finner d n is' s1)" using set_finner_subset by (rule contra_subsetD [rotated])
    then have fr: "\<forall>x\<in>set (finner d n is' s1). s2 ! x = s1 ! x"
      unfolding s2_def by (metis nth_list_update_neq)
    have nodes2: "nodes (Suc d) b n s2 = fnodes d n is' s1" "leaves (Suc d) b n s2 = fleaves d n is' s1"
      "inner (Suc d) b n s2 = b # finner d n is' s1"
      by (simp_all only: nodes.simps leaves.simps inner.simps ib forest_frame [OF fr])
    have "tree_grown (Suc d) b m n bs s s2"
      unfolding tree_grown_def nodes2 using g ls by (auto simp: forest_grown_def s2_def)
    moreover have "build_tree (Suc d) held b cur src dst bs s =
        Some (min (cur + 128 ^ Suc d) dst, drop ?k bs, s2)"
      using b lp ls by (simp add: s2_def)
    ultimately show "\<exists>s'. build_tree (Suc d) held b cur src dst bs s =
        Some (min (cur + 128 ^ Suc d) dst, drop ?k bs, s') \<and> tree_grown (Suc d) b m n bs s s'" by blast
  qed
qed

lemma build_tree_ok:
  assumes "0 < dst" "src \<le> dst" "m = min (128 ^ d) src" "n = min (128 ^ d) dst"
    and "supplied held (b # nodes d b m s) bs (tot d n - tot d m) s"
  obtains s' where "build_tree d held b 0 src dst bs s = Some (n, drop (tot d n - tot d m) bs, s')"
    "tree_grown d b m n bs s s'"
proof -
  have "m = min (128 ^ d) (src - 0)" "n = min (128 ^ d) (dst - 0)" "min (0 + 128 ^ d) dst = n"
    using assms(3,4) by simp_all
  then show ?thesis
    using child_specE [OF build_tree_child [OF assms(2)] assms(1) _ _ assms(5)] that by metis
qed

section \<open>Collecting lists the tree\<close>

lemma collect_loop_ok:
  assumes "\<And>col i cur n. cur < mx \<Longrightarrow> n = min (128 ^ d) (mx - cur) \<Longrightarrow> set (i # nodes d i n s) \<subseteq> A \<Longrightarrow>
      distinct (i # nodes d i n s) \<Longrightarrow> f col i cur = Some (col @ nodes d i n s, min (cur + 128 ^ d) mx)"
  shows "cur \<le> mx \<Longrightarrow> n = min (128 ^ d * length is) (mx - cur) \<Longrightarrow> set (fnodes d n is s) \<subseteq> A \<Longrightarrow>
    distinct (fnodes d n is s) \<Longrightarrow>
    collect_loop f mx is col cur = Some (col @ fnodes d n is s, min (cur + 128 ^ d * length is) mx)"
proof (induction "is" arbitrary: col cur n)
  case (Cons i "is")
  let ?cap = "128 ^ d :: nat"
  show ?case
  proof (cases "cur = mx")
    case False
    then have cd: "cur < mx" using Cons.prems(1) by simp
    have "0 < ?cap" "n = min (?cap + ?cap * length is) (mx - cur)" using Cons.prems(2) by simp_all
    note sc = split_counts [OF cd order_refl this(1) this(2) this(2)]
    have fN: "fnodes d n (i # is) s = i # nodes d i (min ?cap n) s @ fnodes d (n - ?cap) is s"
      using sc(3) by simp
    have "f (col @ [i]) i cur = Some ((col @ [i]) @ nodes d i (min ?cap n) s, min (cur + ?cap) mx)"
      using Cons.prems(3,4) unfolding fN by (intro assms cd sc) simp_all
    moreover have "collect_loop f mx is ((col @ [i]) @ nodes d i (min ?cap n) s) (min (cur + ?cap) mx) =
      Some (((col @ [i]) @ nodes d i (min ?cap n) s) @ fnodes d (n - ?cap) is s,
        min (min (cur + ?cap) mx + ?cap * length is) mx)"
      using Cons.prems(3,4) sc(7) unfolding fN by (intro Cons.IH) auto
    ultimately show ?thesis using cd sc(8) unfolding fN by simp
  qed (use Cons.prems in simp)
qed simp

lemma collect_tree_child:
  "cur < mx \<Longrightarrow> n = min (128 ^ d) (mx - cur) \<Longrightarrow> distinct (b # nodes d b n s) \<Longrightarrow>
   set (b # nodes d b n s) \<subseteq> {..<length s} - set held \<Longrightarrow>
   collect_tree d held col b cur mx s = Some (col @ nodes d b n s, min (cur + 128 ^ d) mx)"
proof (induction d arbitrary: held col b cur n)
  case (Suc d)
  let ?is = "ind_block (s ! b)"
  have "collect_loop (\<lambda>col i cur. collect_tree d (b # held) col i cur mx s) mx ?is col cur =
      Some (col @ fnodes d n ?is s, min (cur + 128 ^ d * length ?is) mx)"
  proof (rule collect_loop_ok [where A = "{..<length s} - set (b # held)"])
    show "n = min (128 ^ d * length ?is) (mx - cur)" using Suc.prems(2) by simp
    show "cur \<le> mx" "set (fnodes d n ?is s) \<subseteq> {..<length s} - set (b # held)" "distinct (fnodes d n ?is s)"
      using Suc.prems by auto
  qed (rule Suc.IH)
  moreover have "b \<notin> set held" "b < length s" using Suc.prems(4) by auto
  ultimately show ?case by simp
qed (auto simp: min_def)

lemma collect_tree_ok:
  assumes "0 < mx" "n = min (128 ^ d) mx" "distinct (b # nodes d b n s)"
    "set (b # nodes d b n s) \<subseteq> {..<length s} - set held"
  shows "collect_tree d held col b 0 mx s = Some (col @ nodes d b n s, n)"
  using collect_tree_child [of 0 mx n d b s held col] assms by (simp add: min.commute)

end
