(* ===== verification/DiskInode.thy ===== *)
theory DiskInode
  imports InodeTree
begin

text \<open>
  The operations of \<open>DiskInode\<close> on its blocks (\<open>easy-fs/src/layout.rs\<close>): looking up the id of a data
  block, growing, clearing and shrinking, and reading and writing bytes. The callers hold the lock
  of the block the inode is in (\<open>held\<close>); the inode itself is passed and returned as a record. The
  code handles the three levels of indirect blocks with three copies of the same statements; here
  the copies are one step of a recursion over the list of levels, whose entries are the depth, the
  number of blocks that stand before the level, and the root.
\<close>

section \<open>Operations\<close>

definition di_block_id :: "nat list \<Rightarrow> disk_inode \<Rightarrow> nat \<Rightarrow> disk \<Rightarrow> nat option" where
  "di_block_id held ino block_index s = (
     if block_index < DIRECT_BOUND then nth_opt (di_direct ino) block_index
     else if block_index < INDIRECT1_BOUND then do {
       b1 \<leftarrow> blk_read held (di_indirect1 ino) s;
       nth_opt (ind_block b1) (block_index - DIRECT_BOUND)
     }
     else if block_index < INDIRECT2_BOUND then let index = block_index - INDIRECT1_BOUND in do {
       b2 \<leftarrow> blk_read held (di_indirect2 ino) s;
       indirect1 \<leftarrow> nth_opt (ind_block b2) (index div INDIRECT1_COUNT);
       b1 \<leftarrow> blk_read held indirect1 s;
       nth_opt (ind_block b1) (index mod INDIRECT1_COUNT)
     }
     else let index = block_index - INDIRECT2_BOUND in do {
       b3 \<leftarrow> blk_read held (di_indirect3 ino) s;
       indirect2 \<leftarrow> nth_opt (ind_block b3) (index div INDIRECT2_COUNT);
       b2 \<leftarrow> blk_read held indirect2 s;
       indirect1 \<leftarrow> nth_opt (ind_block b2) (index mod INDIRECT2_COUNT div INDIRECT1_COUNT);
       b1 \<leftarrow> blk_read held indirect1 s;
       nth_opt (ind_block b1) (index mod INDIRECT2_COUNT mod INDIRECT1_COUNT)
     })"

type_synonym level = "nat \<times> nat \<times> nat"

definition di_levels :: "disk_inode \<Rightarrow> level list" where
  "di_levels ino = [(1, DIRECT_COUNT, di_indirect1 ino), (2, INDIRECT1_COUNT, di_indirect2 ino),
     (3, INDIRECT2_COUNT, di_indirect3 ino)]"

definition with_roots :: "nat list \<Rightarrow> disk_inode \<Rightarrow> disk_inode" where
  "with_roots rs ino = ino\<lparr>di_indirect1 := rs ! 0, di_indirect2 := rs ! 1, di_indirect3 := rs ! 2\<rparr>"

definition next_block :: "nat list \<Rightarrow> (nat \<times> nat list) option" where
  "next_block bs = (case bs of [] \<Rightarrow> None | b # bs' \<Rightarrow> Some (b, bs'))"

text \<open>The \<open>while\<close> loop over the direct slots; the first argument lists the values \<open>block_index\<close> takes.\<close>

fun inc_direct :: "nat list \<Rightarrow> nat list \<Rightarrow> nat list \<Rightarrow> (nat list \<times> nat list) option" where
  "inc_direct [] direct blocks = Some (direct, blocks)"
| "inc_direct (i # is) direct blocks = do {
     (b, blocks') \<leftarrow> next_block blocks;
     inc_direct is (direct[i := b]) blocks'
   }"

fun inc_levels :: "nat list \<Rightarrow> level list \<Rightarrow> nat \<Rightarrow> nat \<Rightarrow> nat list \<Rightarrow> disk \<Rightarrow>
    (nat list \<times> nat list \<times> disk) option" where
  "inc_levels held [] block_index new_total_blocks blocks s = Some ([], blocks, s)"
| "inc_levels held ((depth, bound, root) # ls) block_index new_total_blocks blocks s =
     (if new_total_blocks \<le> bound then Some (root # map (snd \<circ> snd) ls, blocks, s)
      else do {
        (root', blocks1) \<leftarrow> (if block_index = bound then next_block blocks else Some (root, blocks));
        (cur_leaf, blocks2, s1) \<leftarrow>
          build_tree depth held root' 0 (block_index - bound) (new_total_blocks - bound) blocks1 s;
        (roots, blocks3, s2) \<leftarrow>
          inc_levels held ls (max (block_index - bound) cur_leaf) (new_total_blocks - bound) blocks2 s1;
        Some (root' # roots, blocks3, s2)
      })"

definition di_increase_size :: "nat list \<Rightarrow> nat \<Rightarrow> nat list \<Rightarrow> disk_inode \<Rightarrow> disk \<Rightarrow> (disk_inode \<times> disk) option" where
  "di_increase_size held new_size new_blocks ino s = (
     let block_index = count_data_block (di_size ino);
         new_total_blocks = count_data_block new_size;
         direct_end = min new_total_blocks DIRECT_COUNT
     in do {
       (direct, blocks) \<leftarrow> inc_direct [block_index..<direct_end] (di_direct ino) new_blocks;
       (roots, blocks', s') \<leftarrow>
         inc_levels held (di_levels ino) (max block_index direct_end) new_total_blocks blocks s;
       Some (with_roots roots (ino\<lparr>di_size := new_size, di_direct := direct\<rparr>), s')
     })"

fun clear_levels :: "nat list \<Rightarrow> level list \<Rightarrow> nat \<Rightarrow> nat list \<Rightarrow> disk \<Rightarrow> (nat list \<times> nat list) option" where
  "clear_levels held [] data_blocks dropped s = Some ([], dropped)"
| "clear_levels held ((depth, bound, root) # ls) data_blocks dropped s =
     (if data_blocks \<le> bound then Some (root # map (snd \<circ> snd) ls, dropped)
      else do {
        (dropped', cur_leaf) \<leftarrow> collect_tree depth held (dropped @ [root]) root 0 (data_blocks - bound) s;
        (roots, dropped'') \<leftarrow> clear_levels held ls (data_blocks - bound) dropped' s;
        Some (0 # roots, dropped'')
      })"

definition di_clear_size :: "nat list \<Rightarrow> disk_inode \<Rightarrow> disk \<Rightarrow> (nat list \<times> disk_inode) option" where
  "di_clear_size held ino s = (
     let data_blocks = count_data_block (di_size ino) in do {
       (roots, dropped) \<leftarrow> clear_levels held (di_levels ino) data_blocks
         (take (min data_blocks DIRECT_COUNT) (di_direct ino)) s;
       Some (dropped, with_roots roots (ino\<lparr>di_size := 0, di_direct := replicate 27 0\<rparr>))
     })"

text \<open>\<open>decrease_size\<close>: the level entries carry what the code subtracts from \<open>recycled_blocks\<close>,
  which at the third level is \<open>INDIRECT1_COUNT\<close>. \<open>usize\<close> subtraction wraps.\<close>

definition usub :: "nat \<Rightarrow> nat \<Rightarrow> nat" where
  "usub a b = (a + 2 ^ 64 - b) mod 2 ^ 64"

fun dec_levels :: "nat list \<Rightarrow> (nat \<times> nat \<times> nat \<times> nat) list \<Rightarrow> nat \<Rightarrow> nat \<Rightarrow> nat list \<Rightarrow> disk \<Rightarrow>
    (nat list \<times> nat list) option" where
  "dec_levels held [] block_index recycled_blocks dropped s = Some ([], dropped)"
| "dec_levels held ((depth, bound, sub, root) # ls) block_index recycled_blocks dropped s =
     (if recycled_blocks \<le> bound then Some (root # map (snd \<circ> snd \<circ> snd) ls, dropped)
      else let (root', dropped1) = (if block_index = bound then (0, dropped @ [root]) else (root, dropped)) in do {
        (dropped2, cur_leaf) \<leftarrow> collect_tree depth held dropped1 root' 0 (usub recycled_blocks sub) s;
        (roots, dropped3) \<leftarrow>
          dec_levels held ls (min (usub block_index bound) cur_leaf) (usub recycled_blocks sub) dropped2 s;
        Some (root' # roots, dropped3)
      })"

definition di_decrease_size :: "nat list \<Rightarrow> nat \<Rightarrow> disk_inode \<Rightarrow> disk \<Rightarrow> (nat list \<times> disk_inode) option" where
  "di_decrease_size held new_size ino s = (
     let block_index = count_data_block (di_size ino);
         recycled_blocks = count_data_block new_size;
         direct_end = min block_index DIRECT_COUNT;
         dropped = drop recycled_blocks (take direct_end (di_direct ino));
         direct = fold (\<lambda>i d. d[i := 0]) [recycled_blocks..<direct_end] (di_direct ino)
     in do {
       (roots, dropped') \<leftarrow> dec_levels held
         [(1, DIRECT_COUNT, DIRECT_COUNT, di_indirect1 ino),
          (2, INDIRECT1_COUNT, INDIRECT1_COUNT, di_indirect2 ino),
          (3, INDIRECT2_COUNT, INDIRECT1_COUNT, di_indirect3 ino)]
         block_index (max recycled_blocks direct_end) dropped s;
       Some (dropped', with_roots roots (ino\<lparr>di_size := new_size, di_direct := direct\<rparr>))
     })"

text \<open>The loops of \<open>read_at\<close> and \<open>write_at\<close>.\<close>

lemma block_loop_decreases:
  fixes start stop ecb :: nat
  assumes "ecb = min ((start div 512 + 1) * 512) stop" "ecb \<noteq> stop"
  shows "stop - ecb < stop - start"
proof -
  have "start < (start div 512 + 1) * 512" by simp
  moreover have "(start div 512 + 1) * 512 < stop" "ecb = (start div 512 + 1) * 512" using assms by auto
  ultimately show ?thesis by linarith
qed

function di_read_loop :: "nat list \<Rightarrow> disk_inode \<Rightarrow> nat \<Rightarrow> nat \<Rightarrow> nat \<Rightarrow> nat \<Rightarrow> u8 list \<Rightarrow> disk \<Rightarrow>
    (nat \<times> u8 list) option" where
  "di_read_loop held ino start start_block stop read_size buf s = (
     let end_current_block = min ((start div BLOCK_SIZE + 1) * BLOCK_SIZE) stop;
         block_read_size = end_current_block - start
     in do {
       assert_opt (read_size + block_read_size \<le> length buf);
       id \<leftarrow> di_block_id held ino (as_u32 start_block) s;
       data_block \<leftarrow> blk_read held id s;
       assert_opt (start mod BLOCK_SIZE + block_read_size \<le> BLOCK_SIZE);
       let buf' = splice read_size (take block_read_size (drop (start mod BLOCK_SIZE) data_block)) buf in
       if end_current_block = stop then Some (read_size + block_read_size, buf')
       else di_read_loop held ino end_current_block (start_block + 1) stop (read_size + block_read_size) buf' s
     })"
  by pat_completeness auto

termination
proof (relation "measure (\<lambda>(held, ino, start, start_block, stop, read_size, buf, s). stop - start)", goal_cases)
  case (2 held ino start start_block stop read_size buf s ecb brs)
  then show ?case using block_loop_decreases [of ecb start stop] by simp
qed simp

definition di_read_at :: "nat list \<Rightarrow> disk_inode \<Rightarrow> nat \<Rightarrow> u8 list \<Rightarrow> disk \<Rightarrow> (nat \<times> u8 list) option" where
  "di_read_at held ino offset buf s = (
     let stop = min (take_bit 64 (offset + length buf)) (di_size ino) in
     if offset \<ge> stop then Some (0, buf)
     else di_read_loop held ino offset (offset div BLOCK_SIZE) stop 0 buf s)"

function di_write_loop :: "nat list \<Rightarrow> disk_inode \<Rightarrow> nat \<Rightarrow> nat \<Rightarrow> nat \<Rightarrow> nat \<Rightarrow> u8 list \<Rightarrow> disk \<Rightarrow>
    (nat \<times> disk) option" where
  "di_write_loop held ino start start_block stop write_size buf s = (
     let end_current_block = min ((start div BLOCK_SIZE + 1) * BLOCK_SIZE) stop;
         block_write_size = end_current_block - start
     in do {
       id \<leftarrow> di_block_id held ino (as_u32 start_block) s;
       data_block \<leftarrow> blk_read held id s;
       assert_opt (write_size + block_write_size \<le> length buf);
       assert_opt (start mod BLOCK_SIZE + block_write_size \<le> BLOCK_SIZE);
       s' \<leftarrow> blk_write held id (splice (start mod BLOCK_SIZE) (take block_write_size (drop write_size buf)) data_block) s;
       if end_current_block = stop then Some (write_size + block_write_size, s')
       else di_write_loop held ino end_current_block (start_block + 1) stop (write_size + block_write_size) buf s'
     })"
  by pat_completeness auto

termination
proof (relation "measure (\<lambda>(held, ino, start, start_block, stop, write_size, buf, s). stop - start)", goal_cases)
  case (2 held ino start start_block stop write_size buf s ecb bws)
  then show ?case using block_loop_decreases [of ecb start stop] by simp
qed simp

definition di_write_at :: "nat list \<Rightarrow> disk_inode \<Rightarrow> nat \<Rightarrow> u8 list \<Rightarrow> disk \<Rightarrow> (nat \<times> disk) option" where
  "di_write_at held ino offset buf s = (
     let stop = min (take_bit 64 (offset + length buf)) (di_size ino) in do {
       assert_opt (offset \<le> stop);
       di_write_loop held ino offset (offset div BLOCK_SIZE) stop 0 buf s
     })"

declare di_read_loop.simps [simp del] di_write_loop.simps [simp del]

section \<open>The blocks of an inode\<close>

text \<open>What the levels hold for an inode with \<open>n\<close> data blocks, counted as in the code: \<open>bound\<close> blocks
  stand before a level.\<close>

fun lv_nodes :: "level list \<Rightarrow> nat \<Rightarrow> disk \<Rightarrow> nat list" where
  "lv_nodes [] n s = []"
| "lv_nodes ((d, bound, root) # ls) n s = (if n \<le> bound then []
     else root # nodes d root (min (128 ^ d) (n - bound)) s @ lv_nodes ls (n - bound) s)"

fun lv_leaves :: "level list \<Rightarrow> nat \<Rightarrow> disk \<Rightarrow> nat list" where
  "lv_leaves [] n s = []"
| "lv_leaves ((d, bound, root) # ls) n s = (if n \<le> bound then []
     else leaves d root (min (128 ^ d) (n - bound)) s @ lv_leaves ls (n - bound) s)"

fun lv_inner :: "level list \<Rightarrow> nat \<Rightarrow> disk \<Rightarrow> nat list" where
  "lv_inner [] n s = []"
| "lv_inner ((d, bound, root) # ls) n s = (if n \<le> bound then []
     else inner d root (min (128 ^ d) (n - bound)) s @ lv_inner ls (n - bound) s)"

fun lv_tot :: "level list \<Rightarrow> nat \<Rightarrow> nat" where
  "lv_tot [] n = 0"
| "lv_tot ((d, bound, root) # ls) n = (if n \<le> bound then 0
     else 1 + tot d (min (128 ^ d) (n - bound)) + lv_tot ls (n - bound))"

text \<open>Each level begins where the level before is full.\<close>

fun lv_chain :: "level list \<Rightarrow> bool" where
  "lv_chain ((d, bound, root) # (d', bound', root') # ls) \<longleftrightarrow>
     bound' = 128 ^ d \<and> lv_chain ((d', bound', root') # ls)"
| "lv_chain _ \<longleftrightarrow> True"

fun set_roots :: "level list \<Rightarrow> nat list \<Rightarrow> level list" where
  "set_roots ((d, bound, root) # ls) (r # rs) = (d, bound, r) # set_roots ls rs"
| "set_roots _ _ = []"

lemma lv_frame:
  assumes "\<forall>x\<in>set (lv_inner ls n s). s' ! x = s ! x"
  shows "lv_nodes ls n s' = lv_nodes ls n s \<and> lv_leaves ls n s' = lv_leaves ls n s \<and> lv_inner ls n s' = lv_inner ls n s"
  using assms
proof (induction ls n s rule: lv_inner.induct)
  case (2 d bound root ls n s)
  show ?case
  proof (cases "n \<le> bound")
    case False
    let ?k = "min (128 ^ d) (n - bound)"
    have "nodes d root ?k s' = nodes d root ?k s \<and> leaves d root ?k s' = leaves d root ?k s \<and>
        inner d root ?k s' = inner d root ?k s"
      by (rule tree_frame) (use 2(2) False in auto)
    then show ?thesis using 2 False by simp
  qed simp
qed simp

lemma mset_lv_nodes: "mset (lv_nodes ls n s) = mset (lv_inner ls n s) + mset (lv_leaves ls n s)"
proof (induction ls n s rule: lv_inner.induct)
  case (2 d bound root ls n s)
  have "mset (root # nodes d root (min (128 ^ d) (n - bound)) s) =
      mset (inner d root (min (128 ^ d) (n - bound)) s) + mset (leaves d root (min (128 ^ d) (n - bound)) s)"
    if "\<not> n \<le> bound" by (rule mset_nodes) (use that in simp)
  then show ?case using 2 by (cases "n \<le> bound") simp_all
qed simp

lemma set_lv_inner_subset: "set (lv_inner ls n s) \<subseteq> set (lv_nodes ls n s)"
  using set_of_mset_add [OF mset_lv_nodes [of ls n s]] by blast

lemma set_lv_leaves_subset: "set (lv_leaves ls n s) \<subseteq> set (lv_nodes ls n s)"
  using set_of_mset_add [OF mset_lv_nodes [of ls n s]] by blast

lemma lv_tot_mono: "m \<le> n \<Longrightarrow> lv_tot ls m \<le> lv_tot ls n"
proof (induction ls m arbitrary: n rule: lv_tot.induct)
  case (2 d bound root ls m)
  show ?case
  proof (cases "m \<le> bound")
    case False
    have "tot d (min (128 ^ d) (m - bound)) \<le> tot d (min (128 ^ d) (n - bound))"
      by (rule tot_mono) (use 2 in simp)
    moreover have "lv_tot ls (m - bound) \<le> lv_tot ls (n - bound)" by (rule 2) (use 2 False in simp_all)
    ultimately show ?thesis using 2(2) False by simp
  qed simp
qed simp

lemma length_lv_nodes: "length (lv_nodes ls n s) = lv_tot ls n"
  by (induction ls n s rule: lv_nodes.induct) (simp_all add: length_nodes)

lemma lv_0 [simp]: "lv_nodes ls 0 s = []" "lv_leaves ls 0 s = []" "lv_inner ls 0 s = []" "lv_tot ls 0 = 0"
  by (cases ls; auto)+

text \<open>A level sees only what exceeds its bound.\<close>

lemma lv_max:
  assumes "ls \<noteq> [] \<longrightarrow> fst (snd (hd ls)) = c" "k \<le> c"
  shows "lv_nodes ls (max n k) s = lv_nodes ls n s" "lv_leaves ls (max n k) s = lv_leaves ls n s"
    "lv_inner ls (max n k) s = lv_inner ls n s" "lv_tot ls (max n k) = lv_tot ls n"
proof -
  have "n \<le> c \<and> max n k \<le> c \<or> max n k = n" using assms(2) by auto
  then show "lv_nodes ls (max n k) s = lv_nodes ls n s" "lv_leaves ls (max n k) s = lv_leaves ls n s"
    "lv_inner ls (max n k) s = lv_inner ls n s" "lv_tot ls (max n k) = lv_tot ls n"
    using assms(1) by (cases ls; auto)+
qed

definition levels_grown :: "level list \<Rightarrow> level list \<Rightarrow> nat \<Rightarrow> nat \<Rightarrow> nat list \<Rightarrow> disk \<Rightarrow> disk \<Rightarrow> bool" where
  "levels_grown ls ls' m n bs s s' \<longleftrightarrow> length s' = length s \<and> disk_ok s' \<and>
     mset (lv_nodes ls' n s') = mset (lv_nodes ls m s) + mset (take (lv_tot ls n - lv_tot ls m) bs) \<and>
     take (m - fst (snd (hd ls))) (lv_leaves ls' n s') = lv_leaves ls m s \<and>
     (\<forall>x. x \<notin> set (lv_inner ls' n s') \<longrightarrow> s' ! x = s ! x)"

lemma set_levels_grown:
  "levels_grown ls ls' m n bs s s' \<Longrightarrow>
   set (lv_nodes ls' n s') = set (lv_nodes ls m s) \<union> set (take (lv_tot ls n - lv_tot ls m) bs)"
  by (rule set_of_mset_add) (simp add: levels_grown_def)

lemma levels_grown_frame:
  "levels_grown ls ls' m n bs s s' \<Longrightarrow> x \<notin> set (lv_inner ls' n s') \<Longrightarrow> s' ! x = s ! x"
  unfolding levels_grown_def by blast

text \<open>Growing the tree of one level leaves the other levels alone.\<close>

lemma levels_kept:
  assumes t: "tree_grown d i m n bs s s'" and n: "0 < n"
    and dist: "i \<notin> set (lv_nodes ls k s)" "set (nodes d i m s) \<inter> set (lv_nodes ls k s) = {}"
      "set (lv_nodes ls k s) \<inter> set bs = {}"
  shows "lv_nodes ls k s' = lv_nodes ls k s \<and> lv_leaves ls k s' = lv_leaves ls k s \<and> lv_inner ls k s' = lv_inner ls k s"
proof (rule lv_frame, rule)
  fix x assume "x \<in> set (lv_inner ls k s)"
  then have "x \<in> set (lv_nodes ls k s)" using set_lv_inner_subset by (rule rev_subsetD)
  moreover have "set (inner d i n s') \<subseteq> insert i (set (nodes d i m s) \<union> set (take (tot d n - tot d m) bs))"
    using set_inner_subset [OF n, of d i s'] set_tree_grown [OF t] by simp
  ultimately have "x \<notin> set (inner d i n s')"
    using dist set_take_subset [of "tot d n - tot d m" bs] by blast
  then show "s' ! x = s ! x" by (rule tree_grown_frame [OF t])
qed

lemma levels_grown_Cons:
  fixes bs r r' ls d m n s bound
  defines "m1 \<equiv> min (128 ^ d) (m - bound)" and "n1 \<equiv> min (128 ^ d) (n - bound)"
  defines "k1 \<equiv> tot d n1 - tot d m1"
  assumes t: "tree_grown d r' m1 n1 bs1 s s1"
    and f: "levels_grown ls ls' (max (m - bound) n1) (n - bound) (drop k1 bs1) s1 s2"
    and hd: "ls \<noteq> [] \<longrightarrow> fst (snd (hd ls)) = 128 ^ d"
    and fresh: "if m = bound then bs = r' # bs1 else r' = r \<and> bs = bs1"
    and n: "bound < n" "m \<le> n" "bound \<le> m"
    and dist: "distinct bs1" "r' \<notin> set bs1" "r' \<notin> set (lv_nodes ls (m - bound) s)"
      "set (nodes d r' m1 s) \<inter> set (lv_nodes ls (m - bound) s) = {}" "set (nodes d r' m1 s) \<inter> set bs1 = {}"
      "set (lv_nodes ls (m - bound) s) \<inter> set bs1 = {}"
  shows "levels_grown ((d, bound, r) # ls) ((d, bound, r') # ls') m n bs s s2"
proof -
  let ?m = "m - bound" and ?n = "n - bound" and ?c = "128 ^ d :: nat"
  define k2 where "k2 = lv_tot ls ?n - lv_tot ls ?m"
  have n1: "0 < n1" "m1 \<le> n1" "n1 \<le> ?c" using n by (simp_all add: n1_def m1_def)
  note mx = lv_max [OF hd n1(3), of ?m]
  have tm: "tot d m1 \<le> tot d n1" "lv_tot ls ?m \<le> lv_tot ls ?n" using n1(2) n by (auto intro!: tot_mono lv_tot_mono)
  note kept = levels_kept [OF t n1(1) dist(3,4,6)]
  have in1: "set (inner d r' n1 s1) \<subseteq> insert r' (set (nodes d r' m1 s) \<union> set (take k1 bs1))"
    using set_inner_subset [OF n1(1), of d r' s1] set_tree_grown [OF t] by (simp add: k1_def)
  have fi: "set (lv_inner ls' ?n s2) \<subseteq> set (lv_nodes ls ?m s) \<union> set (take k2 (drop k1 bs1))"
    using set_lv_inner_subset [of ls' ?n s2] set_levels_grown [OF f] kept mx by (simp add: k2_def)
  have tk: "set (take k1 bs1) \<inter> set (take k2 (drop k1 bs1)) = {}"
    using set_take_disj_set_drop_if_distinct [OF dist(1) order_refl [of k1]] set_take_subset [of k2 "drop k1 bs1"]
    by blast
  have "\<forall>x\<in>set (inner d r' n1 s1). s2 ! x = s1 ! x"
  proof
    fix x assume "x \<in> set (inner d r' n1 s1)"
    then have "x \<notin> set (lv_inner ls' ?n s2)"
      using in1 fi tk dist set_take_subset [of k1 bs1] set_take_subset [of k2 "drop k1 bs1"] set_drop_subset [of k1 bs1]
      by blast
    then show "s2 ! x = s1 ! x" by (rule levels_grown_frame [OF f])
  qed
  note fr = tree_frame [OF this n1(1)]
  have "lv_tot ((d, bound, r) # ls) n - lv_tot ((d, bound, r) # ls) m = (if m = bound then 1 else 0) + (k1 + k2)"
    using n tm tot_0 [of d] by (cases "m = bound") (simp_all add: k1_def k2_def m1_def n1_def)
  then have cnt: "take (lv_tot ((d, bound, r) # ls) n - lv_tot ((d, bound, r) # ls) m) bs =
      (if m = bound then [r'] else []) @ take k1 bs1 @ take k2 (drop k1 bs1)"
    using fresh by (cases "m = bound") (simp_all add: take_add)
  have mt: "mset (nodes d r' n1 s2) = mset (nodes d r' m1 s) + mset (take k1 bs1)"
    using fr t by (simp add: tree_grown_def k1_def)
  have mf: "mset (lv_nodes ls' ?n s2) = mset (lv_nodes ls ?m s) + mset (take k2 (drop k1 bs1))"
    using f kept mx by (simp add: levels_grown_def k2_def)
  have ms: "mset (lv_nodes ((d, bound, r') # ls') n s2) = mset (lv_nodes ((d, bound, r) # ls) m s) +
      mset (take (lv_tot ((d, bound, r) # ls) n - lv_tot ((d, bound, r) # ls) m) bs)"
    unfolding cnt using mt mf fresh n(1,3) by (cases "m = bound") (simp_all add: m1_def n1_def)
  have a: "take m1 (leaves d r' n1 s2) = leaves d r' m1 s" using fr t by (simp add: tree_grown_def)
  have l1: "length (leaves d r' n1 s2) = n1" using n1(3) by (rule length_leaves)
  have b: "take (?m - ?c) (lv_leaves ls' ?n s2) = lv_leaves ls ?m s"
  proof (cases "ls = []")
    case True
    then have "set (lv_leaves ls' ?n s2) = {}"
      using set_lv_leaves_subset [of ls' ?n s2] mf by (simp add: k2_def)
    then show ?thesis using True by simp
  next
    case False
    moreover have "max ?m n1 - ?c = ?m - ?c" using n1(3) by auto
    ultimately show ?thesis using f kept mx hd by (simp add: levels_grown_def)
  qed
  have lv: "take ?m (leaves d r' n1 s2 @ lv_leaves ls' ?n s2) = leaves d r' m1 s @ lv_leaves ls ?m s"
  proof (cases "?m \<le> ?c")
    case True
    then show ?thesis using a b l1 n1 by (simp add: m1_def)
  next
    case False
    then have "n1 = ?c" "m1 = ?c" using n by (simp_all add: n1_def m1_def)
    then show ?thesis using a b l1 False by simp
  qed
  have "take (m - bound) (lv_leaves ((d, bound, r') # ls') n s2) = lv_leaves ((d, bound, r) # ls) m s"
    using lv n(1,3) fresh by (cases "m = bound") (simp_all add: m1_def n1_def)
  moreover have "\<forall>x. x \<notin> set (lv_inner ((d, bound, r') # ls') n s2) \<longrightarrow> s2 ! x = s ! x"
    using n(1) fr tree_grown_frame [OF t] levels_grown_frame [OF f] by (simp flip: n1_def)
  moreover have "length s2 = length s" "disk_ok s2" using t f by (simp_all add: tree_grown_def levels_grown_def)
  ultimately show ?thesis using ms unfolding levels_grown_def by simp
qed

lemma set_roots_same [simp]: "set_roots ls (map (snd \<circ> snd) ls) = ls"
  by (induction ls) auto

lemma lv_chain_Cons: "lv_chain ((d, bound, root) # ls) \<Longrightarrow> lv_chain ls \<and> (ls \<noteq> [] \<longrightarrow> fst (snd (hd ls)) = 128 ^ d)"
  by (cases ls) auto

lemma levels_grown_refl:
  assumes "disk_ok s" "n \<le> bound" "m \<le> n"
  shows "levels_grown ((d, bound, r) # ls) ((d, bound, r) # ls) m n bs s s"
  using assms by (simp add: levels_grown_def)

lemma inc_levels_ok:
  "lv_chain ls \<Longrightarrow> (ls \<noteq> [] \<Longrightarrow> fst (snd (hd ls)) < nt \<Longrightarrow> fst (snd (hd ls)) \<le> bi) \<Longrightarrow> bi \<le> nt \<Longrightarrow>
   supplied held (lv_nodes ls bi s) bs (lv_tot ls nt - lv_tot ls bi) s \<Longrightarrow>
   \<forall>r\<in>set (map (snd \<circ> snd) ls). r < 2 ^ 32 \<Longrightarrow>
   \<exists>roots s'. inc_levels held ls bi nt bs s = Some (roots, drop (lv_tot ls nt - lv_tot ls bi) bs, s') \<and>
     length roots = length ls \<and> (\<forall>r\<in>set roots. r < 2 ^ 32) \<and>
     levels_grown ls (set_roots ls roots) bi nt bs s s'"
proof (induction ls arbitrary: bi nt bs s)
  case Nil
  then show ?case by (simp add: levels_grown_def supplied_def)
next
  case (Cons l ls)
  obtain d bound r where l: "l = (d, bound, r)" by (cases l)
  have ok: "disk_ok s" using Cons.prems(4) by (simp add: supplied_def)
  show ?case
  proof (cases "nt \<le> bound")
    case True
    then show ?thesis using Cons.prems(3,5) levels_grown_refl [OF ok True Cons.prems(3)]
      by (simp add: l)
  next
    case False
    let ?c = "128 ^ d :: nat"
    have bi: "bound \<le> bi" "bound < nt" using Cons.prems(2) False by (simp_all add: l)
    define m1 n1 where "m1 = min ?c (bi - bound)" and "n1 = min ?c (nt - bound)"
    define k1 where "k1 = tot d n1 - tot d m1"
    define k2 where "k2 = lv_tot ls (nt - bound) - lv_tot ls (bi - bound)"
    have ch: "lv_chain ls" "ls \<noteq> [] \<longrightarrow> fst (snd (hd ls)) = ?c"
      using lv_chain_Cons [OF Cons.prems(1) [unfolded l]] by simp_all
    have tm: "tot d m1 \<le> tot d n1" "lv_tot ls (bi - bound) \<le> lv_tot ls (nt - bound)"
      using Cons.prems(3) by (auto simp: m1_def n1_def intro!: tot_mono lv_tot_mono)
    have k: "lv_tot (l # ls) nt - lv_tot (l # ls) bi = (if bi = bound then 1 else 0) + (k1 + k2)"
      using bi tm by (cases "bi = bound") (simp_all add: l k1_def k2_def m1_def n1_def)
    obtain r' bs1 where fresh: "if bi = bound then bs = r' # bs1 else r' = r \<and> bs = bs1"
      and nx: "(if bi = bound then next_block bs else Some (r, bs)) = Some (r', bs1)"
      using that Cons.prems(4) k by (cases bs) (auto simp: supplied_def next_block_def split: if_splits)
    have r32: "r' < 2 ^ 32" using fresh Cons.prems(4,5) by (auto simp: supplied_def l split: if_splits)
    have all: "supplied held (r' # nodes d r' m1 s @ lv_nodes ls (bi - bound) s) bs1 (k1 + k2) s"
      using Cons.prems(4) fresh bi unfolding k by (cases "bi = bound") (auto simp: supplied_def m1_def l)
    have n1: "0 < n1" "0 < nt - bound" "bi - bound \<le> nt - bound" using bi Cons.prems(3) by (simp_all add: n1_def)
    have "supplied held (r' # nodes d r' m1 s) bs1 (tot d n1 - tot d m1) s"
      using all by (auto simp: supplied_def k1_def)
    from build_tree_ok [OF n1(2,3) m1_def n1_def this]
    obtain s1 where s1: "build_tree d held r' 0 (bi - bound) (nt - bound) bs1 s = Some (n1, drop k1 bs1, s1)"
      and g1: "tree_grown d r' m1 n1 bs1 s s1" unfolding k1_def by blast
    have dist: "distinct bs1" "r' \<notin> set bs1" "r' \<notin> set (lv_nodes ls (bi - bound) s)"
      "set (nodes d r' m1 s) \<inter> set (lv_nodes ls (bi - bound) s) = {}" "set (nodes d r' m1 s) \<inter> set bs1 = {}"
      "set (lv_nodes ls (bi - bound) s) \<inter> set bs1 = {}"
      using all by (auto simp: supplied_def)
    note kept = levels_kept [OF g1 n1(1) dist(3,4,6)]
    have n1c: "n1 \<le> ?c" by (simp add: n1_def)
    note mx = lv_max [OF ch(2) n1c, of "bi - bound"]
    have r: "supplied held (lv_nodes ls (max (bi - bound) n1) s1) (drop k1 bs1)
        (lv_tot ls (nt - bound) - lv_tot ls (max (bi - bound) n1)) s1"
      unfolding mx conjunct1 [OF kept] k2_def [symmetric]
      by (rule supplied_rest [of held "r' # nodes d r' m1 s" _ bs1 k1 k2 s]) (use all g1 in \<open>simp_all add: tree_grown_def\<close>)
    have le: "max (bi - bound) n1 \<le> nt - bound" and rs: "\<forall>r\<in>set (map (snd \<circ> snd) ls). r < 2 ^ 32"
      using n1(3) Cons.prems(5) by (auto simp: n1_def)
    have hdc: "fst (snd (hd ls)) \<le> max (bi - bound) n1" if "ls \<noteq> []" "fst (snd (hd ls)) < nt - bound"
      using ch(2) that by (simp add: n1_def)
    from Cons.IH [OF ch(1) hdc le r rs, unfolded mx(4), folded k2_def]
    obtain roots s2 where s2: "inc_levels held ls (max (bi - bound) n1) (nt - bound) (drop k1 bs1) s1 =
        Some (roots, drop k2 (drop k1 bs1), s2)" and rl: "length roots = length ls" "\<forall>r\<in>set roots. r < 2 ^ 32"
      and g2: "levels_grown ls (set_roots ls roots) (max (bi - bound) n1) (nt - bound) (drop k1 bs1) s1 s2"
      by blast
    have "levels_grown ((d, bound, r) # ls) ((d, bound, r') # set_roots ls roots) bi nt bs s s2"
      by (rule levels_grown_Cons [OF g1 [unfolded m1_def n1_def] g2 [unfolded k1_def m1_def n1_def] ch(2) fresh
          bi(2) Cons.prems(3) bi(1) dist [unfolded m1_def]])
    moreover have "drop (lv_tot (l # ls) nt - lv_tot (l # ls) bi) bs = drop k2 (drop k1 bs1)"
      unfolding k using fresh by (cases "bi = bound") (simp_all add: add.commute)
    moreover have "inc_levels held (l # ls) bi nt bs s = Some (r' # roots, drop k2 (drop k1 bs1), s2)"
      using bi nx s1 s2 by (simp add: l)
    ultimately show ?thesis using rl r32 by (intro exI [of _ "r' # roots"] exI [of _ s2]) (simp add: l)
  qed
qed

end
