(* ===== verification/InodeSize.thy ===== *)
theory InodeSize
  imports DiskInode
begin

text \<open>
  What growing and clearing do to the blocks of an inode. \<open>ino_nodes\<close> lists all blocks an inode
  owns, \<open>ino_data\<close> its data blocks in file order, \<open>ino_inner\<close> its indirect blocks. \<open>ino_ok\<close> is the
  invariant of an inode: its blocks are distinct blocks of the disk, apart from the locked ones. An
  inode reaches at most \<open>INDIRECT3_BOUND\<close> data blocks.
\<close>

definition di_blocks :: "disk_inode \<Rightarrow> nat" where
  "di_blocks ino = count_data_block (di_size ino)"

definition ino_nodes :: "disk_inode \<Rightarrow> disk \<Rightarrow> nat list" where
  "ino_nodes ino s = take (di_blocks ino) (di_direct ino) @ lv_nodes (di_levels ino) (di_blocks ino) s"

definition ino_data :: "disk_inode \<Rightarrow> disk \<Rightarrow> nat list" where
  "ino_data ino s = take (di_blocks ino) (di_direct ino) @ lv_leaves (di_levels ino) (di_blocks ino) s"

definition ino_inner :: "disk_inode \<Rightarrow> disk \<Rightarrow> nat list" where
  "ino_inner ino s = lv_inner (di_levels ino) (di_blocks ino) s"

definition ino_ok :: "nat list \<Rightarrow> disk_inode \<Rightarrow> disk \<Rightarrow> bool" where
  "ino_ok held ino s \<longleftrightarrow> di_ok ino \<and> di_blocks ino \<le> INDIRECT3_BOUND \<and> disk_ok s \<and>
     distinct (ino_nodes ino s) \<and> set (ino_nodes ino s) \<subseteq> {..<length s} - set held"

section \<open>Counts\<close>

lemma tot_1 [simp]: "tot 1 n = n" "tot (Suc 0) n = n"
  by (simp_all add: tot_def)

lemma tot_2: "tot 2 n = n + div_ceil n 128"
  by (simp add: tot_def eval_nat_numeral)

lemma tot_3: "tot 3 n = n + div_ceil n 128 + div_ceil n 16384"
proof -
  have "{..<3 :: nat} = {0, 1, 2}" by auto
  then show ?thesis by (simp add: tot_def)
qed

lemma div_ceil_le_iff: "0 < b \<Longrightarrow> div_ceil n b \<le> k \<longleftrightarrow> n \<le> k * b"
proof -
  assume b: "0 < b"
  have "div_ceil n b \<le> k \<longleftrightarrow> (n + b - 1) div b < Suc k" using b by (simp add: div_ceil_alt less_Suc_eq_le)
  also have "\<dots> \<longleftrightarrow> n + b - 1 < Suc k * b" using b by (simp add: div_less_iff_less_mult)
  finally show ?thesis using b by auto
qed

lemma div_ceil_ge: "0 < b \<Longrightarrow> k * b \<le> n \<Longrightarrow> k \<le> div_ceil n b"
  using div_ceil_le_iff [of b n "k - 1"] by (cases k) auto

text \<open>\<open>count_total_block\<close> counts the blocks the levels hold.\<close>

lemma count_total_levels:
  assumes "count_data_block sz \<le> INDIRECT3_BOUND"
  shows "count_total_block sz = min (count_data_block sz) 27 + lv_tot (di_levels ino) (count_data_block sz)"
proof -
  define n where "n = count_data_block sz"
  have n: "n \<le> 2113691" using assms by (simp add: n_def)
  have d1: "div_ceil (n - 155) 128 \<le> 16512" "div_ceil (n - 16539) 128 \<le> 16384" "div_ceil (n - 16539) 16384 \<le> 128"
    using n by (simp_all add: div_ceil_le_iff)
  consider "n \<le> 27" | "27 < n" "n \<le> 155" | "155 < n" "n \<le> 16539" | "16539 < n" by linarith
  then show ?thesis
  proof cases
    case 3
    then have "div_ceil (n - 155) 128 \<le> 128" "n - 155 \<le> 16384" "\<not> n - 27 \<le> 128" by (auto simp: div_ceil_le_iff)
    then show ?thesis using 3 n
      by (simp add: count_total_block_def Let_def di_levels_def tot_2 as_u32_def take_bit_nat_def flip: n_def)
  next
    case 4
    then have "128 \<le> div_ceil (n - 155) 128" by (intro div_ceil_ge) simp_all
    moreover have "div_ceil 16384 128 = 128" by (simp add: div_ceil_def)
    moreover have "\<not> n - 155 \<le> 16384" "\<not> n - 27 \<le> 128" "n - 16539 \<le> 2097152" using 4 n by auto
    ultimately show ?thesis using 4 n d1
      by (simp add: count_total_block_def Let_def di_levels_def tot_2 tot_3 as_u32_def take_bit_nat_def flip: n_def)
  qed (use n in \<open>simp_all add: count_total_block_def Let_def di_levels_def as_u32_def take_bit_nat_def flip: n_def\<close>)
qed

lemma lv_tot_roots: "lv_tot (di_levels ino) n = lv_tot (di_levels ino') n"
  by (simp add: di_levels_def)

lemma count_data_block_mono: "a \<le> b \<Longrightarrow> count_data_block a \<le> count_data_block b"
  by (simp add: count_data_block_def div_ceil_mono)

lemma blocks_num_needed_levels:
  assumes "di_size ino \<le> sz" "count_data_block sz \<le> INDIRECT3_BOUND"
  shows "blocks_num_needed sz ino = Some
    (min (count_data_block sz) 27 - min (di_blocks ino) 27 +
     (lv_tot (di_levels ino) (count_data_block sz) - lv_tot (di_levels ino) (di_blocks ino)))"
proof -
  let ?m = "di_blocks ino" and ?n = "count_data_block sz" and ?ls = "di_levels ino"
  have le: "?m \<le> ?n" using assms(1) by (simp add: di_blocks_def count_data_block_mono)
  have "count_total_block (di_size ino) = min ?m 27 + lv_tot ?ls ?m"
    "count_total_block sz = min ?n 27 + lv_tot ?ls ?n"
    using count_total_levels [of _ ino] le assms(2) by (simp_all add: di_blocks_def)
  moreover have "count_total_block sz < 2 ^ 32" by (simp add: count_total_block_def Let_def)
  moreover have "lv_tot ?ls ?m \<le> lv_tot ?ls ?n" "min ?m 27 \<le> min ?n 27" using le by (auto intro: lv_tot_mono)
  ultimately show ?thesis using assms(1)
    by (simp add: blocks_num_needed_def as_u32_def mod_if)
qed

section \<open>Growing\<close>

lemma inc_direct_ok:
  "a \<le> c \<Longrightarrow> c \<le> length direct \<Longrightarrow> c - a \<le> length bs \<Longrightarrow>
   inc_direct [a..<c] direct bs = Some (take a direct @ take (c - a) bs @ drop c direct, drop (c - a) bs)"
proof (induction "c - a" arbitrary: a direct bs)
  case (Suc k)
  then obtain b bs' where bs: "bs = b # bs'" by (cases bs) auto
  have "inc_direct [Suc a..<c] (direct[a := b]) bs' =
      Some (take (Suc a) (direct[a := b]) @ take (c - Suc a) bs' @ drop c (direct[a := b]), drop (c - Suc a) bs')"
    by (rule Suc.hyps) (use Suc bs in auto)
  moreover have "[a..<c] = a # [Suc a..<c]" using Suc.hyps(2) by (simp add: upt_conv_Cons)
  moreover have "take (Suc a) (direct[a := b]) = take a direct @ [b]"
    using Suc by (simp add: take_Suc_conv_app_nth)
  moreover have "c - a = Suc (c - Suc a)" using Suc.hyps(2) by simp
  ultimately show ?case using Suc bs by (simp add: next_block_def)
qed simp

lemma length_3E:
  assumes "length xs = 3"
  obtains a b c where "xs = [a, b, c]"
  using assms by (auto simp: numeral_3_eq_3 length_Suc_conv)

lemma di_levels_with_roots:
  "length rs = 3 \<Longrightarrow> di_levels (with_roots rs ino) = set_roots (di_levels ino) rs"
  by (erule length_3E) (simp add: di_levels_def with_roots_def)

lemma di_ok_with_roots:
  "length rs = 3 \<Longrightarrow> \<forall>r\<in>set rs. r < 2 ^ 32 \<Longrightarrow> length dir = 27 \<Longrightarrow> \<forall>w\<in>set dir. w < 2 ^ 32 \<Longrightarrow> sz < 2 ^ 32 \<Longrightarrow>
   di_ok (with_roots rs (ino\<lparr>di_size := sz, di_direct := dir\<rparr>))"
  by (erule length_3E) (simp add: di_ok_def di_words_def with_roots_def)

text \<open>\<open>s'\<close> holds the inode \<open>ino'\<close> that \<open>ino\<close> has grown to with the blocks \<open>bs\<close>.\<close>

definition ino_grown :: "disk_inode \<Rightarrow> disk_inode \<Rightarrow> nat list \<Rightarrow> disk \<Rightarrow> disk \<Rightarrow> bool" where
  "ino_grown ino ino' bs s s' \<longleftrightarrow> length s' = length s \<and> disk_ok s' \<and> di_kind ino' = di_kind ino \<and>
     mset (ino_nodes ino' s') = mset (ino_nodes ino s) + mset bs \<and>
     take (di_blocks ino) (ino_data ino' s') = ino_data ino s \<and>
     (\<forall>x. x \<notin> set (ino_inner ino' s') \<longrightarrow> s' ! x = s ! x)"

lemma ino_grown_levels:
  fixes ino bs m n s sz roots
  defines "m \<equiv> di_blocks ino" and "n \<equiv> count_data_block sz"
  defines "a \<equiv> min m 27" and "c \<equiv> min n 27"
  defines "dir \<equiv> take a (di_direct ino) @ take (c - a) bs @ drop c (di_direct ino)"
  defines "ino' \<equiv> with_roots roots (ino\<lparr>di_size := sz, di_direct := dir\<rparr>)"
  assumes d: "length (di_direct ino) = 27" and le: "m \<le> n" and rl: "length roots = 3"
    and lb: "length bs = c - a + (lv_tot (di_levels ino) n - lv_tot (di_levels ino) m)"
    and g: "levels_grown (di_levels ino) (set_roots (di_levels ino) roots) (max m c) n (drop (c - a) bs) s s'"
  shows "ino_grown ino ino' bs s s'"
proof -
  let ?ls = "di_levels ino"
  have ac: "a \<le> c" "c \<le> 27" "c \<le> n" using le by (auto simp: a_def c_def)
  have mx: "lv_nodes ?ls (max m c) s = lv_nodes ?ls m s" "lv_leaves ?ls (max m c) s = lv_leaves ?ls m s"
    "lv_tot ?ls (max m c) = lv_tot ?ls m"
    using lv_max [of ?ls 27 c m] ac(2) by (simp_all add: di_levels_def)
  have ino': "di_blocks ino' = n" "di_levels ino' = set_roots ?ls roots" "di_direct ino' = dir" "di_kind ino' = di_kind ino"
    using rl by (simp_all add: ino'_def di_blocks_def n_def di_levels_with_roots)
      (simp_all add: with_roots_def di_levels_def)
  have l1: "length (take a (di_direct ino) @ take (c - a) bs) = c" using d ac lb by simp
  have dn: "take n dir = take a (di_direct ino) @ take (c - a) bs"
    using l1 d ac by (cases "n < 27") (simp_all add: dir_def c_def)
  have dm: "take m (di_direct ino) = take a (di_direct ino)" using d by (cases "m \<le> 27") (simp_all add: a_def)
  have "take (lv_tot ?ls n - lv_tot ?ls m) (drop (c - a) bs) = drop (c - a) bs" using lb by simp
  then have "mset (lv_nodes (di_levels ino') n s') = mset (lv_nodes ?ls m s) + mset (drop (c - a) bs)"
    using g mx by (simp add: levels_grown_def ino'(2))
  moreover have "mset bs = mset (take (c - a) bs) + mset (drop (c - a) bs)"
    by (metis append_take_drop_id mset_append)
  ultimately have 1: "mset (ino_nodes ino' s') = mset (ino_nodes ino s) + mset bs"
    unfolding ino_nodes_def ino'(1,3) dn by (simp add: dm flip: m_def)
  have hd: "fst (snd (hd ?ls)) = 27" "max m c - 27 = m - 27" using ac(2) by (auto simp: di_levels_def)
  have lf: "take (m - 27) (lv_leaves (di_levels ino') n s') = lv_leaves ?ls m s"
    using g unfolding levels_grown_def hd mx(2) ino'(2) by blast
  have 2: "take m (ino_data ino' s') = ino_data ino s"
  proof (cases "m \<le> 27")
    case True
    then have "a = m" "m - c = 0" using ac by (auto simp: a_def)
    then show ?thesis unfolding ino_data_def ino'(1,3) dn m_def [symmetric] using l1 lf True d ac by simp
  next
    case False
    then have "a = 27" "c = 27" using le by (auto simp: a_def c_def)
    then show ?thesis unfolding ino_data_def ino'(1,3) dn m_def [symmetric] using l1 lf False d by simp
  qed
  show ?thesis using g 1 2 ino' unfolding ino_grown_def
    by (simp add: levels_grown_def ino_inner_def m_def)
qed

lemma increase_size_ok:
  assumes ok: "ino_ok held ino s" and sz: "di_size ino \<le> sz" "sz < 2 ^ 32" "count_data_block sz \<le> INDIRECT3_BOUND"
    and k: "blocks_num_needed sz ino = Some (length bs)"
    and sup: "supplied held (ino_nodes ino s) bs (length bs) s"
  obtains ino' s' where "di_increase_size held sz bs ino s = Some (ino', s')" "di_size ino' = sz" "di_ok ino'"
    "ino_grown ino ino' bs s s'"
proof -
  let ?m = "di_blocks ino" and ?n = "count_data_block sz" and ?ls = "di_levels ino"
  define a c where "a = min ?m 27" and "c = min ?n 27"
  define k2 where "k2 = lv_tot ?ls ?n - lv_tot ?ls ?m"
  have d: "length (di_direct ino) = 27" using ok by (simp add: ino_ok_def di_ok_def)
  have le: "?m \<le> ?n" using sz(1) by (simp add: di_blocks_def count_data_block_mono)
  have ac: "a \<le> c" "c \<le> 27" using le by (auto simp: a_def c_def)
  have lb: "length bs = c - a + k2" using k blocks_num_needed_levels [OF sz(1,3)] by (simp add: a_def c_def k2_def)
  define dir where "dir = take a (di_direct ino) @ take (c - a) bs @ drop c (di_direct ino)"
  have up: "[?m..<c] = [a..<c]" using ac by (cases "?m < 27") (auto simp: a_def c_def)
  have e1: "inc_direct [?m..<c] (di_direct ino) bs = Some (dir, drop (c - a) bs)"
    unfolding up dir_def by (rule inc_direct_ok) (use ac d lb in auto)
  have mx: "lv_nodes ?ls (max ?m c) s = lv_nodes ?ls ?m s" "lv_leaves ?ls (max ?m c) s = lv_leaves ?ls ?m s"
    "lv_tot ?ls (max ?m c) = lv_tot ?ls ?m"
    using lv_max [of ?ls 27 c ?m] ac(2) by (simp_all add: di_levels_def)
  have r32: "\<forall>r\<in>set (map (snd \<circ> snd) ?ls). r < 2 ^ 32"
    using ok by (auto simp: ino_ok_def di_ok_def di_words_def di_levels_def)
  have sup2: "supplied held (lv_nodes ?ls (max ?m c) s) (drop (c - a) bs) (lv_tot ?ls ?n - lv_tot ?ls (max ?m c)) s"
    unfolding mx k2_def [symmetric]
    by (rule supplied_rest [of held "take ?m (di_direct ino)"]) (use sup lb ok in \<open>simp_all add: ino_nodes_def ino_ok_def\<close>)
  have ch: "lv_chain ?ls" by (simp add: di_levels_def)
  have hdc: "fst (snd (hd ?ls)) \<le> max ?m c" if "fst (snd (hd ?ls)) < ?n" using that by (simp add: di_levels_def c_def)
  have "max ?m c \<le> ?n" using le by (simp add: c_def)
  from inc_levels_ok [OF ch hdc this sup2 r32]
  obtain roots s' where e2: "inc_levels held ?ls (max ?m c) ?n (drop (c - a) bs) s = Some (roots, drop k2 (drop (c - a) bs), s')"
    and rl: "length roots = 3" "\<forall>r\<in>set roots. r < 2 ^ 32"
    and g: "levels_grown ?ls (set_roots ?ls roots) (max ?m c) ?n (drop (c - a) bs) s s'"
    unfolding mx k2_def [symmetric] by (auto simp: di_levels_def)
  define ino' where "ino' = with_roots roots (ino\<lparr>di_size := sz, di_direct := dir\<rparr>)"
  have e: "di_increase_size held sz bs ino s = Some (ino', s')"
    unfolding di_increase_size_def Let_def using e1 e2 by (simp add: ino'_def c_def di_blocks_def)
  have "ino_grown ino ino' bs s s'"
    unfolding ino'_def dir_def a_def c_def
    by (rule ino_grown_levels [OF d le rl(1)]) (use lb g in \<open>simp_all add: a_def c_def k2_def\<close>)
  moreover have "di_ok ino'"
  proof -
    have "set dir \<subseteq> set (di_direct ino) \<union> set bs"
      using set_take_subset [of a "di_direct ino"] set_take_subset [of "c - a" bs] set_drop_subset [of c "di_direct ino"]
      by (auto simp: dir_def)
    then have "w < 2 ^ 32" if "w \<in> set dir" for w
      using that ok sup by (auto simp: ino_ok_def di_ok_def di_words_def supplied_def)
    moreover have "length dir = 27" using d ac lb by (simp add: dir_def)
    ultimately show ?thesis unfolding ino'_def using rl sz(2) by (intro di_ok_with_roots) simp_all
  qed
  moreover have "di_size ino' = sz" by (simp add: ino'_def with_roots_def)
  ultimately show ?thesis using that e by blast
qed

section \<open>Clearing\<close>

lemma clear_levels_ok:
  "distinct (lv_nodes ls n s) \<Longrightarrow> set (lv_nodes ls n s) \<subseteq> {..<length s} - set held \<Longrightarrow>
   \<exists>roots. clear_levels held ls n col s = Some (roots, col @ lv_nodes ls n s) \<and> length roots = length ls \<and>
     set roots \<subseteq> insert 0 (set (map (snd \<circ> snd) ls))"
proof (induction ls n s arbitrary: col rule: lv_nodes.induct)
  case (2 d bound root ls n s)
  show ?case
  proof (cases "n \<le> bound")
    case True
    then show ?thesis by auto
  next
    case False
    let ?k = "min (128 ^ d) (n - bound)"
    have "collect_tree d held (col @ [root]) root 0 (n - bound) s = Some ((col @ [root]) @ nodes d root ?k s, ?k)"
      by (rule collect_tree_ok) (use 2 False in auto)
    moreover obtain roots where "clear_levels held ls (n - bound) ((col @ [root]) @ nodes d root ?k s) s =
        Some (roots, ((col @ [root]) @ nodes d root ?k s) @ lv_nodes ls (n - bound) s)" "length roots = length ls"
      "set roots \<subseteq> insert 0 (set (map (snd \<circ> snd) ls))"
      using 2(1) [OF False, of "(col @ [root]) @ nodes d root ?k s"] 2(2,3) False by auto
    ultimately show ?thesis using False by auto
  qed
qed simp

lemma clear_size_ok:
  assumes "ino_ok held ino s"
  obtains ino' where "di_clear_size held ino s = Some (ino_nodes ino s, ino')" "di_size ino' = 0" "di_ok ino'"
    "di_kind ino' = di_kind ino" "length (ino_nodes ino s) = count_total_block (di_size ino)"
proof -
  let ?n = "di_blocks ino" and ?ls = "di_levels ino"
  have d: "length (di_direct ino) = 27" using assms by (simp add: ino_ok_def di_ok_def)
  have nd: "distinct (lv_nodes ?ls ?n s)" "set (lv_nodes ?ls ?n s) \<subseteq> {..<length s} - set held"
    using assms by (auto simp: ino_ok_def ino_nodes_def)
  obtain roots where c: "clear_levels held ?ls ?n (take (min ?n 27) (di_direct ino)) s =
      Some (roots, take (min ?n 27) (di_direct ino) @ lv_nodes ?ls ?n s)" "length roots = 3"
    "set roots \<subseteq> insert 0 (set (map (snd \<circ> snd) ?ls))"
    using clear_levels_ok [OF nd, of "take (min ?n 27) (di_direct ino)"] by (auto simp: di_levels_def)
  define ino' where "ino' = with_roots roots (ino\<lparr>di_size := 0, di_direct := replicate 27 0\<rparr>)"
  have tk: "take (min ?n 27) (di_direct ino) = take ?n (di_direct ino)" using d by (cases "?n \<le> 27") simp_all
  have "di_clear_size held ino s = Some (ino_nodes ino s, ino')"
    using c(1) tk by (simp add: di_clear_size_def Let_def ino'_def ino_nodes_def flip: di_blocks_def)
  moreover have "set (map (snd \<circ> snd) ?ls) \<subseteq> set (di_words ino)" by (simp add: di_levels_def di_words_def)
  then have "set roots \<subseteq> insert 0 (set (di_words ino))" using c(3) by blast
  then have "\<forall>r\<in>set roots. r < 2 ^ 32" using assms by (auto simp: ino_ok_def di_ok_def)
  then have "di_ok ino'" unfolding ino'_def by (intro di_ok_with_roots c(2)) simp_all
  moreover have "length (ino_nodes ino s) = count_total_block (di_size ino)"
    using count_total_levels [of "di_size ino" ino] assms d
    by (simp add: ino_nodes_def length_lv_nodes ino_ok_def min.commute di_blocks_def)
  ultimately show ?thesis using that by (simp add: ino'_def with_roots_def)
qed

section \<open>Shrinking\<close>

lemma fold_zero_direct:
  "b \<le> length xs \<Longrightarrow> a \<le> b \<Longrightarrow> fold (\<lambda>i d. d[i := 0]) [a..<b] xs = take a xs @ replicate (b - a) 0 @ drop b xs"
proof (induction "b - a" arbitrary: b)
  case (Suc k)
  then obtain c where b: "b = Suc c" by (cases b) auto
  have "fold (\<lambda>i d. d[i := 0]) [a..<c] xs = take a xs @ replicate (c - a) 0 @ drop c xs"
    by (rule Suc.hyps) (use Suc b in auto)
  moreover have "drop c xs = xs ! c # drop b xs" using Suc b by (simp add: Cons_nth_drop_Suc)
  moreover have "b - a = Suc (c - a)" using Suc b by simp
  ultimately show ?case using Suc b by (simp add: list_update_append Suc_diff_le replicate_app_Cons_same)
qed simp

lemma decrease_size_direct_ok:
  assumes "di_ok ino" "di_blocks ino \<le> 27" "sz \<le> di_size ino"
  obtains ino' where "di_decrease_size held sz ino s = Some (drop (count_data_block sz) (ino_nodes ino s), ino')"
    "di_size ino' = sz" "di_ok ino'" "di_kind ino' = di_kind ino" "ino_nodes ino' s = take (count_data_block sz) (ino_nodes ino s)"
    "ino_data ino' s = take (count_data_block sz) (ino_data ino s)"
proof -
  let ?n = "di_blocks ino" and ?r = "count_data_block sz"
  have d: "length (di_direct ino) = 27" using assms(1) by (simp add: di_ok_def)
  have le: "?r \<le> ?n" using assms(3) by (simp add: di_blocks_def count_data_block_mono)
  define dir where "dir = take ?r (di_direct ino) @ replicate (?n - ?r) 0 @ drop ?n (di_direct ino)"
  define ino' where "ino' = with_roots [di_indirect1 ino, di_indirect2 ino, di_indirect3 ino] (ino\<lparr>di_size := sz, di_direct := dir\<rparr>)"
  have f: "fold (\<lambda>i d. d[i := 0]) [?r..<?n] (di_direct ino) = dir"
    unfolding dir_def by (rule fold_zero_direct) (use le assms(2) d in auto)
  have nn: "ino_nodes ino s = take ?n (di_direct ino)" "ino_data ino s = take ?n (di_direct ino)"
    using assms(2) by (simp_all add: ino_nodes_def ino_data_def di_levels_def)
  have r: "di_blocks ino' = ?r" "di_direct ino' = dir" by (simp_all add: ino'_def di_blocks_def with_roots_def)
  have "di_decrease_size held sz ino s = Some (drop ?r (ino_nodes ino s), ino')"
    using assms(2) le f by (simp add: di_decrease_size_def Let_def ino'_def nn min_absorb1 max_absorb2 flip: di_blocks_def)
  moreover have "ino_nodes ino' s = take ?r (ino_nodes ino s)" "ino_data ino' s = take ?r (ino_data ino s)"
    using le assms(2) d nn by (simp_all add: ino_nodes_def ino_data_def r di_levels_def dir_def)
  moreover have "di_ok ino'"
  proof -
    have "set dir \<subseteq> insert 0 (set (di_direct ino))"
      using set_take_subset [of ?r "di_direct ino"] set_drop_subset [of ?n "di_direct ino"]
      by (auto simp: dir_def)
    moreover have "length dir = 27" using d le assms(2) by (simp add: dir_def)
    moreover have "di_size ino < 2 ^ 32" using assms(1) by (simp add: di_ok_def di_words_def)
    ultimately show ?thesis unfolding ino'_def using assms(1,3)
      by (intro di_ok_with_roots) (auto simp: di_ok_def di_words_def)
  qed
  ultimately show ?thesis using that by (simp add: ino'_def with_roots_def)
qed

section \<open>Properties\<close>

definition empty_inode :: disk_inode where
  "empty_inode = \<lparr>di_kind = File, di_size = 0, di_direct = replicate 27 0, di_indirect1 = 0, di_indirect2 = 0, di_indirect3 = 0\<rparr>"

definition blank_disk :: "nat \<Rightarrow> disk" where
  "blank_disk n = replicate n (replicate 512 0)"

lemma blank_disk_ok [simp]: "disk_ok (blank_disk n)" "length (blank_disk n) = n"
  by (simp_all add: blank_disk_def disk_ok_def)

lemma empty_inode_ok: "ino_ok held empty_inode (blank_disk n)"
  by (simp add: ino_ok_def empty_inode_def di_ok_def di_words_def di_blocks_def count_data_block_def ino_nodes_def di_levels_def)

text \<open>C16: \<open>increase_size\<close>, given as many blocks as \<open>blocks_num_needed\<close> says, does not panic. The inode
  it leaves has the new size and the old kind, owns its old blocks and each of the new ones
  exactly once, keeps its data blocks in place, and no block but its indirect blocks is written.\<close>

theorem increase_size_correct:
  assumes "ino_ok held ino s" "di_size ino \<le> sz" "sz < 2 ^ 32" "count_data_block sz \<le> INDIRECT3_BOUND"
    and "blocks_num_needed sz ino = Some (length bs)"
    and "distinct (ino_nodes ino s @ bs)" "set bs \<subseteq> {..<min (length s) (2 ^ 32)} - set held"
  shows "\<exists>ino' s'. di_increase_size held sz bs ino s = Some (ino', s') \<and>
    di_size ino' = sz \<and> di_kind ino' = di_kind ino \<and> ino_ok held ino' s' \<and>
    mset (ino_nodes ino' s') = mset (ino_nodes ino s) + mset bs \<and>
    take (di_blocks ino) (ino_data ino' s') = ino_data ino s \<and>
    (\<forall>x. x \<notin> set (ino_inner ino' s') \<longrightarrow> s' ! x = s ! x)"
proof -
  have "supplied held (ino_nodes ino s) bs (length bs) s"
    using assms(1,6,7) by (auto simp: supplied_def ino_ok_def)
  from increase_size_ok [OF assms(1-5) this]
  obtain ino' s' where e: "di_increase_size held sz bs ino s = Some (ino', s')" "di_size ino' = sz" "di_ok ino'"
    and g: "ino_grown ino ino' bs s s'" by blast
  have m: "mset (ino_nodes ino' s') = mset (ino_nodes ino s @ bs)" using g by (simp add: ino_grown_def)
  then have "distinct (ino_nodes ino' s')" "set (ino_nodes ino' s') = set (ino_nodes ino s) \<union> set bs"
    using assms(6) mset_eq_imp_distinct_iff [OF m] mset_eq_setD [OF m] by simp_all
  moreover have "length s' = length s" using g by (simp add: ino_grown_def)
  ultimately have "ino_ok held ino' s'" using g e assms(1,4,7) by (auto simp: ino_ok_def ino_grown_def di_blocks_def)
  then show ?thesis using e g by (auto simp: ino_grown_def)
qed

theorem increase_size_witness:
  "\<exists>ino' s'. di_increase_size [0] 600 [1, 2] empty_inode (blank_disk 4) = Some (ino', s') \<and>
    ino_ok [0] ino' s' \<and> mset (ino_nodes ino' s') = {#1, 2#}"
proof -
  have n: "ino_nodes empty_inode (blank_disk 4) = []"
    by (simp add: ino_nodes_def empty_inode_def di_blocks_def count_data_block_def di_levels_def)
  have cd: "count_data_block 600 = 2" "count_data_block 0 = 0" by (simp_all add: count_data_block_def div_ceil_def)
  have "count_total_block 600 = 2" "count_total_block 0 = 0"
    using count_total_levels [of 600 empty_inode] count_total_levels [of 0 empty_inode]
    by (simp_all add: cd di_levels_def)
  then have "blocks_num_needed 600 empty_inode = Some (as_u32 (2 + 2 ^ 32))"
    by (simp add: blocks_num_needed_def empty_inode_def)
  moreover have "as_u32 (2 + 2 ^ 32) = 2" unfolding as_u32_def by (simp only: mod_add_self2) simp
  ultimately have "blocks_num_needed 600 empty_inode = Some 2" by simp
  then have b: "blocks_num_needed 600 empty_inode = Some (length [1, 2 :: nat])" by simp
  have c: "di_size empty_inode \<le> 600" "count_data_block 600 \<le> INDIRECT3_BOUND"
    by (simp_all add: empty_inode_def count_data_block_def div_ceil_def)
  show ?thesis
    using increase_size_correct [OF empty_inode_ok [of "[0]" 4] c(1) _ c(2) b] n by auto
qed

text \<open>C34: \<open>clear_size\<close> does not panic; it returns exactly the blocks the inode owns, each once, which
  are as many as \<open>count_total_block\<close> says (the assertion in \<open>Inode::clear\<close>), and leaves an inode
  of size 0 that owns nothing.\<close>

theorem clear_size_correct:
  assumes "ino_ok held ino s"
  shows "\<exists>ino'. di_clear_size held ino s = Some (ino_nodes ino s, ino') \<and>
    length (ino_nodes ino s) = count_total_block (di_size ino) \<and>
    di_size ino' = 0 \<and> di_kind ino' = di_kind ino \<and> ino_nodes ino' s = [] \<and> ino_ok held ino' s"
proof -
  obtain ino' where c: "di_clear_size held ino s = Some (ino_nodes ino s, ino')" "di_size ino' = 0" "di_ok ino'"
    "di_kind ino' = di_kind ino" "length (ino_nodes ino s) = count_total_block (di_size ino)"
    by (rule clear_size_ok [OF assms])
  have "di_blocks ino' = 0" using c(2) by (simp add: di_blocks_def count_data_block_def)
  then show ?thesis using c assms by (simp add: ino_ok_def ino_nodes_def)
qed

lemma forest_1: "(\<And>i k. 0 < k \<Longrightarrow> g i k = [i]) \<Longrightarrow> forest g 1 n is = take n is"
  by (induction "is" arbitrary: n) (auto simp: take_Cons')

lemma leaves_1: "leaves 1 b n s = take n (ind_block (s ! b))" and nodes_1: "nodes 1 b n s = take n (ind_block (s ! b))"
  using forest_1 [of "\<lambda>i k. leaves 0 i k s" n "ind_block (s ! b)"] forest_1 [of "\<lambda>i k. i # nodes 0 i k s" n "ind_block (s ! b)"]
  by simp_all

text \<open>C35: \<open>decrease_size\<close> to a size that still needs the first indirect block returns, for the caller
  to free, the data blocks of this block that the inode keeps, and none of those it gives up.\<close>

theorem decrease_size_drops_live_blocks:
  assumes "ino_ok held ino s" "sz < di_size ino" "count_data_block sz < di_blocks ino"
    and "27 < count_data_block sz" "count_data_block sz \<le> 155"
  shows "\<exists>dropped ino'. di_decrease_size held sz ino s = Some (dropped, ino') \<and> di_size ino' = sz \<and>
    dropped = drop 27 (ino_data ino' s) \<and> dropped \<noteq> [] \<and>
    ino_data ino' s = take (count_data_block sz) (ino_data ino s)"
proof -
  let ?r = "count_data_block sz" and ?n = "di_blocks ino"
  define ino' where "ino' = with_roots [di_indirect1 ino, di_indirect2 ino, di_indirect3 ino] (ino\<lparr>di_size := sz\<rparr>)"
  have d: "length (di_direct ino) = 27" using assms(1) by (simp add: ino_ok_def di_ok_def)
  have ok: "distinct (di_indirect1 ino # nodes 1 (di_indirect1 ino) (min 128 (?n - 27)) s)"
    "set (di_indirect1 ino # nodes 1 (di_indirect1 ino) (min 128 (?n - 27)) s) \<subseteq> {..<length s} - set held"
    using assms(1,3,4) by (auto simp: ino_ok_def ino_nodes_def di_levels_def)
  have mn: "min (?r - 27) (min 128 (?n - 27)) = ?r - 27" using assms(3,5) by simp
  have pre: "take (?r - 27) (nodes 1 b (min 128 (?n - 27)) s) = nodes 1 b (?r - 27) s" for b
    unfolding nodes_1 take_take mn ..
  have sub: "set (nodes 1 (di_indirect1 ino) (?r - 27) s) \<subseteq> set (nodes 1 (di_indirect1 ino) (min 128 (?n - 27)) s)"
    unfolding pre [symmetric] by (rule set_take_subset)
  have dis: "distinct (nodes 1 (di_indirect1 ino) (?r - 27) s)"
    unfolding pre [symmetric] using ok(1) by (intro distinct_take) simp
  have c: "collect_tree 1 held [] (di_indirect1 ino) 0 (?r - 27) s = Some ([] @ nodes 1 (di_indirect1 ino) (?r - 27) s, ?r - 27)"
    by (rule collect_tree_ok) (use ok sub dis assms(4,5) in \<open>auto\<close>)
  have u: "usub ?r 27 = ?r - 27" "min ?n 27 = 27" "max ?r 27 = ?r" "drop ?r (di_direct ino) = []" "?n \<noteq> 27" "?r - 27 \<le> 128" "\<not> ?r \<le> 27" "[?r..<27] = []"
    using assms(3-5) d by (auto simp: usub_def mod_if)
  have "di_decrease_size held sz ino s = Some (nodes 1 (di_indirect1 ino) (?r - 27) s, ino')"
    using c d by (simp add: di_decrease_size_def Let_def ino'_def u del: collect_tree.simps flip: di_blocks_def)
  moreover have "di_blocks ino' = ?r" "di_direct ino' = di_direct ino" "di_levels ino' = di_levels ino" "di_size ino' = sz"
    by (simp_all add: ino'_def di_blocks_def with_roots_def di_levels_def)
  moreover have "ino_data ino' s = di_direct ino @ nodes 1 (di_indirect1 ino) (?r - 27) s"
    using calculation(2-4) assms(4,5) d unfolding ino_data_def di_levels_def lv_leaves.simps fs_consts leaves_1 nodes_1 by simp
  moreover have "take ?r (ino_data ino s) = di_direct ino @ nodes 1 (di_indirect1 ino) (?r - 27) s"
    using assms(3-5) d mn unfolding ino_data_def di_levels_def lv_leaves.simps fs_consts leaves_1 nodes_1 by simp
  moreover have "nodes 1 (di_indirect1 ino) (?r - 27) s \<noteq> []"
    using assms(4,5) unfolding nodes_1 by (simp flip: length_0_conv)
  ultimately show ?thesis using d by auto
qed

definition long_inode :: disk_inode where
  "long_inode = \<lparr>di_kind = File, di_size = 14848, di_direct = [1..<28], di_indirect1 = 28, di_indirect2 = 0, di_indirect3 = 0\<rparr>"

definition long_disk :: disk where
  "long_disk = (blank_disk 31)[28 := bytes_of 4 (29 # 30 # replicate 126 0)]"

lemma long_inode_ok: "ino_ok [] long_inode long_disk"
proof -
  have b: "di_blocks long_inode = 29" by (simp add: di_blocks_def long_inode_def count_data_block_def div_ceil_def)
  have i: "ind_block (long_disk ! 28) = 29 # 30 # replicate 126 0"
    unfolding long_disk_def by (subst nth_list_update_eq) (simp, rule words_of_bytes_of, simp_all)
  have n: "ino_nodes long_inode long_disk = [1..<28] @ [28, 29, 30]"
    unfolding ino_nodes_def b di_levels_def lv_nodes.simps nodes_1 by (simp add: long_inode_def i)
  have "disk_ok long_disk" unfolding long_disk_def by (rule disk_ok_update) simp_all
  moreover have "length long_disk = 31" by (simp add: long_disk_def)
  ultimately show ?thesis unfolding ino_ok_def n b by (auto simp: di_ok_def long_inode_def di_words_def)
qed

theorem decrease_size_drops_live_blocks_witness:
  "\<exists>dropped ino'. di_decrease_size [] 14336 long_inode long_disk = Some (dropped, ino') \<and>
     dropped = drop 27 (ino_data ino' long_disk) \<and> dropped \<noteq> []"
proof -
  have "count_data_block 14336 = 28" "di_blocks long_inode = 29" "14336 < di_size long_inode"
    by (simp_all add: count_data_block_def div_ceil_def di_blocks_def long_inode_def)
  then show ?thesis using decrease_size_drops_live_blocks [OF long_inode_ok, of 14336] by auto
qed

theorem clear_size_witness:
  "\<exists>ino'. di_clear_size [] long_inode long_disk = Some (ino_nodes long_inode long_disk, ino') \<and>
     di_size ino' = 0 \<and> ino_nodes ino' long_disk = []"
  using clear_size_correct [OF long_inode_ok] by auto

end
