(* ===== verification/InodeIO.thy ===== *)
theory InodeIO
  imports InodeSize
begin

text \<open>
  Reading and writing the bytes of an inode. The content of an inode is the concatenation of its
  data blocks, cut at its size; \<open>block_id\<close> finds the data block of an index, and \<open>read_at\<close> and
  \<open>write_at\<close> read and replace a range of the content.
\<close>

definition ino_bytes :: "disk_inode \<Rightarrow> disk \<Rightarrow> u8 list" where
  "ino_bytes ino s = concat (map (\<lambda>b. s ! b) (ino_data ino s))"

definition content :: "disk_inode \<Rightarrow> disk \<Rightarrow> u8 list" where
  "content ino s = take (di_size ino) (ino_bytes ino s)"

section \<open>Finding a data block\<close>

primrec lookup :: "nat \<Rightarrow> nat list \<Rightarrow> nat \<Rightarrow> nat \<Rightarrow> disk \<Rightarrow> nat option" where
  "lookup 0 held b i s = Some b"
| "lookup (Suc d) held b i s = do {
     blk \<leftarrow> blk_read held b s;
     c \<leftarrow> nth_opt (ind_block blk) (i div 128 ^ d);
     lookup d held c (i mod 128 ^ d) s
   }"

lemma lookup_1: "lookup 1 held b i s = do { blk \<leftarrow> blk_read held b s; nth_opt (ind_block blk) i }"
proof -
  have "Option.bind x Some = x" for x :: "nat option" by (cases x) simp_all
  then show ?thesis by simp
qed

lemma lookup_2: "lookup 2 held b i s = do { blk \<leftarrow> blk_read held b s;
    c \<leftarrow> nth_opt (ind_block blk) (i div 128); lookup 1 held c (i mod 128) s }"
  using lookup.simps(2) [of 1 held b i s] by (simp only: one_add_one [symmetric] Suc_eq_plus1 power_one_right)

lemma lookup_3: "lookup 3 held b i s = do { blk \<leftarrow> blk_read held b s;
    c \<leftarrow> nth_opt (ind_block blk) (i div 16384); lookup 2 held c (i mod 16384) s }"
proof -
  have "Suc 2 = 3" "(128 :: nat) ^ 2 = 16384" by simp_all
  then show ?thesis using lookup.simps(2) [of 2 held b i s] by (simp only:)
qed

lemma di_block_id_lookup:
  "di_block_id held ino i s = (
     if i < 27 then nth_opt (di_direct ino) i
     else if i < 155 then lookup 1 held (di_indirect1 ino) (i - 27) s
     else if i < 16539 then lookup 2 held (di_indirect2 ino) (i - 155) s
     else lookup 3 held (di_indirect3 ino) (i - 16539) s)"
  unfolding lookup_3 lookup_2 lookup_1 di_block_id_def Let_def fs_consts by (rule refl)

lemma forest_nth:
  assumes "\<And>i k. 0 < k \<Longrightarrow> k \<le> cap \<Longrightarrow> length (g i k) = k" "0 < cap"
  shows "i < n \<Longrightarrow> n \<le> cap * length is \<Longrightarrow>
    forest g cap n is ! i = g (is ! (i div cap)) (min cap (n - i div cap * cap)) ! (i mod cap)"
proof (induction "is" arbitrary: i n)
  case (Cons a "is")
  have l: "length (g a (min cap n)) = min cap n" using Cons.prems(1) assms by simp
  show ?case
  proof (cases "i < cap")
    case True
    then show ?thesis using Cons.prems(1) l by (simp add: nth_append)
  next
    case False
    then obtain j where i: "i = j + cap" by (metis le_add_diff_inverse2 not_less)
    have "forest g cap (n - cap) is ! j = g (is ! (j div cap)) (min cap (n - cap - j div cap * cap)) ! (j mod cap)"
      by (rule Cons.IH) (use Cons.prems i in auto)
    moreover have "min cap n = cap" using Cons.prems(1) i by simp
    moreover have "n - cap - j div cap * cap = n - (cap + j div cap * cap)" "(j + cap) div cap = Suc (j div cap)"
      using assms(2) by (simp_all add: div_add_self2)
    ultimately show ?thesis using Cons.prems(1) l i by (simp add: nth_append)
  qed
qed simp

lemma forest_child:
  "i < n \<Longrightarrow> n \<le> cap * length is \<Longrightarrow> 0 < cap \<Longrightarrow>
   set (g (is ! (i div cap)) (min cap (n - i div cap * cap))) \<subseteq> set (forest g cap n is)"
proof (induction "is" arbitrary: i n)
  case (Cons a "is")
  show ?case
  proof (cases "i < cap")
    case True
    then show ?thesis using Cons.prems(1) by auto
  next
    case False
    then obtain j where i: "i = j + cap" by (metis le_add_diff_inverse2 not_less)
    have "set (g (is ! (j div cap)) (min cap (n - cap - j div cap * cap))) \<subseteq> set (forest g cap (n - cap) is)"
      by (rule Cons.IH) (use Cons.prems i in auto)
    moreover have "n - cap - j div cap * cap = n - (cap + j div cap * cap)" "(j + cap) div cap = Suc (j div cap)"
      using Cons.prems(3) by (simp_all add: div_add_self2)
    ultimately show ?thesis using Cons.prems(1) i by auto
  qed
qed simp

lemma lookup_ok:
  "i < n \<Longrightarrow> n \<le> 128 ^ d \<Longrightarrow> set (b # nodes d b n s) \<subseteq> {..<length s} - set held \<Longrightarrow>
   lookup d held b i s = Some (leaves d b n s ! i)"
proof (induction d arbitrary: b n i)
  case 0
  then have "i = 0" by simp
  with 0 show ?case by simp
next
  case (Suc d)
  let ?is = "ind_block (s ! b)" and ?c = "128 ^ d :: nat"
  let ?j = "i div ?c" and ?k = "min ?c (n - i div ?c * ?c)"
  have n: "n \<le> ?c * length ?is" using Suc.prems(2) by simp
  have j: "?j < 128" using Suc.prems(1,2) by (simp add: div_less_iff_less_mult mult.commute)
  have lv: "fleaves d n ?is s ! i = leaves d (?is ! ?j) ?k s ! (i mod ?c)"
    by (rule forest_nth [OF _ _ Suc.prems(1) n]) (simp_all add: length_leaves)
  have "i mod ?c < ?k" using Suc.prems(1) by (simp add: minus_mod_eq_div_mult [symmetric] less_diff_conv)
  moreover have "set (?is ! ?j # nodes d (?is ! ?j) ?k s) \<subseteq> set (fnodes d n ?is s)"
    by (rule forest_child [OF Suc.prems(1) n, where g = "\<lambda>i k. i # nodes d i k s"]) simp
  then have "set (?is ! ?j # nodes d (?is ! ?j) ?k s) \<subseteq> {..<length s} - set held"
    using Suc.prems(3) by (simp only: nodes.simps list.set) blast
  ultimately have "lookup d held (?is ! ?j) (i mod ?c) s = Some (leaves d (?is ! ?j) ?k s ! (i mod ?c))"
    by (intro Suc.IH) simp_all
  then show ?case using Suc.prems(3) j lv by (simp add: nth_opt_def)
qed

lemma ino_nodes_unfold: "n = di_blocks ino \<Longrightarrow> ino_nodes ino s = take n (di_direct ino) @
    (if n \<le> 27 then [] else di_indirect1 ino # nodes 1 (di_indirect1 ino) (min 128 (n - 27)) s @
     (if n \<le> 155 then [] else di_indirect2 ino # nodes 2 (di_indirect2 ino) (min 16384 (n - 155)) s @
      (if n \<le> 16539 then [] else di_indirect3 ino # nodes 3 (di_indirect3 ino) (min 2097152 (n - 16539)) s)))"
  by (auto simp: ino_nodes_def di_levels_def simp del: nodes.simps)

lemma ino_data_unfold: "n = di_blocks ino \<Longrightarrow> ino_data ino s = take n (di_direct ino) @
    (if n \<le> 27 then [] else leaves 1 (di_indirect1 ino) (min 128 (n - 27)) s @
     (if n \<le> 155 then [] else leaves 2 (di_indirect2 ino) (min 16384 (n - 155)) s @
      (if n \<le> 16539 then [] else leaves 3 (di_indirect3 ino) (min 2097152 (n - 16539)) s)))"
  by (auto simp: ino_data_def di_levels_def simp del: leaves.simps)

lemma length_leaves_levels:
  "length (leaves 1 b (min 128 n) s) = min 128 n" "length (leaves 2 b (min 16384 n) s) = min 16384 n"
  "length (leaves 3 b (min 2097152 n) s) = min 2097152 n"
  by (rule length_leaves, simp)+

lemma length_ino_data:
  assumes "ino_ok held ino s"
  shows "length (ino_data ino s) = di_blocks ino"
proof -
  have "length (di_direct ino) = 27" "di_blocks ino \<le> 2113691" using assms by (simp_all add: ino_ok_def di_ok_def)
  then show ?thesis unfolding ino_data_unfold [OF refl]
    by (simp add: length_leaves_levels length_leaves del: leaves.simps One_nat_def)
qed

lemma block_id_ok:
  assumes ok: "ino_ok held ino s" and i: "i < di_blocks ino"
  shows "di_block_id held ino i s = Some (ino_data ino s ! i)"
proof -
  define n where "n = di_blocks ino"
  note nodes = ino_nodes_unfold [OF n_def, of s] and data = ino_data_unfold [OF n_def, of s]
  have d: "length (di_direct ino) = 27" "n \<le> 2113691" using ok by (simp_all add: n_def ino_ok_def di_ok_def)
  have sub: "set (ino_nodes ino s) \<subseteq> {..<length s} - set held" using ok by (simp add: ino_ok_def)
  have i: "i < n" using i by (simp add: n_def)
  define A B C where "A = leaves 1 (di_indirect1 ino) (min 128 (n - 27)) s"
    and "B = leaves 2 (di_indirect2 ino) (min 16384 (n - 155)) s"
    and "C = leaves 3 (di_indirect3 ino) (min 2097152 (n - 16539)) s"
  have l: "length A = min 128 (n - 27)" "length B = min 16384 (n - 155)"
    by (simp_all only: A_def B_def length_leaves_levels)
  note data = data [folded A_def B_def C_def]
  consider "i < 27" | "27 \<le> i" "i < 155" | "155 \<le> i" "i < 16539" | "16539 \<le> i" by linarith
  then show ?thesis
  proof cases
    case 1
    then show ?thesis using i d by (simp add: di_block_id_lookup data nth_append)
  next
    case 2
    have "lookup 1 held (di_indirect1 ino) (i - 27) s = Some (A ! (i - 27))"
      unfolding A_def by (rule lookup_ok) (use 2 i sub nodes in auto)
    moreover have "ino_data ino s ! i = A ! (i - 27)" using 2 i d l by (auto simp: data nth_append)
    ultimately show ?thesis using 2 by (simp add: di_block_id_lookup del: lookup.simps One_nat_def)
  next
    case 3
    have "lookup 2 held (di_indirect2 ino) (i - 155) s = Some (B ! (i - 155))"
      unfolding B_def by (rule lookup_ok) (use 3 i sub nodes in auto)
    moreover have "ino_data ino s ! i = B ! (i - 155)" using 3 i d l by (auto simp: data nth_append)
    ultimately show ?thesis using 3 by (simp add: di_block_id_lookup del: lookup.simps One_nat_def)
  next
    case 4
    have "lookup 3 held (di_indirect3 ino) (i - 16539) s = Some (C ! (i - 16539))"
      unfolding C_def by (rule lookup_ok) (use 4 i d sub nodes in auto)
    moreover have "ino_data ino s ! i = C ! (i - 16539)" using 4 i d l by (auto simp: data nth_append)
    ultimately show ?thesis using 4 by (simp add: di_block_id_lookup del: lookup.simps One_nat_def)
  qed
qed

section \<open>The bytes of an inode\<close>

lemma set_ino_data_subset: "set (ino_data ino s) \<subseteq> set (ino_nodes ino s)"
  using set_lv_leaves_subset [of "di_levels ino" "di_blocks ino" s] by (auto simp: ino_data_def ino_nodes_def)

lemma set_ino_inner_subset: "set (ino_inner ino s) \<subseteq> set (ino_nodes ino s)"
  using set_lv_inner_subset [of "di_levels ino" "di_blocks ino" s] by (auto simp: ino_inner_def ino_nodes_def)

lemma mset_ino_nodes: "mset (ino_nodes ino s) = mset (ino_inner ino s) + mset (ino_data ino s)"
  by (simp add: ino_nodes_def ino_inner_def ino_data_def mset_lv_nodes)

lemma data_not_inner:
  assumes "distinct (ino_nodes ino s)"
  shows "distinct (ino_data ino s)" "set (ino_data ino s) \<inter> set (ino_inner ino s) = {}"
proof -
  have "mset (ino_nodes ino s) = mset (ino_inner ino s @ ino_data ino s)" by (simp add: mset_ino_nodes)
  from mset_eq_imp_distinct_iff [OF this] assms have "distinct (ino_inner ino s @ ino_data ino s)" by simp
  then show "distinct (ino_data ino s)" "set (ino_data ino s) \<inter> set (ino_inner ino s) = {}" by auto
qed

text \<open>The blocks of an inode depend on its indirect blocks only.\<close>

lemma ino_frame:
  assumes "\<forall>x\<in>set (ino_inner ino s). s' ! x = s ! x"
  shows "ino_nodes ino s' = ino_nodes ino s" "ino_data ino s' = ino_data ino s" "ino_inner ino s' = ino_inner ino s"
  using lv_frame [of "di_levels ino" "di_blocks ino" s s'] assms by (simp_all add: ino_inner_def ino_nodes_def ino_data_def)

lemma length_concat_blocks: "\<forall>b\<in>set bs. length (s ! b) = 512 \<Longrightarrow> length (concat (map ((!) s) bs)) = 512 * length bs"
  by (induction bs) simp_all

lemma take_drop_concat:
  "i < length bs \<Longrightarrow> \<forall>b\<in>set bs. length (s ! b) = 512 \<Longrightarrow>
   take 512 (drop (512 * i) (concat (map ((!) s) bs))) = s ! (bs ! i)"
proof (induction bs arbitrary: i)
  case (Cons b bs)
  then show ?case by (cases i) simp_all
qed simp

lemma splice_append1: "r + length ys \<le> length xs \<Longrightarrow> splice r ys (xs @ zs) = splice r ys xs @ zs"
  by (simp add: splice_def)

lemma splice_append2: "length xs = l \<Longrightarrow> splice (l + r) ys (xs @ zs) = xs @ splice r ys zs"
  by (simp add: splice_def)

lemma concat_update:
  "i < length bs \<Longrightarrow> distinct bs \<Longrightarrow> \<forall>b\<in>set bs. length (s ! b) = 512 \<and> b < length s \<Longrightarrow> r + length ys \<le> 512 \<Longrightarrow>
   concat (map ((!) (s[bs ! i := splice r ys (s ! (bs ! i))])) bs) = splice (512 * i + r) ys (concat (map ((!) s) bs))"
proof (induction bs arbitrary: i)
  case (Cons b bs)
  show ?case
  proof (cases i)
    case 0
    have "b \<noteq> x" if "x \<in> set bs" for x using that Cons.prems(2) by auto
    then have "concat (map ((!) (s[b := splice r ys (s ! b)])) bs) = concat (map ((!) s) bs)"
      by (intro arg_cong [where f = concat] map_cong) simp_all
    then show ?thesis using 0 Cons.prems by (simp add: splice_append1)
  next
    case (Suc j)
    then have "b \<noteq> bs ! j" using Cons.prems by auto
    moreover have "concat (map ((!) (s[bs ! j := splice r ys (s ! (bs ! j))])) bs) =
        splice (512 * j + r) ys (concat (map ((!) s) bs))"
      by (rule Cons.IH) (use Cons.prems Suc in auto)
    ultimately show ?thesis
      using Suc Cons.prems splice_append2 [of "s ! b" 512 "512 * j + r" ys "concat (map ((!) s) bs)"]
      by (simp add: add.assoc)
  qed
qed simp

lemma splice_splice:
  "i + length xs + length ys \<le> length zs \<Longrightarrow> splice (i + length xs) ys (splice i xs zs) = splice i (xs @ ys) zs"
  by (simp add: splice_def ac_simps)

lemma length_ino_bytes:
  assumes "ino_ok held ino s"
  shows "length (ino_bytes ino s) = 512 * di_blocks ino" "di_size ino \<le> 512 * di_blocks ino"
proof -
  have "set (ino_data ino s) \<subseteq> {..<length s}" using assms set_ino_data_subset [of ino s] by (auto simp: ino_ok_def)
  then have "\<forall>b\<in>set (ino_data ino s). length (s ! b) = 512" using assms by (auto simp: ino_ok_def)
  then show "length (ino_bytes ino s) = 512 * di_blocks ino"
    unfolding ino_bytes_def length_ino_data [OF assms, symmetric] by (rule length_concat_blocks)
  have "div_ceil (di_size ino) 512 \<le> di_blocks ino" by (simp add: di_blocks_def count_data_block_def)
  then show "di_size ino \<le> 512 * di_blocks ino" by (simp add: div_ceil_le_iff)
qed

text \<open>The access both loops make for the byte at \<open>start\<close>.\<close>

lemma block_access:
  assumes ok: "ino_ok held ino s" and st: "start < di_size ino"
  obtains b where "di_block_id held ino (as_u32 (start div 512)) s = Some b" "start div 512 < di_blocks ino"
    "b = ino_data ino s ! (start div 512)" "b \<in> set (ino_data ino s)" "blk_read held b s = Some (s ! b)"
    "b \<notin> set held" "b < length s" "length (s ! b) = 512"
    "take 512 (drop (start div 512 * 512) (ino_bytes ino s)) = s ! b"
proof -
  have sz: "di_size ino < 2 ^ 32" using ok by (simp add: ino_ok_def di_ok_def di_words_def)
  have i: "start div 512 < di_blocks ino" using st length_ino_bytes(2) [OF ok] by (simp add: div_less_iff_less_mult)
  have u: "as_u32 (start div 512) = start div 512" using st sz by (intro as_u32_small) (meson div_le_dividend le_less_trans less_trans)
  define b where "b = ino_data ino s ! (start div 512)"
  have b: "b \<in> set (ino_data ino s)" using i length_ino_data [OF ok] by (simp add: b_def)
  then have bs: "b \<notin> set held" "b < length s" using ok set_ino_data_subset [of ino s] by (auto simp: ino_ok_def)
  have "\<forall>b\<in>set (ino_data ino s). length (s ! b) = 512"
    using ok set_ino_data_subset [of ino s] by (auto simp: ino_ok_def)
  then have "take 512 (drop (512 * (start div 512)) (ino_bytes ino s)) = s ! b"
    unfolding ino_bytes_def b_def by (intro take_drop_concat) (use i length_ino_data [OF ok] in simp_all)
  then show ?thesis
    using that [of b] block_id_ok [OF ok i] u b bs i ok by (simp add: b_def ino_ok_def mult.commute)
qed

lemma chunk_arith_aux:
  fixes start stop ecb q r :: nat
  assumes "start = q * 512 + r" "r < 512" "ecb = min ((q + 1) * 512) stop" "start < stop"
  shows "start < ecb" "ecb \<le> stop" "r + (ecb - start) \<le> 512" "ecb \<noteq> stop \<longrightarrow> ecb div 512 = q + 1"
  using assms by (auto simp: min_def)

lemma chunk_arith:
  fixes start stop ecb :: nat
  assumes "ecb = min ((start div 512 + 1) * 512) stop" "start < stop"
  shows "start < ecb" "ecb \<le> stop" "start mod 512 + (ecb - start) \<le> 512"
    "ecb \<noteq> stop \<longrightarrow> ecb div 512 = start div 512 + 1"
  using chunk_arith_aux [OF _ _ assms, of "start mod 512"] by simp_all

lemma take_drop_chunk:
  fixes B :: "'a list"
  assumes "start mod 512 + k \<le> 512"
  shows "take k (drop (start mod 512) (take 512 (drop (start div 512 * 512) B))) = take k (drop start B)"
proof -
  have "drop (start mod 512) (take 512 (drop (start div 512 * 512) B)) =
      take (512 - start mod 512) (drop (start mod 512 + start div 512 * 512) B)"
    by (simp only: drop_take drop_drop)
  moreover have "start mod 512 + start div 512 * 512 = start" by simp
  moreover have "min k (512 - start mod 512) = k" using assms by simp
  ultimately show ?thesis by (simp only: take_take)
qed

lemma read_loop_ok:
  assumes ok: "ino_ok held ino s"
  shows "start < stop \<Longrightarrow> stop \<le> di_size ino \<Longrightarrow> rs + (stop - start) \<le> length buf \<Longrightarrow>
    di_read_loop held ino start (start div 512) stop rs buf s =
      Some (rs + (stop - start), splice rs (take (stop - start) (drop start (ino_bytes ino s))) buf)"
proof (induction "stop - start" arbitrary: start rs buf rule: less_induct)
  case less
  let ?B = "ino_bytes ino s"
  define ecb where "ecb = min ((start div 512 + 1) * 512) stop"
  note ca = chunk_arith [OF ecb_def less.prems(1)]
  have "start < di_size ino" using less.prems by simp
  then obtain b where b: "di_block_id held ino (as_u32 (start div 512)) s = Some b" "blk_read held b s = Some (s ! b)"
    and tb: "take 512 (drop (start div 512 * 512) ?B) = s ! b" by (rule block_access [OF ok])
  define k where "k = ecb - start"
  define X where "X = take k (drop start ?B)"
  have X: "take k (drop (start mod 512) (s ! b)) = X"
    unfolding X_def tb [symmetric] by (rule take_drop_chunk) (use ca(3) in \<open>simp add: k_def\<close>)
  have lX: "length X = k"
    using length_ino_bytes [OF ok] less.prems(2) ca by (simp add: X_def k_def)
  have step: "di_read_loop held ino start (start div 512) stop rs buf s =
      (if ecb = stop then Some (rs + k, splice rs X buf)
       else di_read_loop held ino ecb (start div 512 + 1) stop (rs + k) (splice rs X buf) s)"
  proof -
    have g: "rs + k \<le> length buf" "start mod 512 + k \<le> 512" using ca less.prems(3) by (simp_all add: k_def)
    show ?thesis
      unfolding di_read_loop.simps [of held ino start] fs_consts Let_def ecb_def [symmetric] k_def [symmetric]
      using b g X by simp
  qed
  show ?case
  proof (cases "ecb = stop")
    case True
    then show ?thesis using step by (simp add: X_def k_def)
  next
    case False
    have ar: "stop - ecb < stop - start" "ecb < stop" "rs + k + (stop - ecb) = rs + (stop - start)" "rs + k \<le> length buf"
      using ca(1,2) False less.prems(1,3) by (simp_all add: k_def)
    have lb: "length (splice rs X buf) = length buf" using lX ar(4) by simp
    have "di_read_loop held ino ecb (ecb div 512) stop (rs + k) (splice rs X buf) s =
        Some (rs + k + (stop - ecb), splice (rs + k) (take (stop - ecb) (drop ecb ?B)) (splice rs X buf))"
      by (rule less.hyps [OF ar(1,2) less.prems(2)]) (unfold ar lb, rule less.prems(3))
    moreover have "splice (rs + k) (take (stop - ecb) (drop ecb ?B)) (splice rs X buf) =
        splice rs (X @ take (stop - ecb) (drop ecb ?B)) buf"
      unfolding lX [symmetric] by (rule splice_splice) (use ar(3) less.prems(3) lX in simp)
    moreover have "X @ take (stop - ecb) (drop ecb ?B) = take (stop - start) (drop start ?B)"
      using ca(1,2) take_add [of k "stop - ecb" "drop start ?B"] by (simp add: X_def k_def)
    ultimately show ?thesis using step False ca(4) ar(3) by simp
  qed
qed

section \<open>Writing\<close>

text \<open>\<open>X\<close> has been written at \<open>start\<close>: only data blocks of the inode have changed.\<close>

definition ino_written :: "nat list \<Rightarrow> disk_inode \<Rightarrow> nat \<Rightarrow> u8 list \<Rightarrow> disk \<Rightarrow> disk \<Rightarrow> bool" where
  "ino_written held ino start X s s' \<longleftrightarrow> ino_ok held ino s' \<and> length s' = length s \<and>
     ino_nodes ino s' = ino_nodes ino s \<and> ino_data ino s' = ino_data ino s \<and>
     ino_bytes ino s' = splice start X (ino_bytes ino s) \<and>
     (\<forall>x. x \<notin> set (ino_data ino s) \<longrightarrow> s' ! x = s ! x)"

lemma block_written:
  assumes ok: "ino_ok held ino s" and st: "start < di_size ino" and X: "start mod 512 + length X \<le> 512"
    and b: "b = ino_data ino s ! (start div 512)"
  shows "ino_written held ino start X s (s[b := splice (start mod 512) X (s ! b)])"
proof -
  let ?s = "s[b := splice (start mod 512) X (s ! b)]"
  obtain b' where b': "start div 512 < di_blocks ino" "b' = ino_data ino s ! (start div 512)" "b' \<in> set (ino_data ino s)"
    "b' < length s" "length (s ! b') = 512"
    by (rule block_access [OF ok st])
  then have bb: "start div 512 < di_blocks ino" "b \<in> set (ino_data ino s)" "b < length s" "length (s ! b) = 512"
    by (simp_all add: b)
  have dist: "distinct (ino_nodes ino s)" using ok by (simp add: ino_ok_def)
  have "\<forall>x\<in>set (ino_inner ino s). ?s ! x = s ! x"
  proof
    fix x assume "x \<in> set (ino_inner ino s)"
    then have "b \<noteq> x" using data_not_inner(2) [OF dist] bb(2) by auto
    then show "?s ! x = s ! x" by simp
  qed
  note fr = ino_frame [OF this]
  have sub: "set (ino_data ino s) \<subseteq> {..<length s}" using ok set_ino_data_subset [of ino s] by (auto simp: ino_ok_def)
  have "ino_bytes ino ?s = splice (512 * (start div 512) + start mod 512) X (ino_bytes ino s)"
    unfolding ino_bytes_def fr unfolding b
    by (rule concat_update [OF _ data_not_inner(1) [OF dist] _ X])
      (use bb(1) length_ino_data [OF ok] sub ok in \<open>auto simp: ino_ok_def\<close>)
  moreover have "512 * (start div 512) + start mod 512 = start" by simp
  moreover have "disk_ok ?s" using ok X bb(4) by (simp add: ino_ok_def)
  moreover have "?s ! x = s ! x" if "x \<notin> set (ino_data ino s)" for x using that bb(2) by (metis nth_list_update_neq)
  ultimately show ?thesis using ok by (simp add: ino_written_def ino_ok_def fr)
qed

lemma written_append:
  assumes "ino_written held ino start X s s1" "ino_written held ino (start + length X) Y s1 s2"
    and "start + length X + length Y \<le> length (ino_bytes ino s)"
  shows "ino_written held ino start (X @ Y) s s2"
  using assms by (simp add: ino_written_def splice_splice)

lemma write_loop_ok:
  "ino_ok held ino s \<Longrightarrow> start < stop \<Longrightarrow> stop \<le> di_size ino \<Longrightarrow> ws + (stop - start) \<le> length buf \<Longrightarrow>
   \<exists>s'. di_write_loop held ino start (start div 512) stop ws buf s = Some (ws + (stop - start), s') \<and>
        ino_written held ino start (take (stop - start) (drop ws buf)) s s'"
proof (induction "stop - start" arbitrary: start ws s rule: less_induct)
  case less
  note ok = less.prems(1)
  define ecb where "ecb = min ((start div 512 + 1) * 512) stop"
  note ca = chunk_arith [OF ecb_def less.prems(2)]
  have st: "start < di_size ino" using less.prems by simp
  obtain b where b: "di_block_id held ino (as_u32 (start div 512)) s = Some b" "blk_read held b s = Some (s ! b)"
    and bd: "b = ino_data ino s ! (start div 512)" "b \<notin> set held" "b < length s"
    by (rule block_access [OF ok st])
  define k where "k = ecb - start"
  define X where "X = take k (drop ws buf)"
  define s1 where "s1 = s[b := splice (start mod 512) X (s ! b)]"
  have ar: "rs + k + (stop - ecb) = rs + (stop - start)" "ws + k \<le> length buf" "start mod 512 + k \<le> 512" for rs
    using ca less.prems(2,4) by (simp_all add: k_def)
  have lX: "length X = k" using ar(2) by (simp add: X_def)
  have w1: "ino_written held ino start X s s1"
    unfolding s1_def by (rule block_written [OF ok st _ bd(1)]) (use ar(3) lX in simp)
  have step: "di_write_loop held ino start (start div 512) stop ws buf s =
      (if ecb = stop then Some (ws + k, s1)
       else di_write_loop held ino ecb (start div 512 + 1) stop (ws + k) buf s1)"
    unfolding di_write_loop.simps [of held ino start] fs_consts Let_def ecb_def [symmetric] k_def [symmetric] X_def [symmetric]
    using b bd(2,3) ar by (simp add: s1_def)
  show ?case
  proof (cases "ecb = stop")
    case True
    then show ?thesis using step w1 by (simp add: X_def k_def)
  next
    case False
    have lt: "stop - ecb < stop - start" "ecb < stop" using ca(1,2) False by simp_all
    have "ino_ok held ino s1" using w1 by (simp add: ino_written_def)
    moreover have "ws + k + (stop - ecb) \<le> length buf" unfolding ar(1) by (rule less.prems(4))
    ultimately obtain s2 where s2: "di_write_loop held ino ecb (ecb div 512) stop (ws + k) buf s1 = Some (ws + k + (stop - ecb), s2)"
      "ino_written held ino ecb (take (stop - ecb) (drop (ws + k) buf)) s1 s2"
      using less.hyps [OF lt(1) _ lt(2) less.prems(3)] by blast
    have "ecb = start + length X" using ca(1) lX by (simp add: k_def)
    moreover have "start + length X + length (take (stop - ecb) (drop (ws + k) buf)) \<le> length (ino_bytes ino s)"
      using calculation lt(2) length_ino_bytes [OF ok] less.prems(3) by simp
    ultimately have "ino_written held ino start (X @ take (stop - ecb) (drop (ws + k) buf)) s s2"
      using written_append [OF w1] s2(2) by simp
    moreover have "X @ take (stop - ecb) (drop (ws + k) buf) = take (stop - start) (drop ws buf)"
      using ar(1) [of 0] take_add [of k "stop - ecb" "drop ws buf"] by (simp add: X_def add.commute)
    ultimately show ?thesis using step s2(1) False ca(4) ar(1) [of ws] by simp
  qed
qed

lemma read_at_ok:
  assumes ok: "ino_ok held ino s" and off: "offset + length buf < 2 ^ 64"
  shows "di_read_at held ino offset buf s = Some (length (take (length buf) (drop offset (content ino s))),
    splice 0 (take (length buf) (drop offset (content ino s))) buf)"
proof -
  define stop where "stop = min (offset + length buf) (di_size ino)"
  have st: "min (take_bit 64 (offset + length buf)) (di_size ino) = stop"
    using off by (simp add: stop_def take_bit_nat_eq_self)
  have lc: "length (content ino s) = di_size ino" using length_ino_bytes [OF ok] by (simp add: content_def)
  show ?thesis
  proof (cases "offset < stop")
    case True
    have "take (length buf) (drop offset (content ino s)) = take (stop - offset) (drop offset (ino_bytes ino s))"
      unfolding content_def drop_take take_take using True by (intro arg_cong2 [where f = take]) (auto simp: stop_def)
    moreover have "di_read_loop held ino offset (offset div 512) stop 0 buf s =
        Some (0 + (stop - offset), splice 0 (take (stop - offset) (drop offset (ino_bytes ino s))) buf)"
      by (rule read_loop_ok [OF ok True]) (auto simp: stop_def)
    moreover have "length (take (stop - offset) (drop offset (ino_bytes ino s))) = stop - offset"
      using length_ino_bytes [OF ok] by (simp add: stop_def)
    ultimately show ?thesis using True by (simp add: di_read_at_def Let_def st)
  next
    case False
    then have e: "take (length buf) (drop offset (content ino s)) = []" using lc by (auto simp: stop_def)
    show ?thesis unfolding e using False by (simp add: di_read_at_def Let_def st)
  qed
qed

lemma write_at_ok:
  assumes ok: "ino_ok held ino s" and off: "offset + length buf \<le> di_size ino" and buf: "buf \<noteq> []"
  obtains s' where "di_write_at held ino offset buf s = Some (length buf, s')" "ino_written held ino offset buf s s'"
proof -
  have sz: "di_size ino < 2 ^ 32" using ok by (simp add: ino_ok_def di_ok_def di_words_def)
  have st: "min (take_bit 64 (offset + length buf)) (di_size ino) = offset + length buf"
    using off sz by (simp add: take_bit_nat_eq_self)
  have "offset < offset + length buf" using buf by simp
  from write_loop_ok [OF ok this off, of 0 buf] obtain s' where
    "di_write_loop held ino offset (offset div 512) (offset + length buf) 0 buf s = Some (length buf, s')"
    "ino_written held ino offset buf s s'" by auto
  then show ?thesis using that by (simp add: di_write_at_def Let_def st)
qed

lemma written_content:
  assumes "ino_written held ino offset buf s s'" "ino_ok held ino s" "offset + length buf \<le> di_size ino"
  shows "content ino s' = splice offset buf (content ino s)"
proof -
  have "splice offset buf (take n xs) = take n (splice offset buf xs)" if "offset + length buf \<le> n" "n \<le> length xs"
    for n and xs :: "u8 list"
  proof -
    have "min offset n = offset" "n - offset - length buf = n - (offset + length buf)" using that(1) by simp_all
    then show ?thesis using that by (simp add: splice_def drop_take)
  qed
  then show ?thesis
    using assms length_ino_bytes [of held ino s] by (simp add: content_def ino_written_def)
qed

section \<open>Properties\<close>

text \<open>\<open>read_at\<close> does not panic and fills the front of the buffer with the bytes of the content from
  the offset on, as many as the buffer holds and the content has, and returns their number.\<close>

theorem read_at_correct:
  assumes "ino_ok held ino s" "offset + length buf < 2 ^ 64"
  shows "di_read_at held ino offset buf s =
    (let bytes = take (length buf) (drop offset (content ino s))
     in Some (length bytes, bytes @ drop (length bytes) buf))"
  using read_at_ok [OF assms] by (simp add: Let_def splice_def)

text \<open>\<open>write_at\<close> within the size of the inode does not panic, replaces exactly the written range
  of the content, and changes no block but data blocks of this inode.\<close>

theorem write_at_correct:
  assumes "ino_ok held ino s" "offset + length buf \<le> di_size ino" "buf \<noteq> []"
  shows "\<exists>s'. di_write_at held ino offset buf s = Some (length buf, s') \<and> ino_ok held ino s' \<and>
    content ino s' = take offset (content ino s) @ buf @ drop (offset + length buf) (content ino s) \<and>
    (\<forall>x. x \<notin> set (ino_data ino s) \<longrightarrow> s' ! x = s ! x)"
proof -
  obtain s' where s': "di_write_at held ino offset buf s = Some (length buf, s')" "ino_written held ino offset buf s s'"
    by (rule write_at_ok [OF assms])
  then show ?thesis using written_content [OF s'(2) assms(1,2)] by (simp add: ino_written_def splice_def)
qed

definition tiny_inode :: disk_inode where
  "tiny_inode = \<lparr>di_kind = File, di_size = 3, di_direct = 1 # replicate 26 0, di_indirect1 = 0, di_indirect2 = 0, di_indirect3 = 0\<rparr>"

definition tiny_disk :: disk where
  "tiny_disk = [replicate 512 0, [10, 20, 30] @ replicate 509 0]"

lemma tiny_inode_ok: "ino_ok [0] tiny_inode tiny_disk" "content tiny_inode tiny_disk = [10, 20, 30]" "di_size tiny_inode = 3"
proof -
  have b: "di_blocks tiny_inode = 1" by (simp add: di_blocks_def tiny_inode_def count_data_block_def div_ceil_def)
  have n: "ino_nodes tiny_inode tiny_disk = [1]" "ino_data tiny_inode tiny_disk = [1]"
    unfolding ino_nodes_def ino_data_def b by (simp_all add: tiny_inode_def di_levels_def)
  show "ino_ok [0] tiny_inode tiny_disk"
    unfolding ino_ok_def n b by (simp add: di_ok_def tiny_inode_def di_words_def tiny_disk_def disk_ok_def)
  show "content tiny_inode tiny_disk = [10, 20, 30]"
    unfolding content_def ino_bytes_def n by (simp add: tiny_inode_def tiny_disk_def)
qed (simp add: tiny_inode_def)

theorem read_at_witness: "di_read_at [0] tiny_inode 1 [7, 7, 7, 7] tiny_disk = Some (2, [20, 30, 7, 7])"
  using read_at_correct [OF tiny_inode_ok(1), of 1 "[7, 7, 7, 7]"] by (simp add: tiny_inode_ok(2))

theorem write_at_witness:
  "\<exists>s'. di_write_at [0] tiny_inode 1 [9] tiny_disk = Some (1, s') \<and> content tiny_inode s' = [10, 9, 30]"
  using write_at_correct [OF tiny_inode_ok(1), of 1 "[9]"] by (auto simp: tiny_inode_ok(2,3))

end
