(* ===== verification/Bitmap.thy ===== *)
theory Bitmap
  imports Store
begin

unbundle bit_operations_syntax

text \<open>
  The bitmaps that record which inodes and data blocks are in use:
  \<open>easy-fs/src/bitmap.rs\<close>. A bitmap is a run of blocks, each read as 64 words of 64 bits.
  \<open>bm_bit\<close> is the bit of a number; \<open>alloc\<close> sets the first clear bit, \<open>dealloc\<close> clears a set bit.
\<close>

section \<open>Operations\<close>

record bitmap =
  bm_start :: nat
  bm_blocks :: nat

definition bm_new :: "nat \<Rightarrow> nat \<Rightarrow> bitmap" where
  "bm_new start_block_id blocks = \<lparr>bm_start = start_block_id, bm_blocks = blocks\<rparr>"

definition bm_maximum :: "bitmap \<Rightarrow> nat" where
  "bm_maximum bm = bm_blocks bm * BLOCK_BITS"

definition decomposition :: "nat \<Rightarrow> nat \<times> nat \<times> nat" where
  "decomposition b = (let bit_in_block = b mod BLOCK_BITS
     in (b div BLOCK_BITS, bit_in_block div 64, bit_in_block mod 64))"

text \<open>\<open>u64::trailing_ones\<close>.\<close>

function trailing_ones :: "nat \<Rightarrow> nat" where
  "trailing_ones w = (if odd w then Suc (trailing_ones (w div 2)) else 0)"
  by pat_completeness auto
termination
  by (relation "measure id") (auto elim!: oddE)

declare trailing_ones.simps [simp del]

text \<open>The closure of \<open>alloc\<close> on the words of one block: the word, the bit and the new words.\<close>

definition alloc_in_words :: "nat list \<Rightarrow> (nat \<times> nat \<times> nat list) option" where
  "alloc_in_words ws = (case position (\<lambda>w. w \<noteq> 2 ^ 64 - 1) ws of
      None \<Rightarrow> None
    | Some j \<Rightarrow> (let i = trailing_ones (ws ! j) in Some (j, i, ws[j := ws ! j OR take_bit 64 (push_bit i 1)])))"

fun bm_alloc_loop :: "nat list \<Rightarrow> bitmap \<Rightarrow> nat list \<Rightarrow> disk \<Rightarrow> (nat option \<times> disk) option" where
  "bm_alloc_loop held bm [] s = Some (None, s)"
| "bm_alloc_loop held bm (k # ks) s = do {
     bs \<leftarrow> blk_read held (bm_start bm + k) s;
     case alloc_in_words (bitmap_block bs) of
       Some (j, i, ws) \<Rightarrow> do {
         s' \<leftarrow> blk_write held (bm_start bm + k) (bytes_of 8 ws) s;
         Some (Some (k * BLOCK_BITS + j * 64 + i), s')
       }
     | None \<Rightarrow> bm_alloc_loop held bm ks s
   }"

definition bm_alloc :: "nat list \<Rightarrow> bitmap \<Rightarrow> disk \<Rightarrow> (nat option \<times> disk) option" where
  "bm_alloc held bm s = bm_alloc_loop held bm [0..<bm_blocks bm] s"

definition bm_dealloc :: "nat list \<Rightarrow> bitmap \<Rightarrow> nat \<Rightarrow> disk \<Rightarrow> disk option" where
  "bm_dealloc held bm b s = (case decomposition b of (k, j, i) \<Rightarrow> do {
     bs \<leftarrow> blk_read held (bm_start bm + k) s;
     let ws = bitmap_block bs;
     w \<leftarrow> nth_opt ws j;
     assert_opt (w AND take_bit 64 (push_bit i 1) > 0);
     blk_write held (bm_start bm + k) (bytes_of 8 (ws[j := w AND (2 ^ 64 - 1 - take_bit 64 (push_bit i 1))])) s
   })"

section \<open>Bits of words\<close>

lemma trailing_ones_spec: "(\<forall>n<trailing_ones w. bit w n) \<and> \<not> bit w (trailing_ones w)"
proof (induction w rule: trailing_ones.induct)
  case (1 w)
  show ?case
  proof (cases "odd w")
    case True
    with 1 show ?thesis by (auto simp: trailing_ones.simps [of w] bit_Suc bit_0 less_Suc_eq_0_disj)
  next
    case False
    then show ?thesis by (simp add: trailing_ones.simps [of w] bit_0)
  qed
qed

lemmas trailing_ones_bits = trailing_ones_spec [THEN conjunct1, rule_format] trailing_ones_spec [THEN conjunct2]

lemma full_word: "w < 2 ^ 64 \<Longrightarrow> w = 2 ^ 64 - 1 \<longleftrightarrow> (\<forall>n<64. bit w n)" for w :: nat
proof -
  assume w: "w < 2 ^ 64"
  then have "take_bit 64 w = w" by (simp add: take_bit_nat_eq_self_iff)
  then have "w = mask 64 \<longleftrightarrow> (\<forall>n. bit (take_bit 64 w) n = bit (mask 64 :: nat) n)"
    by (simp add: bit_eq_iff)
  also have "\<dots> \<longleftrightarrow> (\<forall>n<64. bit w n)" by (auto simp: bit_take_bit_iff bit_mask_iff)
  finally show ?thesis by (simp add: mask_eq_exp_minus_1)
qed

lemma trailing_ones_bound:
  assumes "w < 2 ^ 64" "w \<noteq> 2 ^ 64 - 1"
  shows "trailing_ones w < 64"
proof (rule ccontr)
  assume "\<not> trailing_ones w < 64"
  then have "\<forall>n<64. bit w n" using trailing_ones_bits(1) by (meson less_le_trans not_less)
  with full_word [OF assms(1)] assms(2) show False by simp
qed

lemma bit_set: "i < 64 \<Longrightarrow> bit (w OR take_bit 64 (push_bit i 1)) n \<longleftrightarrow> n = i \<or> bit w n" for w :: nat
  by (auto simp: bit_simps)

lemma one_bit: "i < 64 \<Longrightarrow> take_bit 64 (push_bit i 1) = (2 :: nat) ^ i"
  by (simp add: push_bit_eq_mult take_bit_nat_eq_self_iff)

lemma or_and_bound:
  fixes w x :: nat
  assumes "w < 2 ^ 64"
  shows "w OR take_bit 64 x < 2 ^ 64" "w AND x < 2 ^ 64"
proof -
  have t: "take_bit 64 w = w" using assms by (simp only: take_bit_nat_eq_self_iff)
  have "take_bit 64 (w OR take_bit 64 x) = w OR take_bit 64 x" by (simp only: take_bit_or t take_bit_take_bit min.idem)
  then show "w OR take_bit 64 x < 2 ^ 64" by (simp only: take_bit_nat_eq_self_iff)
  have "take_bit 64 (w AND x) = w AND take_bit 64 x" by (simp only: take_bit_and t)
  also have "\<dots> = w AND x" by (intro bit_eqI) (metis bit_and_iff bit_take_bit_iff t)
  finally show "w AND x < 2 ^ 64" by (simp only: take_bit_nat_eq_self_iff)
qed

lemma bit_clear:
  fixes w :: nat
  assumes "w < 2 ^ 64" "i < 64"
  shows "bit (w AND (2 ^ 64 - 1 - take_bit 64 (push_bit i 1))) n \<longleftrightarrow> n \<noteq> i \<and> bit w n"
proof -
  let ?x = "mask 64 XOR 2 ^ i :: nat"
  have b: "bit ?x k \<longleftrightarrow> k < 64 \<and> k \<noteq> i" for k
    using assms(2) by (auto simp: bit_xor_iff bit_mask_iff bit_exp_iff)
  have "?x + 2 ^ i = ?x OR 2 ^ i"
    by (rule disjunctive_add) (auto simp: b bit_exp_iff)
  also have "\<dots> = mask 64"
    using assms(2) by (intro bit_eqI) (auto simp: bit_or_iff b bit_mask_iff bit_exp_iff)
  finally have "2 ^ 64 - 1 - take_bit 64 (push_bit i 1) = ?x"
    using assms(2) by (simp only: one_bit mask_eq_exp_minus_1)
  moreover have "bit w n \<Longrightarrow> n < 64"
    using assms(1) by (metis bit_take_bit_iff take_bit_nat_eq_self_iff)
  ultimately show ?thesis using b by (auto simp: bit_and_iff)
qed

lemma and_bit_pos: "i < 64 \<Longrightarrow> 0 < w AND take_bit 64 (push_bit i 1) \<longleftrightarrow> bit w i" for w :: nat
proof -
  assume "i < 64"
  then have "take_bit 64 (push_bit i 1) = push_bit i (1 :: nat)" by (simp add: one_bit push_bit_eq_mult)
  then show ?thesis by (simp only: bit_iff_and_push_bit_not_eq_0 neq0_conv)
qed

section \<open>The bits of a bitmap\<close>

definition bm_bit :: "bitmap \<Rightarrow> disk \<Rightarrow> nat \<Rightarrow> bool" where
  "bm_bit bm s b = bit (bitmap_block (s ! (bm_start bm + b div 4096)) ! (b mod 4096 div 64)) (b mod 64)"

definition bm_ok :: "nat list \<Rightarrow> bitmap \<Rightarrow> disk \<Rightarrow> bool" where
  "bm_ok held bm s \<longleftrightarrow> disk_ok s \<and> bm_start bm + bm_blocks bm \<le> length s \<and>
     (\<forall>k<bm_blocks bm. bm_start bm + k \<notin> set held)"

lemma decomposition_eq: "decomposition b = (b div 4096, b mod 4096 div 64, b mod 64)"
  by (simp add: decomposition_def Let_def mod_mod_cancel)

lemma compose_bit:
  fixes i j k :: nat
  assumes "j < 64" "i < 64"
  shows "(k * 4096 + j * 64 + i) div 4096 = k" "(k * 4096 + j * 64 + i) mod 4096 div 64 = j"
    "(k * 4096 + j * 64 + i) mod 64 = i"
proof -
  have b: "j * 64 + i < 4096" using assms by simp
  show "(k * 4096 + j * 64 + i) div 4096 = k" using b by (simp add: add.assoc)
  have "(k * 4096 + j * 64 + i) mod 4096 = j * 64 + i" using b by (simp add: add.assoc)
  then show "(k * 4096 + j * 64 + i) mod 4096 div 64 = j" using assms(2) by simp
  have "(k * 4096 + j * 64 + i) = i + (k * 64 + j) * 64" by simp
  then show "(k * 4096 + j * 64 + i) mod 64 = i" using assms(2) by (simp only: mod_mult_self1) simp
qed

lemma words_bound: "w \<in> set (bitmap_block bs) \<Longrightarrow> w < 2 ^ 64"
  using words_of_bound [of w 8 64 bs] by simp

lemma words_of_update:
  assumes "w < 2 ^ 64"
  shows "bitmap_block (bytes_of 8 ((bitmap_block bs)[j := w])) = (bitmap_block bs)[j := w]"
proof (rule words_of_bytes_of)
  show "\<forall>x\<in>set ((bitmap_block bs)[j := w]). x < 256 ^ 8"
    using words_bound [of _ bs] assms by (auto dest!: set_update_subset_insert [THEN subsetD])
qed simp

text \<open>Replacing one word of the bitmap changes the bits of this word only.\<close>

lemma bm_bit_update:
  assumes "k < bm_blocks bm" "bm_ok held bm s" "w < 2 ^ 64" "j < 64"
    and s': "s' = s[bm_start bm + k := bytes_of 8 ((bitmap_block (s ! (bm_start bm + k)))[j := w])]"
  shows "bm_ok held bm s'"
    and "bm_bit bm s' b = (if b div 4096 = k \<and> b mod 4096 div 64 = j then bit w (b mod 64) else bm_bit bm s b)"
    and "p \<noteq> bm_start bm + k \<Longrightarrow> s' ! p = s ! p"
proof -
  have len: "bm_start bm + k < length s" using assms(1,2) by (auto simp: bm_ok_def)
  then show "bm_ok held bm s'" using assms(2) by (simp add: bm_ok_def s')
  show "bm_bit bm s' b = (if b div 4096 = k \<and> b mod 4096 div 64 = j then bit w (b mod 64) else bm_bit bm s b)"
    using len assms(3,4) by (auto simp: bm_bit_def s' words_of_update nth_list_update)
  show "p \<noteq> bm_start bm + k \<Longrightarrow> s' ! p = s ! p" by (simp add: s')
qed

lemma alloc_in_words_spec:
  assumes "ws = bitmap_block bs"
  shows "alloc_in_words ws = None \<longleftrightarrow> (\<forall>j<64. \<forall>i<64. bit (ws ! j) i)"
    and "alloc_in_words ws = Some (j, i, ws') \<Longrightarrow> j < 64 \<and> i < 64 \<and> \<not> bit (ws ! j) i \<and>
      ws' = ws[j := ws ! j OR take_bit 64 (push_bit i 1)] \<and>
      (\<forall>j'<64. \<forall>i'<64. j' < j \<or> j' = j \<and> i' < i \<longrightarrow> bit (ws ! j') i')"
proof -
  have l: "length ws = 64" by (simp add: assms)
  have w: "ws ! j < 2 ^ 64" if "j < 64" for j using words_bound [of "ws ! j" bs] that assms l by simp
  show "alloc_in_words ws = None \<longleftrightarrow> (\<forall>j<64. \<forall>i<64. bit (ws ! j) i)"
  proof -
    have "alloc_in_words ws = None \<longleftrightarrow> position (\<lambda>w. w \<noteq> 2 ^ 64 - 1) ws = None"
      by (cases "position (\<lambda>w. w \<noteq> 2 ^ 64 - 1) ws") (simp_all add: alloc_in_words_def Let_def del: position_None)
    also have "\<dots> \<longleftrightarrow> (\<forall>j<64. ws ! j = 2 ^ 64 - 1)" using l by (simp add: all_set_conv_all_nth)
    finally show ?thesis using full_word [OF w] by auto
  qed
  assume "alloc_in_words ws = Some (j, i, ws')"
  then have p: "j < 64" "ws ! j \<noteq> 2 ^ 64 - 1" "\<forall>j'<j. ws ! j' = 2 ^ 64 - 1" and i: "i = trailing_ones (ws ! j)"
    and ws': "ws' = ws[j := ws ! j OR take_bit 64 (push_bit i 1)]"
    using l by (auto simp: alloc_in_words_def position_Some Let_def split: option.splits)
  have "i < 64" using trailing_ones_bound [OF w p(2)] p(1) i by simp
  moreover have "bit (ws ! j') i'" if "j' < 64" "i' < 64" "j' < j \<or> j' = j \<and> i' < i" for j' i'
    using that(3)
  proof
    assume "j' < j"
    then have "ws ! j' = 2 ^ 64 - 1" using p(3) by blast
    then show ?thesis using full_word [OF w [OF that(1)]] that(2) by simp
  next
    assume "j' = j \<and> i' < i"
    then show ?thesis using trailing_ones_bits(1) i by simp
  qed
  ultimately show "j < 64 \<and> i < 64 \<and> \<not> bit (ws ! j) i \<and> ws' = ws[j := ws ! j OR take_bit 64 (push_bit i 1)] \<and>
      (\<forall>j'<64. \<forall>i'<64. j' < j \<or> j' = j \<and> i' < i \<longrightarrow> bit (ws ! j') i')"
    using p(1) trailing_ones_bits(2) i ws' by blast
qed


lemma bit_number:
  fixes c k j :: nat
  assumes "c div 4096 = k" "c mod 4096 div 64 = j"
  shows "c = k * 4096 + j * 64 + c mod 64"
proof -
  have "c = c div 4096 * 4096 + c mod 4096" by simp
  also have "c mod 4096 = c mod 4096 div 64 * 64 + c mod 64"
    using div_mult_mod_eq [of "c mod 4096" 64] by (simp add: mod_mod_cancel)
  finally show ?thesis using assms by (simp only: add.assoc)
qed

lemma bit_position_less:
  fixes b k j i :: nat
  assumes "b < k * 4096 + j * 64 + i" "b div 4096 = k" "j < 64" "i < 64"
  shows "b mod 4096 div 64 < j \<or> b mod 4096 div 64 = j \<and> b mod 64 < i"
proof -
  have "b = b div 4096 * 4096 + b mod 4096" by simp
  then have "b mod 4096 < j * 64 + i" using assms(1,2) by linarith
  moreover have "b mod 4096 = b mod 4096 div 64 * 64 + b mod 64"
    using div_mult_mod_eq [of "b mod 4096" 64] by (simp add: mod_mod_cancel)
  ultimately show ?thesis
    using assms(4) by (cases "b mod 4096 div 64 < j") (auto simp: not_less dest: mult_le_mono1 [of j _ 64])
qed

text \<open>The answer of the search from block \<open>k0\<close> on.\<close>

definition alloc_result :: "bitmap \<Rightarrow> nat \<Rightarrow> disk \<Rightarrow> nat option \<Rightarrow> disk \<Rightarrow> bool" where
  "alloc_result bm k0 s r s' \<longleftrightarrow> (case r of
      None \<Rightarrow> s' = s \<and> (\<forall>b. k0 \<le> b div 4096 \<longrightarrow> b div 4096 < bm_blocks bm \<longrightarrow> bm_bit bm s b)
    | Some b \<Rightarrow> k0 \<le> b div 4096 \<and> b div 4096 < bm_blocks bm \<and> \<not> bm_bit bm s b \<and>
        (\<forall>c<b. k0 \<le> c div 4096 \<longrightarrow> bm_bit bm s c) \<and>
        (\<forall>c. bm_bit bm s' c \<longleftrightarrow> c = b \<or> bm_bit bm s c) \<and>
        (\<forall>p. p \<noteq> bm_start bm + b div 4096 \<longrightarrow> s' ! p = s ! p))"

lemma alloc_result_skip:
  assumes "alloc_result bm (Suc k0) s r s'" "\<And>c. c div 4096 = k0 \<Longrightarrow> bm_bit bm s c"
  shows "alloc_result bm k0 s r s'"
proof -
  have "bm_bit bm s c" if "k0 \<le> c div 4096" "Suc k0 \<le> c div 4096 \<longrightarrow> bm_bit bm s c" for c
    using that assms(2) [of c] by (cases "c div 4096 = k0") auto
  then show ?thesis using assms(1) unfolding alloc_result_def by (cases r) (simp_all, blast+)
qed

text \<open>The loop over the blocks: it stops at the first block with a clear bit.\<close>

lemma bm_alloc_loop_spec:
  "bm_ok held bm s \<Longrightarrow> ks = [k0..<bm_blocks bm] \<Longrightarrow>
   \<exists>r s'. bm_alloc_loop held bm ks s = Some (r, s') \<and> bm_ok held bm s' \<and> length s' = length s \<and>
     alloc_result bm k0 s r s'"
proof (induction ks arbitrary: k0)
  case Nil
  then have "bm_blocks bm \<le> k0" using upt_eq_Nil_conv [of k0 "bm_blocks bm"] by auto
  with Nil show ?case by (auto simp: alloc_result_def)
next
  case (Cons k ks)
  have k: "k = k0" "k0 < bm_blocks bm" "ks = [Suc k0..<bm_blocks bm]"
    using Cons.prems(2) [symmetric] by (auto simp: upt_eq_Cons_conv)
  have acc: "bm_start bm + k0 < length s" "bm_start bm + k0 \<notin> set held"
    using Cons.prems(1) k(2) by (auto simp: bm_ok_def)
  let ?ws = "bitmap_block (s ! (bm_start bm + k0))"
  have bit: "bm_bit bm s c = bit (?ws ! (c mod 4096 div 64)) (c mod 64)" if "c div 4096 = k0" for c
    using that by (simp add: bm_bit_def)
  have jb: "c mod 4096 div 64 < 64" for c :: nat by (simp add: less_mult_imp_div_less)
  note sp = alloc_in_words_spec [OF refl, of "s ! (bm_start bm + k0)"]
  show ?case
  proof (cases "alloc_in_words ?ws")
    case None
    then have full: "bm_bit bm s c" if "c div 4096 = k0" for c using bit [OF that] sp(1) jb by simp
    obtain r s' where ih: "bm_alloc_loop held bm ks s = Some (r, s')" "bm_ok held bm s'" "length s' = length s"
      "alloc_result bm (Suc k0) s r s'"
      using Cons.IH [OF Cons.prems(1), of "Suc k0"] k by auto
    have "bm_alloc_loop held bm (k # ks) s = Some (r, s')" using None acc k(1) ih(1) by simp
    with ih alloc_result_skip [OF ih(4) full] show ?thesis by blast
  next
    case (Some x)
    then obtain j i ws' where x: "alloc_in_words ?ws = Some (j, i, ws')" by (cases x) auto
    note a = sp(2) [OF x]
    note ji = a [THEN conjunct1] a [THEN conjunct2, THEN conjunct1]
    have clear: "\<not> bit (?ws ! j) i" and ws': "ws' = ?ws[j := ?ws ! j OR take_bit 64 (push_bit i 1)]"
      and low: "\<And>j' i'. j' < 64 \<Longrightarrow> i' < 64 \<Longrightarrow> j' < j \<or> j' = j \<and> i' < i \<Longrightarrow> bit (?ws ! j') i'"
      using a by blast+
    let ?b = "k0 * 4096 + j * 64 + i" and ?w = "?ws ! j OR take_bit 64 (push_bit i 1)"
    let ?s = "s[bm_start bm + k0 := bytes_of 8 (?ws[j := ?w])]"
    have cb: "?b div 4096 = k0" "?b mod 4096 div 64 = j" "?b mod 64 = i" by (rule compose_bit [OF ji])+
    have wb: "?w < 2 ^ 64" using words_bound [of "?ws ! j" "s ! (bm_start bm + k0)"] ji by (intro or_and_bound) simp
    have run: "bm_alloc_loop held bm (k # ks) s = Some (Some ?b, ?s)"
      using x acc k(1) ws' by (simp add: nth_opt_def)
    note u = bm_bit_update [OF k(2) Cons.prems(1) wb ji(1) refl]
    have "bm_bit bm ?s c \<longleftrightarrow> c = ?b \<or> bm_bit bm s c" for c
    proof (cases "c div 4096 = k0 \<and> c mod 4096 div 64 = j")
      case True
      then have "c = k0 * 4096 + j * 64 + c mod 64" by (intro bit_number) simp_all
      then have "c mod 64 = i \<longleftrightarrow> c = ?b" using cb(3) by metis
      then show ?thesis
        using True u(2) [of c] bit_set [OF ji(2), of "?ws ! j" "c mod 64"] bit [of c] by simp
    next
      case False
      then show ?thesis using u(2) cb by auto
    qed
    moreover have "bm_bit bm s c" if "c < ?b" "k0 \<le> c div 4096" for c
    proof -
      have "c div 4096 \<le> ?b div 4096" using that(1) by (intro div_le_mono) simp
      then have c: "c div 4096 = k0" using that(2) cb(1) by simp
      show ?thesis using low [OF jb _ bit_position_less [OF that(1) c ji]] bit [OF c] by simp
    qed
    moreover have "\<not> bm_bit bm s ?b" using bit [OF cb(1)] cb clear by simp
    ultimately have ar: "alloc_result bm k0 s (Some ?b) ?s"
      using u(3) k(2) cb(1) by (simp add: alloc_result_def)
    show ?thesis by (intro exI conjI) (rule run, rule u(1), simp, rule ar)
  qed
qed

lemma bm_alloc_spec:
  assumes "bm_ok held bm s"
  obtains r s' where "bm_alloc held bm s = Some (r, s')" "bm_ok held bm s'" "length s' = length s" "alloc_result bm 0 s r s'"
  using bm_alloc_loop_spec [OF assms, of "[0..<bm_blocks bm]" 0] by (auto simp: bm_alloc_def)

section \<open>Correctness of the bitmap\<close>

text \<open>\<open>Bitmap::alloc\<close> never panics on a bitmap inside the device: it answers \<open>None\<close>, changing
  nothing, exactly when every bit is set; otherwise it returns the lowest clear bit, sets it, and
  changes no other bit and no other block.\<close>

lemma bm_alloc_first_fit:
  assumes "bm_ok held bm s"
  shows "\<exists>r s'. bm_alloc held bm s = Some (r, s') \<and> bm_ok held bm s' \<and>
     (case r of
        None \<Rightarrow> s' = s \<and> (\<forall>b<bm_maximum bm. bm_bit bm s b)
      | Some b \<Rightarrow> b < bm_maximum bm \<and> \<not> bm_bit bm s b \<and> (\<forall>c<b. bm_bit bm s c) \<and>
          (\<forall>c. bm_bit bm s' c \<longleftrightarrow> c = b \<or> bm_bit bm s c) \<and>
          (\<forall>p. p < bm_start bm \<or> bm_start bm + bm_blocks bm \<le> p \<longrightarrow> s' ! p = s ! p))"
proof -
  have m: "b div 4096 < n \<longleftrightarrow> b < n * 4096" for b n :: nat by (simp add: div_less_iff_less_mult)
  obtain r s' where "bm_alloc held bm s = Some (r, s')" "bm_ok held bm s'" "length s' = length s" "alloc_result bm 0 s r s'"
    by (rule bm_alloc_spec [OF assms])
  then show ?thesis by (cases r) (auto simp: bm_maximum_def m alloc_result_def)
qed

lemma zero_bitmap:
  "bm_ok [] (bm_new 0 1) [replicate 512 0]" "\<not> bm_bit (bm_new 0 1) [replicate 512 0] 0"
proof -
  have "8 * 64 = (512 :: nat)" by simp
  then have "bitmap_block (replicate 512 0) = replicate 64 0" using words_of_zeros [of 8 64] by (simp only:)
  then show "\<not> bm_bit (bm_new 0 1) [replicate 512 0] 0" by (simp add: bm_bit_def bm_new_def)
qed (simp add: bm_ok_def disk_ok_def bm_new_def)

lemma bm_alloc_first_fit_witness:
  "\<exists>s'. bm_alloc [] (bm_new 0 1) [replicate 512 0] = Some (Some 0, s') \<and> bm_bit (bm_new 0 1) s' 0"
proof -
  obtain r s' where "bm_alloc [] (bm_new 0 1) [replicate 512 0] = Some (r, s')"
    and r: "case r of
        None \<Rightarrow> s' = [replicate 512 0] \<and> (\<forall>b<bm_maximum (bm_new 0 1). bm_bit (bm_new 0 1) [replicate 512 0] b)
      | Some b \<Rightarrow> (\<forall>c<b. bm_bit (bm_new 0 1) [replicate 512 0] c) \<and>
          (\<forall>c. bm_bit (bm_new 0 1) s' c \<longleftrightarrow> c = b \<or> bm_bit (bm_new 0 1) [replicate 512 0] c)"
    using bm_alloc_first_fit [OF zero_bitmap(1)] by (auto split: option.splits)
  moreover have "r = Some 0"
    using r zero_bitmap(2) by (cases r) (auto simp: bm_maximum_def bm_new_def)
  ultimately show ?thesis by auto
qed

lemma bm_dealloc_spec:
  assumes "bm_ok held bm s" "b < bm_maximum bm"
  shows "if bm_bit bm s b
    then \<exists>s'. bm_dealloc held bm b s = Some s' \<and> bm_ok held bm s' \<and> length s' = length s \<and>
      (\<forall>c. bm_bit bm s' c \<longleftrightarrow> c \<noteq> b \<and> bm_bit bm s c) \<and>
      (\<forall>p. p < bm_start bm \<or> bm_start bm + bm_blocks bm \<le> p \<longrightarrow> s' ! p = s ! p)
    else bm_dealloc held bm b s = None"
proof -
  let ?k = "b div 4096" and ?j = "b mod 4096 div 64" and ?i = "b mod 64"
  let ?ws = "bitmap_block (s ! (bm_start bm + ?k))"
  have k: "?k < bm_blocks bm" using assms(2) by (simp add: bm_maximum_def div_less_iff_less_mult)
  have acc: "bm_start bm + ?k < length s" "bm_start bm + ?k \<notin> set held" using assms(1) k by (auto simp: bm_ok_def)
  have j: "?j < 64" by (simp add: less_mult_imp_div_less)
  have w: "?ws ! ?j < 2 ^ 64" using words_bound [of "?ws ! ?j" "s ! (bm_start bm + ?k)"] j by simp
  let ?w = "?ws ! ?j AND (2 ^ 64 - 1 - take_bit 64 (push_bit ?i 1))"
  let ?s = "s[bm_start bm + ?k := bytes_of 8 (?ws[?j := ?w])]"
  have run: "bm_dealloc held bm b s = (if bm_bit bm s b then Some ?s else None)"
    using acc j and_bit_pos [of ?i "?ws ! ?j"]
    by (simp add: bm_dealloc_def decomposition_eq Let_def bm_bit_def)
  have wb: "?w < 2 ^ 64" by (rule or_and_bound(2) [OF w])
  note u = bm_bit_update [OF k assms(1) wb j refl]
  have "bm_bit bm ?s c \<longleftrightarrow> c \<noteq> b \<and> bm_bit bm s c" for c
  proof (cases "c div 4096 = ?k \<and> c mod 4096 div 64 = ?j")
    case True
    then have "c = ?k * 4096 + ?j * 64 + c mod 64" "b = ?k * 4096 + ?j * 64 + ?i" by (auto intro!: bit_number)
    then have "c mod 64 = ?i \<longleftrightarrow> c = b" by metis
    then show ?thesis using True u(2) [of c] bit_clear [OF w, of ?i "c mod 64"] by (simp add: bm_bit_def)
  next
    case False
    then show ?thesis using u(2) by auto
  qed
  then show ?thesis using run u(1,3) k by auto
qed

text \<open>\<open>Bitmap::dealloc\<close> of a set bit clears it and changes no other bit and no other block; of
  a clear bit it panics.\<close>

lemma bm_dealloc_clears:
  assumes "bm_ok held bm s" "b < bm_maximum bm"
  shows "case bm_dealloc held bm b s of
      None \<Rightarrow> \<not> bm_bit bm s b
    | Some s' \<Rightarrow> bm_bit bm s b \<and> bm_ok held bm s' \<and> (\<forall>c. bm_bit bm s' c \<longleftrightarrow> c \<noteq> b \<and> bm_bit bm s c) \<and>
        (\<forall>p. p < bm_start bm \<or> bm_start bm + bm_blocks bm \<le> p \<longrightarrow> s' ! p = s ! p)"
  using bm_dealloc_spec [OF assms] by (cases "bm_bit bm s b") auto

lemma bm_dealloc_clears_witness:
  "bm_dealloc [] (bm_new 0 1) 0 [replicate 512 0] = None \<and> \<not> bm_bit (bm_new 0 1) [replicate 512 0] 0"
  using bm_dealloc_clears [OF zero_bitmap(1), of 0] zero_bitmap(2)
  by (cases "bm_dealloc [] (bm_new 0 1) 0 [replicate 512 0]") (simp_all add: bm_maximum_def bm_new_def)

end
