(* ===== verification/Efs.thy ===== *)
theory Efs
  imports InodeIO Bitmap
begin

text \<open>
  The file system as a whole: \<open>EasyFileSystem\<close> of \<open>easy-fs/src/efs.rs\<close>. The device is the disk the
  operations pass on; the record holds the two bitmaps and the starts of the two areas. \<open>u32\<close>
  arithmetic wraps. A disk is laid out as super block, inode bitmap, inode area, data bitmap and
  data area, in this order.
\<close>

section \<open>Operations\<close>

record efs =
  fs_inode_bitmap :: bitmap
  fs_data_bitmap :: bitmap
  fs_inode_area_start :: nat
  fs_data_area_start :: nat

definition u32_sub :: "nat \<Rightarrow> nat \<Rightarrow> nat" where
  "u32_sub a b = as_u32 (a + 2 ^ 32 - b)"

definition disk_inode_position :: "efs \<Rightarrow> nat \<Rightarrow> nat \<times> nat" where
  "disk_inode_position fs inode_id = (
     let inodes_per_block = BLOCK_SIZE div DISK_INODE_SIZE in
     (as_u32 (fs_inode_area_start fs + inode_id div inodes_per_block),
      inode_id mod inodes_per_block * DISK_INODE_SIZE))"

definition disk_inode_id :: "efs \<Rightarrow> nat \<Rightarrow> nat \<Rightarrow> nat" where
  "disk_inode_id fs block_id block_offset = (
     let inodes_per_block = BLOCK_SIZE div DISK_INODE_SIZE;
         block_relative = u32_sub block_id (fs_inode_area_start fs)
     in as_u32 (as_u32 (block_relative * inodes_per_block) + as_u32 (block_offset div DISK_INODE_SIZE)))"

definition alloc_inode :: "nat list \<Rightarrow> efs \<Rightarrow> disk \<Rightarrow> (nat \<times> disk) option" where
  "alloc_inode held fs s = do {
     (r, s') \<leftarrow> bm_alloc held (fs_inode_bitmap fs) s;
     i \<leftarrow> r;
     Some (as_u32 i, s')
   }"

definition dealloc_inode :: "nat list \<Rightarrow> efs \<Rightarrow> nat \<Rightarrow> disk \<Rightarrow> disk option" where
  "dealloc_inode held fs inode_id s = bm_dealloc held (fs_inode_bitmap fs) inode_id s"

definition alloc_data :: "nat list \<Rightarrow> efs \<Rightarrow> disk \<Rightarrow> (nat \<times> disk) option" where
  "alloc_data held fs s = do {
     (r, s') \<leftarrow> bm_alloc held (fs_data_bitmap fs) s;
     i \<leftarrow> r;
     Some (as_u32 (as_u32 i + fs_data_area_start fs), s')
   }"

definition dealloc_data :: "nat list \<Rightarrow> efs \<Rightarrow> nat \<Rightarrow> disk \<Rightarrow> disk option" where
  "dealloc_data held fs block_id s = do {
     s1 \<leftarrow> blk_write held block_id (replicate BLOCK_SIZE 0) s;
     bm_dealloc held (fs_data_bitmap fs) (u32_sub block_id (fs_data_area_start fs)) s1
   }"

definition clear_blocks :: "nat \<Rightarrow> disk \<Rightarrow> disk option" where
  "clear_blocks total_blocks s = fold_opt (\<lambda>b. blk_write [] b (replicate BLOCK_SIZE 0)) [0..<total_blocks] s"

definition efs_create :: "nat \<Rightarrow> nat \<Rightarrow> disk \<Rightarrow> (efs \<times> disk) option" where
  "efs_create total_blocks inode_bitmap_blocks s = (
     let inode_bitmap = bm_new 1 inode_bitmap_blocks;
         inode_num = bm_maximum inode_bitmap;
         inode_area_blocks = as_u32 (div_ceil (inode_num * DISK_INODE_SIZE) BLOCK_SIZE);
         inode_total_blocks = as_u32 (inode_bitmap_blocks + inode_area_blocks);
         data_total_blocks = u32_sub (u32_sub total_blocks 1) inode_total_blocks;
         data_bitmap_blocks = as_u32 (data_total_blocks + 4096) div 4097;
         data_area_blocks = u32_sub data_total_blocks data_bitmap_blocks;
         data_bitmap = bm_new (as_u32 (as_u32 (1 + inode_bitmap_blocks) + inode_area_blocks)) data_bitmap_blocks;
         fs = \<lparr>fs_inode_bitmap = inode_bitmap, fs_data_bitmap = data_bitmap,
               fs_inode_area_start = as_u32 (1 + inode_bitmap_blocks),
               fs_data_area_start = as_u32 (as_u32 (1 + inode_total_blocks) + data_bitmap_blocks)\<rparr>
     in do {
       s1 \<leftarrow> clear_blocks total_blocks s;
       b0 \<leftarrow> blk_read [] 0 s1;
       s2 \<leftarrow> blk_write [] 0 (sb_put (sb_init total_blocks inode_bitmap_blocks inode_area_blocks
                                  data_bitmap_blocks data_area_blocks) b0) s1;
       (i, s3) \<leftarrow> alloc_inode [] fs s2;
       assert_opt (i = 0);
       let (root_block, root_offset) = disk_inode_position fs 0;
       rb \<leftarrow> blk_read [] root_block s3;
       s4 \<leftarrow> blk_write [] root_block (di_put root_offset (di_init Directory (di_get root_offset rb)) rb) s3;
       Some (fs, s4)
     })"

definition efs_open :: "disk \<Rightarrow> efs option" where
  "efs_open s = do {
     b0 \<leftarrow> blk_read [] 0 s;
     let sb = sb_get b0;
     assert_opt (sb_is_valid sb);
     let inode_total_blocks = as_u32 (sb_inode_bitmap_blocks sb + sb_inode_area_blocks sb);
     Some \<lparr>fs_inode_bitmap = bm_new 1 (sb_inode_bitmap_blocks sb),
           fs_data_bitmap = bm_new (as_u32 (1 + inode_total_blocks)) (sb_data_bitmap_blocks sb),
           fs_inode_area_start = as_u32 (1 + sb_inode_bitmap_blocks sb),
           fs_data_area_start = as_u32 (as_u32 (1 + inode_total_blocks) + sb_data_bitmap_blocks sb)\<rparr>
   }"

section \<open>The contract of a block allocator\<close>

text \<open>\<open>repeat_alloc\<close> is the loop in which \<open>Inode::increase_size\<close> allocates its blocks.\<close>

fun repeat_alloc :: "(disk \<Rightarrow> (nat \<times> disk) option) \<Rightarrow> nat \<Rightarrow> disk \<Rightarrow> (nat list \<times> disk) option" where
  "repeat_alloc f 0 s = Some ([], s)"
| "repeat_alloc f (Suc k) s = do {
     (b, s1) \<leftarrow> f s;
     (bs, s2) \<leftarrow> repeat_alloc f k s1;
     Some (b # bs, s2)
   }"

locale block_alloc =
  fixes alloc :: "disk \<Rightarrow> (nat \<times> disk) option"
    and dealloc :: "nat \<Rightarrow> disk \<Rightarrow> disk option"
    and inv :: "disk \<Rightarrow> bool"
    and used :: "disk \<Rightarrow> nat set"
    and area :: "nat set"
    and meta :: "nat set"
  assumes fin: "finite area"
    and apart: "inv s \<Longrightarrow> area \<inter> meta = {}"
    and alloc_ok: "inv s \<Longrightarrow> \<not> area \<subseteq> used s \<Longrightarrow> \<exists>b s'. alloc s = Some (b, s') \<and> b \<in> area - used s \<and>
      used s' = insert b (used s) \<and> inv s' \<and> length s' = length s \<and> (\<forall>x. x \<notin> meta \<longrightarrow> s' ! x = s ! x)"
    and dealloc_ok: "inv s \<Longrightarrow> b \<in> area \<inter> used s \<Longrightarrow> \<exists>s'. dealloc b s = Some s' \<and>
      used s' = used s - {b} \<and> inv s' \<and> length s' = length s \<and> s' ! b = replicate 512 0 \<and>
      (\<forall>x. x \<notin> insert b meta \<longrightarrow> s' ! x = s ! x)"
begin

lemma alloc_many:
  "inv s \<Longrightarrow> k \<le> card (area - used s) \<Longrightarrow> \<exists>bs s'. repeat_alloc alloc k s = Some (bs, s') \<and> length bs = k \<and>
     distinct bs \<and> set bs \<subseteq> area - used s \<and> used s' = used s \<union> set bs \<and> inv s' \<and> length s' = length s \<and>
     (\<forall>x. x \<notin> meta \<longrightarrow> s' ! x = s ! x)"
proof (induction k arbitrary: s)
  case (Suc k)
  then have "\<not> area \<subseteq> used s" by (metis Diff_eq_empty_iff card.empty not_less_eq_eq zero_le)
  from alloc_ok [OF Suc.prems(1) this] obtain b s1 where b: "alloc s = Some (b, s1)" "b \<in> area - used s"
    "used s1 = insert b (used s)" "inv s1" "length s1 = length s" "\<forall>x. x \<notin> meta \<longrightarrow> s1 ! x = s ! x" by blast
  have "area - used s1 = (area - used s) - {b}" using b(3) by blast
  then have "card (area - used s1) = card (area - used s) - 1" using b(2) fin by simp
  then have "k \<le> card (area - used s1)" using Suc.prems(2) by simp
  from Suc.IH [OF b(4) this] obtain bs s2 where bs: "repeat_alloc alloc k s1 = Some (bs, s2)" "length bs = k"
    "distinct bs" "set bs \<subseteq> area - used s1" "used s2 = used s1 \<union> set bs" "inv s2" "length s2 = length s1"
    "\<forall>x. x \<notin> meta \<longrightarrow> s2 ! x = s1 ! x" by blast
  have "set (b # bs) \<subseteq> area - used s" "distinct (b # bs)" "used s2 = used s \<union> set (b # bs)"
    using b(2,3) bs(3-5) by auto
  moreover have "repeat_alloc alloc (Suc k) s = Some (b # bs, s2)" using b(1) bs(1) by simp
  ultimately show ?case using b(5,6) bs(2,6,7,8) by (intro exI [of _ "b # bs"] exI [of _ s2]) simp
qed simp

lemma dealloc_many:
  "inv s \<Longrightarrow> distinct bs \<Longrightarrow> set bs \<subseteq> area \<inter> used s \<Longrightarrow> \<exists>s'. fold_opt dealloc bs s = Some s' \<and>
     used s' = used s - set bs \<and> inv s' \<and> length s' = length s \<and>
     (\<forall>b\<in>set bs. s' ! b = replicate 512 0) \<and> (\<forall>x. x \<notin> set bs \<union> meta \<longrightarrow> s' ! x = s ! x)"
proof (induction bs arbitrary: s)
  case (Cons b bs)
  have "b \<in> area \<inter> used s" using Cons.prems(3) by simp
  from dealloc_ok [OF Cons.prems(1) this] obtain s1 where b: "dealloc b s = Some s1" "used s1 = used s - {b}" "inv s1"
    "length s1 = length s" "s1 ! b = replicate 512 0" "\<forall>x. x \<notin> insert b meta \<longrightarrow> s1 ! x = s ! x" by blast
  have "set bs \<subseteq> area \<inter> used s1" using Cons.prems(2,3) b(2) by auto
  from Cons.IH [OF b(3) _ this] obtain s2 where s2: "fold_opt dealloc bs s1 = Some s2" "used s2 = used s1 - set bs"
    "inv s2" "length s2 = length s1" "\<forall>c\<in>set bs. s2 ! c = replicate 512 0" "\<forall>x. x \<notin> set bs \<union> meta \<longrightarrow> s2 ! x = s1 ! x"
    using Cons.prems(2) by auto
  have "b \<notin> set bs \<union> meta" using Cons.prems(2,3) apart [OF Cons.prems(1)] by auto
  then have "s2 ! b = replicate 512 0" using s2(6) b(5) by simp
  moreover have "used s2 = used s - set (b # bs)" using s2(2) b(2) by auto
  moreover have "fold_opt dealloc (b # bs) s = Some s2" using b(1) s2(1) by simp
  ultimately show ?case using s2(3-6) b(4,6) by auto
qed simp

end

section \<open>The layout of a disk\<close>

text \<open>On a disk of \<open>N\<close> blocks the areas follow each other; the inode area has room for all inodes of
  the bitmap, and the data bitmap covers the data area.\<close>

definition efs_geom :: "efs \<Rightarrow> nat \<Rightarrow> bool" where
  "efs_geom fs N \<longleftrightarrow> 1 \<le> bm_start (fs_inode_bitmap fs) \<and>
     bm_start (fs_inode_bitmap fs) + bm_blocks (fs_inode_bitmap fs) \<le> fs_inode_area_start fs \<and>
     fs_inode_area_start fs \<le> bm_start (fs_data_bitmap fs) \<and>
     bm_maximum (fs_inode_bitmap fs) < 2 ^ 32 \<and> bm_maximum (fs_inode_bitmap fs) \<le> 4 * (bm_start (fs_data_bitmap fs) - fs_inode_area_start fs) \<and>
     bm_start (fs_data_bitmap fs) + bm_blocks (fs_data_bitmap fs) \<le> fs_data_area_start fs \<and>
     fs_data_area_start fs \<le> N \<and> N \<le> fs_data_area_start fs + bm_maximum (fs_data_bitmap fs) \<and> N < 2 ^ 32 \<and>
     bm_maximum (fs_data_bitmap fs) < 2 ^ 32"

definition inode_area :: "efs \<Rightarrow> nat set" where
  "inode_area fs = {fs_inode_area_start fs..<bm_start (fs_data_bitmap fs)}"

definition data_meta :: "efs \<Rightarrow> nat set" where
  "data_meta fs = {bm_start (fs_data_bitmap fs)..<bm_start (fs_data_bitmap fs) + bm_blocks (fs_data_bitmap fs)}"

definition data_area :: "efs \<Rightarrow> nat \<Rightarrow> nat set" where
  "data_area fs N = {fs_data_area_start fs..<N}"

text \<open>The data blocks in use. \<open>held\<close> are blocks of the inode area.\<close>

definition used_data :: "efs \<Rightarrow> disk \<Rightarrow> nat set" where
  "used_data fs s = {b. fs_data_area_start fs \<le> b \<and> b - fs_data_area_start fs < bm_maximum (fs_data_bitmap fs) \<and>
     bm_bit (fs_data_bitmap fs) s (b - fs_data_area_start fs)}"

definition efs_inv :: "nat list \<Rightarrow> efs \<Rightarrow> nat \<Rightarrow> disk \<Rightarrow> bool" where
  "efs_inv held fs N s \<longleftrightarrow> efs_geom fs N \<and> disk_ok s \<and> length s = N \<and> set held \<subseteq> inode_area fs"

lemma efs_inv_bm_ok: "efs_inv held fs N s \<Longrightarrow> bm_ok held (fs_data_bitmap fs) s"
  by (auto simp: efs_inv_def efs_geom_def bm_ok_def inode_area_def)

lemma alloc_data_ok:
  assumes inv: "efs_inv held fs N s" and free: "\<not> data_area fs N \<subseteq> used_data fs s"
  shows "\<exists>b s'. alloc_data held fs s = Some (b, s') \<and> b \<in> data_area fs N - used_data fs s \<and>
    used_data fs s' = insert b (used_data fs s) \<and> efs_inv held fs N s' \<and> length s' = length s \<and>
    (\<forall>x. x \<notin> data_meta fs \<longrightarrow> s' ! x = s ! x)"
proof -
  let ?bm = "fs_data_bitmap fs" and ?d = "fs_data_area_start fs"
  have g: "efs_geom fs N" using inv by (simp add: efs_inv_def)
  from free obtain b0 where "b0 \<in> data_area fs N" and b0: "b0 \<notin> used_data fs s" by blast
  then have b0: "?d \<le> b0" "b0 < N" "b0 \<notin> used_data fs s" by (simp_all add: data_area_def)
  have clear0: "\<not> bm_bit ?bm s (b0 - ?d)" "b0 - ?d < bm_maximum ?bm"
    using b0 g by (auto simp: used_data_def efs_geom_def)
  obtain r s' where r: "bm_alloc held ?bm s = Some (r, s')" "bm_ok held ?bm s'" "length s' = length s"
    "alloc_result ?bm 0 s r s'" by (rule bm_alloc_spec [OF efs_inv_bm_ok [OF inv]])
  have m: "c div 4096 < bm_blocks ?bm \<longleftrightarrow> c < bm_maximum ?bm" for c
    by (simp add: bm_maximum_def div_less_iff_less_mult)
  obtain i where i: "r = Some i" using r(4) clear0 m by (cases r) (auto simp: alloc_result_def)
  have ib: "i < bm_maximum ?bm" "\<not> bm_bit ?bm s i" "\<forall>c<i. bm_bit ?bm s c" "\<forall>c. bm_bit ?bm s' c \<longleftrightarrow> c = i \<or> bm_bit ?bm s c"
    "\<forall>p. p \<noteq> bm_start ?bm + i div 4096 \<longrightarrow> s' ! p = s ! p"
    using r(4) i m by (simp_all add: alloc_result_def)
  have le: "i \<le> b0 - ?d" using ib(3) clear0(1) by (meson not_less)
  then have lt: "i + ?d < N" using b0 by linarith
  have u: "as_u32 (as_u32 i + ?d) = i + ?d" using lt g by (simp add: efs_geom_def)
  have "used_data fs s' = insert (i + ?d) (used_data fs s)"
  proof (rule set_eqI)
    fix x
    have "bm_bit ?bm s' (x - ?d) \<longleftrightarrow> x - ?d = i \<or> bm_bit ?bm s (x - ?d)" using ib(4) by (rule spec)
    moreover have "?d \<le> x \<Longrightarrow> x - ?d = i \<longleftrightarrow> x = i + ?d" by auto
    ultimately show "x \<in> used_data fs s' \<longleftrightarrow> x \<in> insert (i + ?d) (used_data fs s)"
      using ib(1) unfolding used_data_def by (cases "?d \<le> x") auto
  qed
  moreover have "i + ?d \<in> data_area fs N - used_data fs s" using lt ib(2) by (simp add: data_area_def used_data_def)
  moreover have "efs_inv held fs N s'" using inv r(2,3) by (simp add: efs_inv_def bm_ok_def)
  moreover have "s' ! x = s ! x" if "x \<notin> data_meta fs" for x
  proof -
    have "i div 4096 < bm_blocks ?bm" using m ib(1) by (rule iffD2)
    then have "x \<noteq> bm_start ?bm + i div 4096" using that by (auto simp: data_meta_def)
    then show ?thesis using ib(5) by simp
  qed
  moreover have "alloc_data held fs s = Some (i + ?d, s')" using r(1) i u by (simp add: alloc_data_def)
  ultimately show ?thesis using r(3) by blast
qed

lemma dealloc_data_ok:
  assumes inv: "efs_inv held fs N s" and b: "b \<in> data_area fs N \<inter> used_data fs s"
  shows "\<exists>s'. dealloc_data held fs b s = Some s' \<and> used_data fs s' = used_data fs s - {b} \<and>
    efs_inv held fs N s' \<and> length s' = length s \<and> s' ! b = replicate 512 0 \<and>
    (\<forall>x. x \<notin> insert b (data_meta fs) \<longrightarrow> s' ! x = s ! x)"
proof -
  let ?bm = "fs_data_bitmap fs" and ?d = "fs_data_area_start fs"
  let ?s = "s[b := replicate 512 0]"
  have g: "efs_geom fs N" using inv by (simp add: efs_inv_def)
  have bb: "?d \<le> b" "b < N" "b - ?d < bm_maximum ?bm" "bm_bit ?bm s (b - ?d)" "b \<notin> data_meta fs" "b \<notin> set held" "b < length s"
    using b inv by (auto simp: data_area_def used_data_def data_meta_def efs_inv_def efs_geom_def inode_area_def)
  have bit: "bm_bit ?bm ?s c = bm_bit ?bm s c" if "c < bm_maximum ?bm" for c
  proof -
    have "c div 4096 < bm_blocks ?bm" using that by (simp add: bm_maximum_def div_less_iff_less_mult)
    then have "b \<noteq> bm_start ?bm + c div 4096" using bb(5) by (auto simp: data_meta_def)
    then show ?thesis by (simp add: bm_bit_def)
  qed
  have inv1: "efs_inv held fs N ?s" using inv by (simp add: efs_inv_def)
  from bm_dealloc_spec [OF efs_inv_bm_ok [OF inv1] bb(3)] bit [OF bb(3)] bb(4)
  obtain s' where s': "bm_dealloc held ?bm (b - ?d) ?s = Some s'" "bm_ok held ?bm s'" "length s' = length s"
    "\<forall>c. bm_bit ?bm s' c \<longleftrightarrow> c \<noteq> b - ?d \<and> bm_bit ?bm ?s c"
    "\<forall>p. p < bm_start ?bm \<or> bm_start ?bm + bm_blocks ?bm \<le> p \<longrightarrow> s' ! p = ?s ! p" by auto
  have "u32_sub b ?d = b - ?d" using bb(1,2) g by (auto simp: u32_sub_def efs_geom_def as_u32_def mod_if)
  then have "dealloc_data held fs b s = Some s'" using s'(1) bb(6,7) by (simp add: dealloc_data_def)
  moreover have "used_data fs s' = used_data fs s - {b}"
  proof (rule set_eqI)
    fix x
    have "bm_bit ?bm s' (x - ?d) \<longleftrightarrow> x - ?d \<noteq> b - ?d \<and> bm_bit ?bm ?s (x - ?d)" using s'(4) by (rule spec)
    moreover have "?d \<le> x \<Longrightarrow> x - ?d = b - ?d \<longleftrightarrow> x = b" using bb(1) by auto
    ultimately show "x \<in> used_data fs s' \<longleftrightarrow> x \<in> used_data fs s - {b}"
      using bit [of "x - ?d"] unfolding used_data_def by (cases "?d \<le> x") auto
  qed
  moreover have "efs_inv held fs N s'" using inv s'(2,3) by (simp add: efs_inv_def bm_ok_def)
  moreover have fr: "s' ! x = ?s ! x" if "x \<notin> data_meta fs" for x using that s'(5) by (auto simp: data_meta_def)
  moreover have "s' ! b = replicate 512 0" using fr [OF bb(5)] bb(7) by simp
  ultimately show ?thesis using s'(3) by auto
qed

interpretation efs_blocks: block_alloc "alloc_data held fs" "dealloc_data held fs" "efs_inv held fs N" "used_data fs"
  "data_area fs N" "data_meta fs" for held fs N
proof
  show "finite (data_area fs N)" by (simp add: data_area_def)
  show "data_area fs N \<inter> data_meta fs = {}" if "efs_inv held fs N s" for s
    using that by (auto simp: efs_inv_def efs_geom_def data_area_def data_meta_def)
qed (rule alloc_data_ok dealloc_data_ok; assumption)+

end
