(* ===== verification/Vfs.thy ===== *)
theory Vfs
  imports Efs
begin

text \<open>
  The file and directory operations of \<open>easy-fs/src/vfs.rs\<close>. An \<open>Inode\<close> is the position of a disk
  inode; every operation takes the lock of the file system for its whole duration, so operations
  are functions on the disk. \<open>read_disk_inode\<close> and \<open>modify_disk_inode\<close> run a closure with the lock
  of the inode's block taken; the closure sees the inode as a record that is written back
  when it returns. Strings are their bytes. \<open>sync_all\<close> does not change what the store answers.
\<close>

section \<open>Operations\<close>

record inode =
  in_block :: nat
  in_offset :: nat

definition inode_new :: "nat \<times> nat \<Rightarrow> inode" where
  "inode_new p = \<lparr>in_block = fst p, in_offset = snd p\<rparr>"

definition read_disk_inode :: "inode \<Rightarrow> (nat list \<Rightarrow> disk_inode \<Rightarrow> 'v option) \<Rightarrow> disk \<Rightarrow> 'v option" where
  "read_disk_inode i f s = do {
     b \<leftarrow> blk_read [] (in_block i) s;
     assert_opt (in_offset i + DISK_INODE_SIZE \<le> BLOCK_SIZE);
     f [in_block i] (di_get (in_offset i) b)
   }"

definition modify_disk_inode :: "inode \<Rightarrow> (nat list \<Rightarrow> disk_inode \<Rightarrow> disk \<Rightarrow> ('v \<times> disk_inode \<times> disk) option) \<Rightarrow>
    disk \<Rightarrow> ('v \<times> disk) option" where
  "modify_disk_inode i f s = do {
     b \<leftarrow> blk_read [] (in_block i) s;
     assert_opt (in_offset i + DISK_INODE_SIZE \<le> BLOCK_SIZE);
     (v, ino, s1) \<leftarrow> f [in_block i] (di_get (in_offset i) b) s;
     s2 \<leftarrow> blk_write [] (in_block i) (di_put (in_offset i) ino b) s1;
     Some (v, s2)
   }"

definition increase_size :: "efs \<Rightarrow> nat list \<Rightarrow> nat \<Rightarrow> disk_inode \<Rightarrow> disk \<Rightarrow> (disk_inode \<times> disk) option" where
  "increase_size fs held new_size ino s = (
     if new_size < di_size ino then Some (ino, s)
     else do {
       blocks_needed \<leftarrow> blocks_num_needed new_size ino;
       (v, s1) \<leftarrow> repeat_alloc (alloc_data held fs) blocks_needed s;
       di_increase_size held new_size v ino s1
     })"

definition decrease_size :: "efs \<Rightarrow> nat list \<Rightarrow> nat \<Rightarrow> disk_inode \<Rightarrow> disk \<Rightarrow> (disk_inode \<times> disk) option" where
  "decrease_size fs held new_size ino s = (
     if new_size \<ge> di_size ino then Some (ino, s)
     else do {
       (dropped, ino') \<leftarrow> di_decrease_size held new_size ino s;
       s1 \<leftarrow> fold_opt (dealloc_data held fs) dropped s;
       Some (ino', s1)
     })"

text \<open>The loop over the entries; the first argument lists the remaining indices.\<close>

fun find_loop :: "nat list \<Rightarrow> nat list \<Rightarrow> u8 list \<Rightarrow> disk_inode \<Rightarrow> dir_entry \<Rightarrow> disk \<Rightarrow> nat option option" where
  "find_loop [] held name ino dirent s = Some None"
| "find_loop (i # is) held name ino dirent s = do {
     (n, bytes) \<leftarrow> di_read_at held ino (DIRENT_SIZE * i) (de_as_bytes dirent) s;
     assert_opt (n = DIRENT_SIZE);
     let dirent' = de_of_bytes bytes;
     dirent_name \<leftarrow> de_name_str dirent';
     if dirent_name = name then Some (Some (de_inode_number dirent'))
     else find_loop is held name ino dirent' s
   }"

definition find_inode_id :: "u8 list \<Rightarrow> nat list \<Rightarrow> disk_inode \<Rightarrow> disk \<Rightarrow> nat option option" where
  "find_inode_id name held ino s = do {
     assert_opt (di_is_dir ino);
     find_loop [0..<di_size ino div DIRENT_SIZE] held name ino de_empty s
   }"

definition vfs_find :: "efs \<Rightarrow> u8 list \<Rightarrow> inode \<Rightarrow> disk \<Rightarrow> inode option option" where
  "vfs_find fs name i s = read_disk_inode i (\<lambda>held ino. do {
     r \<leftarrow> find_inode_id name held ino s;
     Some (map_option (\<lambda>inode_id. inode_new (disk_inode_position fs inode_id)) r)
   }) s"

definition vfs_create_inode :: "efs \<Rightarrow> u8 list \<Rightarrow> disk_inode_kind \<Rightarrow> inode \<Rightarrow> disk \<Rightarrow> (inode option \<times> disk) option" where
  "vfs_create_inode fs name kind i s = do {
     r \<leftarrow> read_disk_inode i (\<lambda>held ino. do { assert_opt (di_is_dir ino); find_inode_id name held ino s }) s;
     if r \<noteq> None then Some (None, s)
     else do {
       (new_inode_id, s1) \<leftarrow> alloc_inode [] fs s;
       (u, s2) \<leftarrow> modify_disk_inode (inode_new (disk_inode_position fs new_inode_id))
         (\<lambda>held new_inode t. Some ((), di_init kind new_inode, t)) s1;
       (u', s3) \<leftarrow> modify_disk_inode i (\<lambda>held dir_inode t. do {
           let file_count = di_size dir_inode div DIRENT_SIZE;
           let new_size = (file_count + 1) * DIRENT_SIZE;
           (dir1, t1) \<leftarrow> increase_size fs held (as_u32 new_size) dir_inode t;
           dirent \<leftarrow> de_new name new_inode_id;
           (n, t2) \<leftarrow> di_write_at held dir1 (file_count * DIRENT_SIZE) (de_as_bytes dirent) t1;
           Some ((), dir1, t2)
         }) s2;
       Some (Some (inode_new (disk_inode_position fs new_inode_id)), s3)
     }
   }"

definition vfs_create :: "efs \<Rightarrow> u8 list \<Rightarrow> inode \<Rightarrow> disk \<Rightarrow> (inode option \<times> disk) option" where
  "vfs_create fs name i s = vfs_create_inode fs name File i s"

definition inode_id :: "efs \<Rightarrow> inode \<Rightarrow> nat" where
  "inode_id fs i = disk_inode_id fs (as_u32 (in_block i)) (in_offset i)"

definition dot :: "u8 list" where "dot = [0x2E]"
definition dotdot :: "u8 list" where "dotdot = [0x2E, 0x2E]"

definition set_default_dirent :: "efs \<Rightarrow> nat \<Rightarrow> inode \<Rightarrow> disk \<Rightarrow> disk option" where
  "set_default_dirent fs parent_inode_id i s = do {
     (u, s') \<leftarrow> modify_disk_inode i (\<lambda>held cur t. do {
         (cur1, t1) \<leftarrow> increase_size fs held (2 * DIRENT_SIZE) cur t;
         dirent_self \<leftarrow> de_new dot (disk_inode_id fs (as_u32 (in_block i)) (in_offset i));
         (n, t2) \<leftarrow> di_write_at held cur1 0 (de_as_bytes dirent_self) t1;
         dirent_parent \<leftarrow> de_new dotdot parent_inode_id;
         (n', t3) \<leftarrow> di_write_at held cur1 DIRENT_SIZE (de_as_bytes dirent_parent) t2;
         Some ((), cur1, t3)
       }) s;
     Some s'
   }"

definition vfs_create_dir :: "efs \<Rightarrow> u8 list \<Rightarrow> inode \<Rightarrow> disk \<Rightarrow> (inode option \<times> disk) option" where
  "vfs_create_dir fs name i s = do {
     (r, s1) \<leftarrow> vfs_create_inode fs name Directory i s;
     case r of None \<Rightarrow> Some (None, s1)
     | Some n \<Rightarrow> do {
         s2 \<leftarrow> set_default_dirent fs (inode_id fs i) n s1;
         Some (Some n, s2)
       }
   }"

definition vfs_clear :: "efs \<Rightarrow> inode \<Rightarrow> disk \<Rightarrow> disk option" where
  "vfs_clear fs i s = do {
     (u, s') \<leftarrow> modify_disk_inode i (\<lambda>held ino t. do {
         (dealloc, ino') \<leftarrow> di_clear_size held ino t;
         assert_opt (length dealloc = count_total_block (di_size ino));
         t' \<leftarrow> fold_opt (dealloc_data held fs) dealloc t;
         Some ((), ino', t')
       }) s;
     Some s'
   }"

definition vfs_read_at :: "nat \<Rightarrow> u8 list \<Rightarrow> inode \<Rightarrow> disk \<Rightarrow> (nat \<times> u8 list) option" where
  "vfs_read_at offset buf i s = read_disk_inode i (\<lambda>held ino. di_read_at held ino offset buf s) s"

definition vfs_write_at :: "efs \<Rightarrow> nat \<Rightarrow> u8 list \<Rightarrow> inode \<Rightarrow> disk \<Rightarrow> (nat \<times> disk) option" where
  "vfs_write_at fs offset buf i s = modify_disk_inode i (\<lambda>held ino t. do {
       assert_opt (di_is_file ino);
       (ino1, t1) \<leftarrow> increase_size fs held (as_u32 (offset + length buf)) ino t;
       (n, t2) \<leftarrow> di_write_at held ino1 offset buf t1;
       Some (n, ino1, t2)
     }) s"

fun delete_loop :: "efs \<Rightarrow> u8 list \<Rightarrow> dir_entry \<Rightarrow> nat \<Rightarrow> nat list \<Rightarrow> nat list \<Rightarrow> disk_inode \<Rightarrow> disk \<Rightarrow>
    (disk_inode \<times> disk) option" where
  "delete_loop fs name last_dirent file_count [] held dir s = Some (dir, s)"
| "delete_loop fs name last_dirent file_count (i # is) held dir s = do {
     (n, bytes) \<leftarrow> di_read_at held dir (i * DIRENT_SIZE) (de_as_bytes de_empty) s;
     let dirent = de_of_bytes bytes;
     dirent_name \<leftarrow> de_name_str dirent;
     if dirent_name = name then do {
       s1 \<leftarrow> dealloc_inode held fs (de_inode_number dirent) s;
       (n', s2) \<leftarrow> di_write_at held dir (i * DIRENT_SIZE) (de_as_bytes last_dirent) s1;
       (dir', s3) \<leftarrow> decrease_size fs held (as_u32 ((file_count - 1) * DIRENT_SIZE)) dir s2;
       delete_loop fs name last_dirent file_count is held dir' s3
     }
     else delete_loop fs name last_dirent file_count is held dir s
   }"

definition vfs_delete :: "efs \<Rightarrow> u8 list \<Rightarrow> inode \<Rightarrow> disk \<Rightarrow> disk option" where
  "vfs_delete fs name i s = do {
     (u, s') \<leftarrow> modify_disk_inode i (\<lambda>held dir t. do {
         assert_opt (di_is_dir dir);
         r \<leftarrow> find_inode_id name held dir t;
         (n, bytes) \<leftarrow> di_read_at held dir (usub (di_size dir) DIRENT_SIZE) (de_as_bytes de_empty) t;
         let file_count = di_size dir div DIRENT_SIZE;
         (dir', t') \<leftarrow> delete_loop fs name (de_of_bytes bytes) file_count [0..<file_count] held dir t;
         Some ((), dir', t')
       }) s;
     Some s'
   }"

definition file_size :: "inode \<Rightarrow> disk \<Rightarrow> nat option" where
  "file_size i s = read_disk_inode i (\<lambda>held ino. Some (di_size ino)) s"

definition is_dir :: "inode \<Rightarrow> disk \<Rightarrow> bool option" where
  "is_dir i s = read_disk_inode i (\<lambda>held ino. Some (di_is_dir ino)) s"

definition is_file :: "inode \<Rightarrow> disk \<Rightarrow> bool option" where
  "is_file i s = read_disk_inode i (\<lambda>held ino. Some (di_is_file ino)) s"

definition root_inode :: "efs \<Rightarrow> inode" where
  "root_inode fs = inode_new (disk_inode_position fs 0)"

section \<open>Inodes on the disk\<close>

definition ino_of :: "inode \<Rightarrow> disk \<Rightarrow> disk_inode" where
  "ino_of i s = di_get (in_offset i) (s ! in_block i)"

definition inode_pos_ok :: "efs \<Rightarrow> inode \<Rightarrow> bool" where
  "inode_pos_ok fs i \<longleftrightarrow> in_block i \<in> inode_area fs \<and> in_offset i \<in> {0, 128, 256, 384}"

text \<open>The inode at \<open>i\<close> is well-formed and its blocks are allocated data blocks.\<close>

definition inode_ok :: "efs \<Rightarrow> nat \<Rightarrow> inode \<Rightarrow> disk \<Rightarrow> bool" where
  "inode_ok fs N i s \<longleftrightarrow> inode_pos_ok fs i \<and> efs_inv [] fs N s \<and> ino_ok [in_block i] (ino_of i s) s \<and>
     set (ino_nodes (ino_of i s) s) \<subseteq> data_area fs N \<inter> used_data fs s"

definition vcontent :: "inode \<Rightarrow> disk \<Rightarrow> u8 list" where
  "vcontent i s = content (ino_of i s) s"

definition free_data :: "efs \<Rightarrow> nat \<Rightarrow> disk \<Rightarrow> nat set" where
  "free_data fs N s = data_area fs N - used_data fs s"

lemma efs_inv_held: "efs_inv held fs N s \<longleftrightarrow> efs_inv [] fs N s \<and> set held \<subseteq> inode_area fs"
  by (auto simp: efs_inv_def)

lemma inode_block:
  assumes "efs_inv held fs N s" "inode_pos_ok fs i"
  shows "in_block i < length s" "length (s ! in_block i) = 512" "in_offset i + 128 \<le> 512"
    "in_block i \<notin> data_area fs N" "in_block i \<notin> data_meta fs"
  using assms by (auto simp: efs_inv_def efs_geom_def inode_pos_ok_def inode_area_def data_area_def data_meta_def)

lemma ino_of_update:
  assumes "efs_inv held fs N s" "inode_pos_ok fs i" "di_ok ino"
  shows "ino_of i (s[in_block i := di_put (in_offset i) ino (s ! in_block i)]) = ino"
  using inode_block [OF assms(1,2)] assms(3) by (simp add: ino_of_def di_get_put)

text \<open>Two different positions do not overlap.\<close>

lemma ino_of_update_other:
  assumes "efs_inv held fs N s" "inode_pos_ok fs i" "inode_pos_ok fs j" "i \<noteq> j" "di_ok ino"
  shows "ino_of j (s[in_block i := di_put (in_offset i) ino (s ! in_block i)]) = ino_of j s"
proof (cases "in_block i = in_block j")
  case True
  then have "in_offset i \<noteq> in_offset j" using assms(4) by auto
  then have "in_offset j + 128 \<le> in_offset i \<or> in_offset i + 128 \<le> in_offset j"
    using assms(2,3) by (auto simp: inode_pos_ok_def)
  then have "di_get (in_offset j) (di_put (in_offset i) ino (s ! in_block i)) = di_get (in_offset j) (s ! in_block i)"
    using inode_block [OF assms(1,2)] inode_block(3) [OF assms(1,3)] assms(5)
    by (intro di_get_put_other) (simp_all add: di_ok_def)
  then show ?thesis using True inode_block [OF assms(1,2)] by (simp add: ino_of_def)
qed (simp add: ino_of_def)

section \<open>Growing\<close>

text \<open>What growing an inode to the size \<open>sz\<close> leaves: the blocks it takes were free, the old content is
  a prefix of the new one, and outside the data bitmap only its indirect blocks change.\<close>

definition grown_to :: "nat list \<Rightarrow> efs \<Rightarrow> nat \<Rightarrow> disk_inode \<Rightarrow> disk_inode \<Rightarrow> nat \<Rightarrow> disk \<Rightarrow> disk \<Rightarrow> bool" where
  "grown_to held fs N ino ino' sz s s' \<longleftrightarrow> efs_inv held fs N s' \<and> ino_ok held ino' s' \<and>
     di_kind ino' = di_kind ino \<and> di_size ino' = max (di_size ino) sz \<and>
     set (ino_nodes ino' s') \<subseteq> set (ino_nodes ino s) \<union> free_data fs N s \<and>
     set (ino_nodes ino s) \<subseteq> set (ino_nodes ino' s') \<and>
     used_data fs s' = used_data fs s \<union> set (ino_nodes ino' s') \<and>
     take (di_size ino) (content ino' s') = content ino s \<and>
     (\<forall>x. x \<notin> data_meta fs \<union> set (ino_inner ino' s') \<longrightarrow> s' ! x = s ! x)"

lemma content_prefix:
  assumes ok: "ino_ok held ino s" and ok': "ino_ok held ino' s'" and sz: "di_size ino \<le> di_size ino'"
    and pre: "take (di_blocks ino) (ino_data ino' s') = ino_data ino s"
    and same: "\<forall>b\<in>set (ino_data ino s). s' ! b = s ! b"
  shows "take (di_size ino) (content ino' s') = content ino s"
proof -
  have "map ((!) s') (take (di_blocks ino) (ino_data ino' s')) = map ((!) s) (ino_data ino s)"
    unfolding pre using same by simp
  then have "ino_bytes ino s = concat (map ((!) s') (take (di_blocks ino) (ino_data ino' s')))"
    by (simp add: ino_bytes_def)
  moreover have "ino_bytes ino' s' = concat (map ((!) s') (take (di_blocks ino) (ino_data ino' s'))) @
      concat (map ((!) s') (drop (di_blocks ino) (ino_data ino' s')))"
    unfolding ino_bytes_def by (simp flip: concat_append map_append)
  ultimately have "ino_bytes ino' s' = ino_bytes ino s @ concat (map ((!) s') (drop (di_blocks ino) (ino_data ino' s')))"
    by simp
  then show ?thesis using sz length_ino_bytes [OF ok] by (simp add: content_def min_absorb1)
qed

lemma blocks_needed_total:
  assumes "di_size ino \<le> sz" "count_data_block sz \<le> INDIRECT3_BOUND"
  shows "blocks_num_needed sz ino = Some (count_total_block sz - count_total_block (di_size ino))"
proof -
  let ?m = "di_blocks ino" and ?n = "count_data_block sz" and ?ls = "di_levels ino"
  have le: "?m \<le> ?n" using assms(1) by (simp add: di_blocks_def count_data_block_mono)
  have "count_total_block (di_size ino) = min ?m 27 + lv_tot ?ls ?m" "count_total_block sz = min ?n 27 + lv_tot ?ls ?n"
    using count_total_levels [of _ ino] le assms(2) by (simp_all add: di_blocks_def)
  moreover have "lv_tot ?ls ?m \<le> lv_tot ?ls ?n" "min ?m 27 \<le> min ?n 27" using le by (auto intro: lv_tot_mono)
  ultimately show ?thesis using blocks_num_needed_levels [OF assms] by simp
qed

text \<open>An operation that leaves the blocks of an inode alone keeps it.\<close>

lemma ino_unchanged:
  assumes "\<forall>x\<in>set (ino_nodes ino s). s' ! x = s ! x"
  shows "ino_nodes ino s' = ino_nodes ino s" "ino_data ino s' = ino_data ino s" "ino_inner ino s' = ino_inner ino s"
    "content ino s' = content ino s"
    "ino_ok held ino s \<Longrightarrow> length s' = length s \<Longrightarrow> disk_ok s' \<Longrightarrow> ino_ok held ino s'"
proof -
  have "\<forall>x\<in>set (ino_inner ino s). s' ! x = s ! x" "\<forall>x\<in>set (ino_data ino s). s' ! x = s ! x"
    using assms set_ino_inner_subset [of ino s] set_ino_data_subset [of ino s] by blast+
  note fr = ino_frame [OF this(1)] and same = this(2)
  show "ino_nodes ino s' = ino_nodes ino s" "ino_data ino s' = ino_data ino s" "ino_inner ino s' = ino_inner ino s"
    by (rule fr)+
  show "content ino s' = content ino s" using same by (simp add: content_def ino_bytes_def fr cong: map_cong)
  show "ino_ok held ino s \<Longrightarrow> length s' = length s \<Longrightarrow> disk_ok s' \<Longrightarrow> ino_ok held ino s'"
    by (simp add: ino_ok_def fr)
qed

lemma used_data_frame:
  assumes "\<forall>x\<in>data_meta fs. s' ! x = s ! x"
  shows "used_data fs s' = used_data fs s"
proof -
  let ?bm = "fs_data_bitmap fs"
  have "bm_bit ?bm s' c = bm_bit ?bm s c" if "c < bm_maximum ?bm" for c
  proof -
    have "c div 4096 < bm_blocks ?bm" using that by (simp add: bm_maximum_def div_less_iff_less_mult)
    then show ?thesis using assms by (simp add: bm_bit_def data_meta_def)
  qed
  then show ?thesis by (auto simp: used_data_def)
qed

lemma data_area_apart:
  assumes "efs_inv held fs N s"
  shows "data_area fs N \<inter> data_meta fs = {}" "data_area fs N \<inter> set held = {}" "data_area fs N \<subseteq> {..<min (length s) (2 ^ 32)}"
  using assms by (auto simp: efs_inv_def efs_geom_def data_area_def data_meta_def inode_area_def)

lemma vfs_increase_ok:
  assumes inv: "efs_inv held fs N s" and ok: "ino_ok held ino s"
    and nodes: "set (ino_nodes ino s) \<subseteq> data_area fs N \<inter> used_data fs s"
    and sz: "sz < 2 ^ 32" "count_data_block sz \<le> INDIRECT3_BOUND"
    and free: "count_total_block sz - count_total_block (di_size ino) \<le> card (free_data fs N s)"
  obtains ino' s' where "increase_size fs held sz ino s = Some (ino', s')" "grown_to held fs N ino ino' sz s s'"
proof (cases "sz < di_size ino")
  case True
  then show ?thesis using that [of ino s] inv ok nodes by (auto simp: increase_size_def grown_to_def content_def)
next
  case False
  then have le: "di_size ino \<le> sz" by simp
  note k = blocks_needed_total [OF le sz(2)] and ap = data_area_apart [OF inv]
  from efs_blocks.alloc_many [OF inv free [unfolded free_data_def]] obtain v s1 where
    a: "repeat_alloc (alloc_data held fs) (count_total_block sz - count_total_block (di_size ino)) s = Some (v, s1)"
    and lv: "length v = count_total_block sz - count_total_block (di_size ino)" and dv: "distinct v"
    and vf: "set v \<subseteq> data_area fs N - used_data fs s" and us: "used_data fs s1 = used_data fs s \<union> set v"
    and i1: "efs_inv held fs N s1" and l1: "length s1 = length s"
    and fr: "\<forall>x. x \<notin> data_meta fs \<longrightarrow> s1 ! x = s ! x" by blast
  have "\<forall>x\<in>set (ino_nodes ino s). s1 ! x = s ! x" using fr nodes ap(1) by blast
  note un = ino_unchanged [OF this]
  have ok1: "ino_ok held ino s1" using un(5) [OF ok l1] i1 by (simp add: efs_inv_def)
  have "supplied held (ino_nodes ino s1) v (length v) s1"
    unfolding supplied_def un(1) using ok nodes vf ap l1 dv i1 by (auto simp: ino_ok_def efs_inv_def)
  from increase_size_ok [OF ok1 le sz(1,2) _ this] k lv obtain ino' s' where
    e: "di_increase_size held sz v ino s1 = Some (ino', s')" "di_size ino' = sz" "di_ok ino'"
    and g: "ino_grown ino ino' v s1 s'" by auto
  have run: "increase_size fs held sz ino s = Some (ino', s')" using False k a e(1) by (simp add: increase_size_def)
  have m: "mset (ino_nodes ino' s') = mset (ino_nodes ino s @ v)" using g by (simp add: ino_grown_def un)
  have st: "set (ino_nodes ino' s') = set (ino_nodes ino s) \<union> set v" using mset_eq_setD [OF m] by simp
  have "distinct (ino_nodes ino s @ v)" using ok nodes vf dv by (auto simp: ino_ok_def)
  then have "distinct (ino_nodes ino' s')" using mset_eq_imp_distinct_iff [OF m] by simp
  then have ok': "ino_ok held ino' s'"
    using e g st nodes vf ap l1 sz(2) by (auto simp: ino_ok_def ino_grown_def di_blocks_def)
  have sub: "set (ino_inner ino' s') \<subseteq> data_area fs N"
    using set_ino_inner_subset [of ino' s'] st nodes vf by blast
  have fr': "s' ! x = s1 ! x" if "x \<notin> set (ino_inner ino' s')" for x using g that by (simp add: ino_grown_def)
  have "\<forall>x\<in>data_meta fs. s' ! x = s1 ! x" using fr' sub ap(1) by blast
  from used_data_frame [OF this] have u': "used_data fs s' = used_data fs s \<union> set (ino_nodes ino' s')"
    using us st nodes by auto
  have pre: "take (di_blocks ino) (ino_data ino' s') = ino_data ino s" using g by (simp add: ino_grown_def un)
  have "\<forall>b\<in>set (ino_data ino s). s' ! b = s ! b"
  proof
    fix b assume b: "b \<in> set (ino_data ino s)"
    then have "b \<in> set (ino_data ino' s')" using set_take_subset [of "di_blocks ino" "ino_data ino' s'"] pre by auto
    then have "b \<notin> set (ino_inner ino' s')" using data_not_inner(2) [of ino' s'] ok' by (auto simp: ino_ok_def)
    moreover have "b \<notin> data_meta fs" using b set_ino_data_subset [of ino s] nodes ap(1) by blast
    ultimately show "s' ! b = s ! b" using fr' fr by simp
  qed
  from content_prefix [OF ok ok' _ pre this] have c: "take (di_size ino) (content ino' s') = content ino s"
    using le e(2) by simp
  have "efs_inv held fs N s'" using inv i1 g l1 by (simp add: efs_inv_def ino_grown_def)
  then have "grown_to held fs N ino ino' sz s s'"
    using ok' e(2) le st vf u' c fr fr' g by (auto simp: grown_to_def ino_grown_def free_data_def)
  then show ?thesis using that run by blast
qed

section \<open>Operations on one inode\<close>

text \<open>The footprint of an operation that grows and writes an inode: it may take free blocks, and
  outside the data bitmap it writes blocks of the inode only.\<close>

definition footprint :: "nat list \<Rightarrow> efs \<Rightarrow> nat \<Rightarrow> disk_inode \<Rightarrow> disk_inode \<Rightarrow> disk \<Rightarrow> disk \<Rightarrow> bool" where
  "footprint held fs N ino ino' s s' \<longleftrightarrow> efs_inv held fs N s' \<and> ino_ok held ino' s' \<and> di_kind ino' = di_kind ino \<and>
     set (ino_nodes ino' s') \<subseteq> set (ino_nodes ino s) \<union> free_data fs N s \<and>
     set (ino_nodes ino s) \<subseteq> set (ino_nodes ino' s') \<and>
     used_data fs s' = used_data fs s \<union> set (ino_nodes ino' s') \<and>
     (\<forall>x. x \<notin> data_meta fs \<union> set (ino_nodes ino' s') \<longrightarrow> s' ! x = s ! x)"

lemma grown_footprint: "grown_to held fs N ino ino' sz s s' \<Longrightarrow> footprint held fs N ino ino' s s'"
  using set_ino_inner_subset [of ino' s'] by (auto simp: grown_to_def footprint_def)

lemma footprint_area:
  assumes "footprint held fs N ino ino' s s'" "set (ino_nodes ino s) \<subseteq> data_area fs N \<inter> used_data fs s"
  shows "set (ino_nodes ino' s') \<subseteq> data_area fs N \<inter> used_data fs s'"
  using assms by (auto simp: footprint_def free_data_def)

lemma written_footprint:
  assumes f: "footprint held fs N ino ino' s s1" and w: "ino_written held ino' off buf s1 s2"
    and nodes: "set (ino_nodes ino s) \<subseteq> data_area fs N \<inter> used_data fs s"
  shows "footprint held fs N ino ino' s s2"
proof -
  have inv: "efs_inv held fs N s1" using f by (simp add: footprint_def)
  have fr: "s2 ! x = s1 ! x" if "x \<notin> set (ino_nodes ino' s1)" for x
    using that w set_ino_data_subset [of ino' s1] by (auto simp: ino_written_def)
  have n: "ino_nodes ino' s2 = ino_nodes ino' s1" "ino_ok held ino' s2" "length s2 = length s1"
    using w by (simp_all add: ino_written_def)
  have "\<forall>x\<in>data_meta fs. s2 ! x = s1 ! x"
    using fr footprint_area [OF f nodes] data_area_apart(1) [OF inv] by blast
  from used_data_frame [OF this] show ?thesis
    using f n fr inv by (simp add: footprint_def efs_inv_def ino_ok_def)
qed

text \<open>\<open>modify_disk_inode\<close> around such an operation: the inode is written back, and every other
  inode, with its content, is as before.\<close>

definition op_done :: "efs \<Rightarrow> nat \<Rightarrow> inode \<Rightarrow> disk_inode \<Rightarrow> disk \<Rightarrow> disk \<Rightarrow> bool" where
  "op_done fs N i ino' s s' \<longleftrightarrow> inode_ok fs N i s' \<and> ino_of i s' = ino' \<and> length s' = length s \<and>
     (\<forall>x<fs_inode_area_start fs. s' ! x = s ! x) \<and>
     (\<forall>j. j \<noteq> i \<longrightarrow> inode_ok fs N j s \<longrightarrow> set (ino_nodes (ino_of j s) s) \<inter> set (ino_nodes (ino_of i s) s) = {} \<longrightarrow>
        inode_ok fs N j s' \<and> ino_of j s' = ino_of j s \<and> vcontent j s' = vcontent j s \<and>
        set (ino_nodes (ino_of j s') s') \<inter> set (ino_nodes ino' s') = {})"

lemma modify_ok:
  assumes ok: "inode_ok fs N i s"
    and run: "f [in_block i] (ino_of i s) s = Some (v, ino', s1)"
    and fp: "footprint [in_block i] fs N (ino_of i s) ino' s s1"
  obtains s2 where "modify_disk_inode i f s = Some (v, s2)" "op_done fs N i ino' s s2" "vcontent i s2 = content ino' s1"
    "used_data fs s2 = used_data fs s1" "\<forall>x. x \<noteq> in_block i \<longrightarrow> s2 ! x = s1 ! x"
proof -
  let ?b = "in_block i" and ?ino = "ino_of i s"
  have inv: "efs_inv [] fs N s" and pos: "inode_pos_ok fs i"
    and nodes: "set (ino_nodes ?ino s) \<subseteq> data_area fs N \<inter> used_data fs s"
    using ok by (simp_all add: inode_ok_def)
  have inv1: "efs_inv [?b] fs N s1" and dok: "di_ok ino'" and iok1: "ino_ok [?b] ino' s1"
    and fr: "\<And>x. x \<notin> data_meta fs \<union> set (ino_nodes ino' s1) \<Longrightarrow> s1 ! x = s ! x"
    using fp by (auto simp: footprint_def ino_ok_def)
  note blk = inode_block [OF inv pos] and blk1 = inode_block [OF inv1 pos]
  have area: "set (ino_nodes ino' s1) \<subseteq> data_area fs N \<inter> used_data fs s1" by (rule footprint_area [OF fp nodes])
  have sb: "s1 ! ?b = s ! ?b" using fr [of ?b] blk area by blast
  define s2 where "s2 = s1[?b := di_put (in_offset i) ino' (s ! ?b)]"
  have s2: "s2 = s1[?b := di_put (in_offset i) ino' (s1 ! ?b)]" by (simp add: s2_def sb)
  have m: "modify_disk_inode i f s = Some (v, s2)"
    using blk blk1(1) run by (simp add: modify_disk_inode_def s2_def ino_of_def)
  have ne: "s2 ! x = s1 ! x" if "x \<noteq> ?b" for x using that by (simp add: s2_def)
  have d2: "disk_ok s2" "length s2 = length s1"
    using inv1 blk dok by (auto simp: s2_def efs_inv_def di_ok_def)
  have "\<forall>x\<in>set (ino_nodes ino' s1). s2 ! x = s1 ! x" using ne area blk(4) by (metis IntD1 subsetD)
  note un = ino_unchanged [OF this]
  have "\<forall>x\<in>data_meta fs. s2 ! x = s1 ! x" using ne blk(5) by metis
  note us = used_data_frame [OF this]
  have of: "ino_of i s2 = ino'" unfolding s2 by (rule ino_of_update [OF inv1 pos dok])
  have inv2: "efs_inv [] fs N s2" using inv1 d2 by (simp add: efs_inv_def)
  have oki: "inode_ok fs N i s2"
    using pos inv2 un(5) [OF iok1 d2(2,1)] area us by (simp add: inode_ok_def of un)
  have "inode_ok fs N j s2 \<and> ino_of j s2 = ino_of j s \<and> vcontent j s2 = vcontent j s \<and>
      set (ino_nodes (ino_of j s2) s2) \<inter> set (ino_nodes ino' s2) = {}"
    if j: "j \<noteq> i" "inode_ok fs N j s" "set (ino_nodes (ino_of j s) s) \<inter> set (ino_nodes ?ino s) = {}" for j
  proof -
    let ?n = "set (ino_nodes (ino_of j s) s)"
    have posj: "inode_pos_ok fs j" and nj: "?n \<subseteq> data_area fs N \<inter> used_data fs s"
      and okj: "ino_ok [in_block j] (ino_of j s) s"
      using j(2) by (simp_all add: inode_ok_def)
    have dis: "?n \<inter> set (ino_nodes ino' s1) = {}" using nj j(3) fp by (auto simp: footprint_def free_data_def)
    note blkj = inode_block [OF inv posj]
    have "s1 ! in_block j = s ! in_block j" using fr [of "in_block j"] blkj area by blast
    then have "ino_of j s1 = ino_of j s" by (simp add: ino_of_def)
    then have oj: "ino_of j s2 = ino_of j s"
      using ino_of_update_other [OF inv1 pos posj _ dok] j(1) unfolding s2 by metis
    have "\<forall>x\<in>?n. s2 ! x = s ! x"
    proof
      fix x assume x: "x \<in> ?n"
      then have "x \<notin> data_meta fs \<union> set (ino_nodes ino' s1)" "x \<noteq> ?b"
        using nj dis data_area_apart(1) [OF inv] blk(4) by blast+
      then show "s2 ! x = s ! x" using fr ne by simp
    qed
    note uj = ino_unchanged [OF this]
    have "length s2 = length s" using d2(2) inv inv1 by (simp add: efs_inv_def)
    moreover have "used_data fs s \<subseteq> used_data fs s2" using us fp by (auto simp: footprint_def)
    ultimately have "inode_ok fs N j s2"
      using posj inv2 uj(5) [OF okj] d2(1) nj by (auto simp: inode_ok_def oj uj(1))
    then show ?thesis using oj uj dis by (simp add: vcontent_def un(1))
  qed
  moreover have "length s2 = length s" using d2(2) inv inv1 by (simp add: efs_inv_def)
  moreover have "\<forall>x<fs_inode_area_start fs. s2 ! x = s ! x"
  proof (intro allI impI)
    fix x assume x: "x < fs_inode_area_start fs"
    have "x \<notin> data_meta fs" "x \<notin> data_area fs N" "x \<noteq> ?b"
      using x inv pos by (auto simp: efs_inv_def efs_geom_def data_meta_def data_area_def inode_pos_ok_def inode_area_def)
    then show "s2 ! x = s ! x" using ne fr area by auto
  qed
  ultimately have "op_done fs N i ino' s s2" unfolding op_done_def using oki of by blast
  moreover have "vcontent i s2 = content ino' s1" by (simp add: vcontent_def of un)
  ultimately show ?thesis using that m us ne by blast
qed

section \<open>Writing a file\<close>

text \<open>The step all writing operations share: grow to the end of the write, then write.\<close>

lemma grow_write_ok:
  assumes inv: "efs_inv held fs N s" and iok: "ino_ok held ino s"
    and nodes: "set (ino_nodes ino s) \<subseteq> data_area fs N \<inter> used_data fs s"
    and sz: "sz = offset + length buf" "sz < 2 ^ 32" "count_data_block sz \<le> INDIRECT3_BOUND" "buf \<noteq> []"
    and off: "offset \<le> di_size ino"
    and free: "count_total_block sz - count_total_block (di_size ino) \<le> card (free_data fs N s)"
  obtains ino' s1 s2 where "increase_size fs held sz ino s = Some (ino', s1)"
    "di_write_at held ino' offset buf s1 = Some (length buf, s2)" "footprint held fs N ino ino' s s2"
    "di_size ino' = max (di_size ino) sz" "di_kind ino' = di_kind ino"
    "content ino' s2 = take offset (content ino s) @ buf @ drop sz (content ino s)"
proof -
  obtain ino' s1 where g: "increase_size fs held sz ino s = Some (ino', s1)" "grown_to held fs N ino ino' sz s s1"
    by (rule vfs_increase_ok [OF inv iok nodes sz(2,3) free])
  have ok1: "ino_ok held ino' s1" and szn: "di_size ino' = max (di_size ino) sz" and kn: "di_kind ino' = di_kind ino"
    and pre: "take (di_size ino) (content ino' s1) = content ino s"
    using g(2) by (simp_all add: grown_to_def)
  have le: "offset + length buf \<le> di_size ino'" using szn sz(1) by simp
  obtain s2 where w: "di_write_at held ino' offset buf s1 = Some (length buf, s2)" "ino_written held ino' offset buf s1 s2"
    by (rule write_at_ok [OF ok1 le sz(4)])
  have lc: "length (content ino' s1) = max (di_size ino) sz"
    using length_ino_bytes [OF ok1] szn by (simp add: content_def)
  have "take offset (content ino' s1) = take offset (content ino s)"
    using off pre by (metis min.absorb1 take_take)
  moreover have "drop sz (content ino' s1) = drop sz (content ino s)"
  proof (cases "di_size ino \<le> sz")
    case True
    moreover have "length (content ino s) = di_size ino" using length_ino_bytes [OF iok] by (simp add: content_def)
    ultimately show ?thesis using lc by simp
  next
    case False
    then have "take (di_size ino) (content ino' s1) = content ino' s1" using lc by simp
    then show ?thesis using pre by simp
  qed
  ultimately have "content ino' s2 = take offset (content ino s) @ buf @ drop sz (content ino s)"
    using written_content [OF w(2) ok1 le] sz(1) by (simp add: splice_def)
  then show ?thesis
    using that g(1) w(1) written_footprint [OF grown_footprint [OF g(2)] w(2) nodes] szn kn by blast
qed

lemma inode_okD:
  assumes "inode_ok fs N i s"
  shows "efs_inv [in_block i] fs N s" "ino_ok [in_block i] (ino_of i s) s" "efs_inv [] fs N s" "inode_pos_ok fs i"
    "set (ino_nodes (ino_of i s) s) \<subseteq> data_area fs N \<inter> used_data fs s"
  using assms efs_inv_held [of "[in_block i]"] by (auto simp: inode_ok_def inode_pos_ok_def)

text \<open>C8: \<open>Inode::write_at\<close> on a file, at an offset inside or at the end of it, with enough free data
  blocks, does not panic and writes the whole buffer: the content of the file is the old one with
  the range replaced, or extended. Every other file of the system keeps its inode and its
  content, and the blocks of the files stay apart.\<close>

theorem vfs_write_at_correct:
  assumes "inode_ok fs N i s" "di_kind (ino_of i s) = File" "offset \<le> di_size (ino_of i s)"
    and "offset + length buf < 2 ^ 32" "count_data_block (offset + length buf) \<le> INDIRECT3_BOUND" "buf \<noteq> []"
    and "count_total_block (offset + length buf) - count_total_block (di_size (ino_of i s)) \<le> card (free_data fs N s)"
  shows "\<exists>s'. vfs_write_at fs offset buf i s = Some (length buf, s') \<and> inode_ok fs N i s' \<and>
    vcontent i s' = take offset (vcontent i s) @ buf @ drop (offset + length buf) (vcontent i s) \<and>
    (\<forall>j. j \<noteq> i \<longrightarrow> inode_ok fs N j s \<longrightarrow>
       set (ino_nodes (ino_of j s) s) \<inter> set (ino_nodes (ino_of i s) s) = {} \<longrightarrow>
       inode_ok fs N j s' \<and> ino_of j s' = ino_of j s \<and> vcontent j s' = vcontent j s \<and>
       set (ino_nodes (ino_of j s') s') \<inter> set (ino_nodes (ino_of i s') s') = {})"
proof -
  let ?ino = "ino_of i s" and ?h = "[in_block i]" and ?sz = "offset + length buf"
  note ok = inode_okD [OF assms(1)]
  obtain ino' s1 s2 where g: "increase_size fs ?h ?sz ?ino s = Some (ino', s1)"
    "di_write_at ?h ino' offset buf s1 = Some (length buf, s2)" "footprint ?h fs N ?ino ino' s s2"
    "di_size ino' = max (di_size ?ino) ?sz" "di_kind ino' = di_kind ?ino"
    "content ino' s2 = take offset (content ?ino s) @ buf @ drop ?sz (content ?ino s)"
    by (rule grow_write_ok [OF ok(1,2,5) refl assms(4-6,3,7)])
  let ?f = "\<lambda>held ino t. do {
       assert_opt (di_is_file ino);
       (ino1, t1) \<leftarrow> increase_size fs held (as_u32 ?sz) ino t;
       (n, t2) \<leftarrow> di_write_at held ino1 offset buf t1;
       Some (n, ino1, t2)
     }"
  have run: "?f ?h ?ino s = Some (length buf, ino', s2)"
    using assms(2,4) g(1,2) by (simp add: di_is_file_def)
  obtain s' where s': "modify_disk_inode i ?f s = Some (length buf, s')" "op_done fs N i ino' s s'" "vcontent i s' = content ino' s2"
    by (rule modify_ok [OF assms(1), where f = ?f, OF run g(3)])
  have o: "inode_ok fs N i s'" "ino_of i s' = ino'" using s'(2) by (simp_all add: op_done_def)
  have c: "vcontent i s' = take offset (vcontent i s) @ buf @ drop ?sz (vcontent i s)"
    using s'(3) g(6) by (simp add: vcontent_def)
  show ?thesis
    using s'(1) o(1) c s'(2) [unfolded op_done_def, folded o(2)] unfolding vfs_write_at_def by blast
qed

definition small_fs :: efs where
  "small_fs = \<lparr>fs_inode_bitmap = bm_new 1 1, fs_data_bitmap = bm_new 1026 1,
     fs_inode_area_start = 2, fs_data_area_start = 1027\<rparr>"

definition small_file :: inode where
  "small_file = \<lparr>in_block = 2, in_offset = 128\<rparr>"

lemma blank_words: "bitmap_block (replicate 512 0) = replicate 64 0"
proof -
  have "8 * 64 = (512 :: nat)" by simp
  then show ?thesis using words_of_zeros [of 8 64] by (simp only:)
qed

lemma blank_inode: "off + 128 \<le> 512 \<Longrightarrow> di_get off (replicate 512 0) = empty_inode"
proof -
  assume off: "off + 128 \<le> 512"
  have "words_of 4 31 (drop (off + 4) (replicate 512 (0 :: u8))) = words_of 4 31 (take 124 (drop (off + 4) (replicate 512 0)))"
    by (simp only: words_of_take)
  also have "take 124 (drop (off + 4) (replicate 512 (0 :: u8))) = replicate (4 * 31) 0"
    using off by (simp add: min_def)
  finally have "words_of 4 31 (drop (off + 4) (replicate 512 (0 :: u8))) = replicate 31 0" by (simp only: words_of_zeros)
  then show ?thesis using off by (simp add: di_get_def Let_def empty_inode_def kind_of_byte_def)
qed

lemma small_fs_ok:
  "efs_inv [] small_fs 1030 (blank_disk 1030)" "inode_ok small_fs 1030 small_file (blank_disk 1030)"
  "ino_of small_file (blank_disk 1030) = empty_inode" "free_data small_fs 1030 (blank_disk 1030) = {1027..<1030}"
proof -
  have nb: "\<not> bm_bit (bm_new 1026 1) (blank_disk 1030) c" if "c < 4096" for c
    using that by (simp add: bm_bit_def bm_new_def blank_disk_def blank_words less_mult_imp_div_less)
  show inv: "efs_inv [] small_fs 1030 (blank_disk 1030)"
    by (simp add: efs_inv_def efs_geom_def small_fs_def bm_new_def bm_maximum_def)
  show of: "ino_of small_file (blank_disk 1030) = empty_inode"
    by (simp add: ino_of_def small_file_def blank_disk_def blank_inode)
  have "used_data small_fs (blank_disk 1030) = {}"
    using nb by (auto simp: used_data_def small_fs_def bm_maximum_def bm_new_def)
  then show "free_data small_fs 1030 (blank_disk 1030) = {1027..<1030}"
    by (simp add: free_data_def data_area_def small_fs_def)
  have "ino_nodes empty_inode (blank_disk 1030) = []"
    by (simp add: ino_nodes_def empty_inode_def di_blocks_def count_data_block_def di_levels_def)
  then show "inode_ok small_fs 1030 small_file (blank_disk 1030)"
    using inv empty_inode_ok [of "[2]" 1030] unfolding inode_ok_def of
    by (simp add: inode_pos_ok_def small_file_def inode_area_def small_fs_def bm_new_def)
qed

theorem vfs_write_at_witness:
  "\<exists>s'. vfs_write_at small_fs 0 [104, 105] small_file (blank_disk 1030) = Some (2, s') \<and> vcontent small_file s' = [104, 105]"
proof -
  let ?s = "blank_disk 1030"
  have e: "di_kind (ino_of small_file ?s) = File" "di_size (ino_of small_file ?s) = 0"
    by (simp_all add: small_fs_ok(3) empty_inode_def)
  have cd: "count_data_block 2 = 1" "count_data_block 0 = 0" by (simp_all add: count_data_block_def div_ceil_def)
  have ct: "count_total_block 2 = 1" "count_total_block 0 = 0"
    using count_total_levels [of 2 empty_inode] count_total_levels [of 0 empty_inode] by (simp_all add: cd di_levels_def)
  have v: "vcontent small_file ?s = []" by (simp add: vcontent_def content_def small_fs_ok(3) empty_inode_def)
  have l: "length [104, 105 :: u8] = 2" by simp
  show ?thesis
    using vfs_write_at_correct [OF small_fs_ok(2) e(1), of 0 "[104, 105]", unfolded l add_0] e(2) v cd ct small_fs_ok(4)
    by auto
qed

end
