(* ===== verification/VfsDir.thy ===== *)
theory VfsDir
  imports Vfs
begin

text \<open>
  Directories: the content of a directory inode as a list of entries, the search of
  \<open>find_inode_id\<close> as a lookup in this list, creating an entry as appending to it, and clearing a
  file as giving back its blocks.
\<close>

section \<open>The entries of a directory\<close>

definition entry :: "nat \<Rightarrow> u8 list \<Rightarrow> dir_entry" where
  "entry k bs = de_of_bytes (take 32 (drop (32 * k) bs))"

definition entries :: "u8 list \<Rightarrow> dir_entry list" where
  "entries bs = map (\<lambda>k. entry k bs) [0..<length bs div 32]"

definition names_ok :: "dir_entry list \<Rightarrow> bool" where
  "names_ok ds \<longleftrightarrow> (\<forall>d\<in>set ds. de_name_str d \<noteq> None)"

fun dir_lookup :: "u8 list \<Rightarrow> dir_entry list \<Rightarrow> nat option" where
  "dir_lookup name [] = None"
| "dir_lookup name (d # ds) = (if de_name_str d = Some name then Some (de_inode_number d) else dir_lookup name ds)"

lemma dir_lookup_append: "dir_lookup name (ds @ es) =
    (case dir_lookup name ds of None \<Rightarrow> dir_lookup name es | Some n \<Rightarrow> Some n)"
  by (induction ds) auto

lemma length_content: "ino_ok held ino s \<Longrightarrow> length (content ino s) = di_size ino"
  using length_ino_bytes [of held ino s] by (simp add: content_def)

lemma read_entry:
  assumes ok: "ino_ok held ino s" and k: "k < di_size ino div 32" and d: "length (de_name d) = 28"
  shows "di_read_at held ino (32 * k) (de_as_bytes d) s = Some (32, take 32 (drop (32 * k) (content ino s)))"
proof -
  have sz: "di_size ino < 2 ^ 32" using ok by (simp add: ino_ok_def di_ok_def di_words_def)
  have le: "32 * k + 32 \<le> di_size ino" using k by (simp add: less_eq_div_iff_mult_less_eq Suc_le_eq [symmetric] mult.commute)
  have lb: "length (de_as_bytes d) = 32" by (rule length_de_as_bytes [OF d])
  have "length (take 32 (drop (32 * k) (content ino s))) = 32" using le length_content [OF ok] by simp
  moreover have "32 * k + length (de_as_bytes d) < 2 ^ 64" using le sz lb by simp
  ultimately show ?thesis using read_at_ok [OF ok, of "32 * k" "de_as_bytes d"] lb by (simp add: splice_def)
qed

lemma length_entry_name: "32 * k + 32 \<le> length bs \<Longrightarrow> length (de_name (entry k bs)) = 28"
  by (simp add: entry_def de_of_bytes_def)

lemma find_loop_ok:
  assumes ok: "ino_ok held ino s"
  shows "\<forall>k\<in>set ks. k < di_size ino div 32 \<and> de_name_str (entry k (content ino s)) \<noteq> None \<Longrightarrow> length (de_name d) = 28 \<Longrightarrow>
    find_loop ks held name ino d s = Some (dir_lookup name (map (\<lambda>k. entry k (content ino s)) ks))"
proof (induction ks arbitrary: d)
  case (Cons k ks)
  have k: "k < di_size ino div 32" using Cons.prems(1) by simp
  then have "32 * k + 32 \<le> di_size ino" by (simp add: less_eq_div_iff_mult_less_eq Suc_le_eq [symmetric] mult.commute)
  then have "length (de_name (entry k (content ino s))) = 28" using length_content [OF ok] by (intro length_entry_name) simp
  moreover obtain n where "de_name_str (entry k (content ino s)) = Some n" using Cons.prems(1) by auto
  ultimately show ?case
    using read_entry [OF ok k Cons.prems(2)] Cons by (simp flip: entry_def)
qed simp

lemma find_inode_id_ok:
  assumes "ino_ok held ino s" "di_kind ino = Directory" "names_ok (entries (content ino s))"
  shows "find_inode_id name held ino s = Some (dir_lookup name (entries (content ino s)))"
  using find_loop_ok [OF assms(1), of "[0..<di_size ino div 32]" de_empty name] assms(2,3)
  by (simp add: find_inode_id_def di_is_dir_def entries_def names_ok_def length_content [OF assms(1)] de_empty_def)

definition dir_of :: "inode \<Rightarrow> disk \<Rightarrow> dir_entry list" where
  "dir_of i s = entries (vcontent i s)"

text \<open>C29: \<open>Inode::find\<close> on a directory does not panic and returns the inode of the first entry with the
  name, or nothing when no entry has it; on a regular file it panics.\<close>

theorem vfs_find_correct:
  assumes "inode_ok fs N i s" "names_ok (dir_of i s)"
  shows "vfs_find fs name i s = (if di_kind (ino_of i s) = Directory
    then Some (map_option (\<lambda>n. inode_new (disk_inode_position fs n)) (dir_lookup name (dir_of i s)))
    else None)"
proof -
  note ok = inode_okD [OF assms(1)]
  have b: "blk_read [] (in_block i) s = Some (s ! in_block i)" "in_offset i + 128 \<le> 512"
    using inode_block [OF ok(3,4)] by simp_all
  show ?thesis
  proof (cases "di_kind (ino_of i s) = Directory")
    case True
    then show ?thesis using b find_inode_id_ok [OF ok(2) True, of name] assms(2)
      by (simp add: vfs_find_def read_disk_inode_def dir_of_def vcontent_def flip: ino_of_def)
  next
    case False
    then show ?thesis using b by (simp add: vfs_find_def read_disk_inode_def find_inode_id_def di_is_dir_def flip: ino_of_def)
  qed
qed

section \<open>Allocating an inode\<close>

definition inode_at :: "efs \<Rightarrow> nat \<Rightarrow> inode" where
  "inode_at fs k = inode_new (disk_inode_position fs k)"

text \<open>The inode numbers in use.\<close>

definition used_inodes :: "efs \<Rightarrow> disk \<Rightarrow> nat set" where
  "used_inodes fs s = {k. k < bm_maximum (fs_inode_bitmap fs) \<and> bm_bit (fs_inode_bitmap fs) s k}"

lemma inode_at_pos:
  assumes "efs_geom fs N" "k < bm_maximum (fs_inode_bitmap fs)"
  shows "in_block (inode_at fs k) = fs_inode_area_start fs + k div 4" "in_offset (inode_at fs k) = k mod 4 * 128"
    "inode_pos_ok fs (inode_at fs k)"
proof -
  have g: "k < 4 * (bm_start (fs_data_bitmap fs) - fs_inode_area_start fs)" "bm_start (fs_data_bitmap fs) < 2 ^ 32"
    using assms by (auto simp: efs_geom_def)
  then have lt: "fs_inode_area_start fs + k div 4 < bm_start (fs_data_bitmap fs)"
    using less_mult_imp_div_less [of k "bm_start (fs_data_bitmap fs) - fs_inode_area_start fs" 4] by (simp add: mult.commute)
  then show b: "in_block (inode_at fs k) = fs_inode_area_start fs + k div 4"
    using g(2) by (simp add: inode_at_def inode_new_def disk_inode_position_def Let_def)
  show o: "in_offset (inode_at fs k) = k mod 4 * 128"
    by (simp add: inode_at_def inode_new_def disk_inode_position_def Let_def)
  have "k mod 4 < 4" by simp
  then have "k mod 4 = 0 \<or> k mod 4 = 1 \<or> k mod 4 = 2 \<or> k mod 4 = 3" by linarith
  then show "inode_pos_ok fs (inode_at fs k)" unfolding inode_pos_ok_def b o inode_area_def using lt by auto
qed

lemma inode_at_inj:
  assumes "efs_geom fs N" "k < bm_maximum (fs_inode_bitmap fs)" "m < bm_maximum (fs_inode_bitmap fs)"
    and "inode_at fs k = inode_at fs m"
  shows "k = m"
proof -
  have "k div 4 = m div 4" "k mod 4 = m mod 4"
    using inode_at_pos(1,2) [OF assms(1,2)] inode_at_pos(1,2) [OF assms(1,3)] assms(4) by simp_all
  then show ?thesis by (metis div_mult_mod_eq)
qed

lemma alloc_inode_ok:
  assumes inv: "efs_inv [] fs N s" and free: "m < bm_maximum (fs_inode_bitmap fs)" "m \<notin> used_inodes fs s"
  obtains k s1 where "alloc_inode [] fs s = Some (k, s1)" "k < bm_maximum (fs_inode_bitmap fs)" "k \<notin> used_inodes fs s"
    "used_inodes fs s1 = insert k (used_inodes fs s)" "efs_inv [] fs N s1" "length s1 = length s"
    "\<forall>x. fs_inode_area_start fs \<le> x \<longrightarrow> s1 ! x = s ! x"
proof -
  let ?bm = "fs_inode_bitmap fs"
  have g: "efs_geom fs N" using inv by (simp add: efs_inv_def)
  have "bm_ok [] ?bm s" using inv by (auto simp: efs_inv_def efs_geom_def bm_ok_def)
  then obtain r s1 where r: "bm_alloc [] ?bm s = Some (r, s1)" "bm_ok [] ?bm s1" "length s1 = length s" "alloc_result ?bm 0 s r s1"
    by (rule bm_alloc_spec)
  have mm: "c div 4096 < bm_blocks ?bm \<longleftrightarrow> c < bm_maximum ?bm" for c
    by (simp add: bm_maximum_def div_less_iff_less_mult)
  obtain k where k: "r = Some k" using r(4) free mm [of m] by (cases r) (auto simp: alloc_result_def used_inodes_def)
  have kb: "k < bm_maximum ?bm" "\<not> bm_bit ?bm s k" "\<forall>c. bm_bit ?bm s1 c \<longleftrightarrow> c = k \<or> bm_bit ?bm s c"
    "\<forall>p. p \<noteq> bm_start ?bm + k div 4096 \<longrightarrow> s1 ! p = s ! p"
    using r(4) k mm by (simp_all add: alloc_result_def)
  have "bm_start ?bm + k div 4096 < fs_inode_area_start fs"
    using iffD2 [OF mm kb(1)] g by (auto simp: efs_geom_def)
  then have fr: "\<forall>x. fs_inode_area_start fs \<le> x \<longrightarrow> s1 ! x = s ! x" using kb(4) by (metis not_less)
  have "alloc_inode [] fs s = Some (k, s1)"
    using r(1) k kb(1) g by (simp add: alloc_inode_def efs_geom_def)
  moreover have "used_inodes fs s1 = insert k (used_inodes fs s)" using kb(1,3) by (auto simp: used_inodes_def)
  moreover have "efs_inv [] fs N s1" using inv r(2,3) by (simp add: efs_inv_def bm_ok_def)
  ultimately show ?thesis using that kb(1,2) r(3) fr by (auto simp: used_inodes_def)
qed

text \<open>An inode whose bytes and blocks an operation leaves alone is as before.\<close>

lemma inode_kept:
  assumes "inode_ok fs N j s" "efs_inv [] fs N s'" "used_data fs s \<subseteq> used_data fs s'" "ino_of j s' = ino_of j s"
    "\<forall>x\<in>data_area fs N. s' ! x = s ! x"
  shows "inode_ok fs N j s'" "vcontent j s' = vcontent j s" "ino_nodes (ino_of j s') s' = ino_nodes (ino_of j s) s"
proof -
  note ok = inode_okD [OF assms(1)]
  have "\<forall>x\<in>set (ino_nodes (ino_of j s) s). s' ! x = s ! x" using ok(5) assms(5) by blast
  note un = ino_unchanged [OF this]
  have "length s' = length s" "disk_ok s'" using ok(3) assms(2) by (simp_all add: efs_inv_def)
  then show "inode_ok fs N j s'" using ok(4,5) assms(2-4) un(5) [OF ok(2)] by (auto simp: inode_ok_def un(1))
  show "vcontent j s' = vcontent j s" "ino_nodes (ino_of j s') s' = ino_nodes (ino_of j s) s"
    by (simp_all add: vcontent_def assms(4) un)
qed

section \<open>Creating an entry\<close>

lemma init_inode_ok:
  assumes inv: "efs_inv [] fs N s" and pos: "inode_pos_ok fs n"
  obtains s' where "modify_disk_inode n (\<lambda>held ino t. Some ((), di_init kind ino, t)) s = Some ((), s')"
    "inode_ok fs N n s'" "di_kind (ino_of n s') = kind" "di_size (ino_of n s') = 0" "ino_nodes (ino_of n s') s' = []"
    "\<And>j. j \<noteq> n \<Longrightarrow> inode_pos_ok fs j \<Longrightarrow> ino_of j s' = ino_of j s"
    "\<And>x. x \<noteq> in_block n \<Longrightarrow> s' ! x = s ! x" "length s' = length s"
proof -
  note blk = inode_block [OF inv pos]
  define ino where "ino = di_init kind (ino_of n s)"
  define s' where "s' = s[in_block n := di_put (in_offset n) ino (s ! in_block n)]"
  have dok: "di_ok ino"
    using di_ok_get [OF blk(2,3)] by (simp add: ino_def di_init_def di_ok_def di_words_def ino_of_def)
  have of: "ino_of n s' = ino" unfolding s'_def by (rule ino_of_update [OF inv pos dok])
  have b0: "di_size ino = 0" "di_kind ino = kind" by (simp_all add: ino_def di_init_def)
  then have nd: "ino_nodes ino s' = []" "di_blocks ino = 0"
    by (simp_all add: ino_nodes_def di_blocks_def count_data_block_def)
  have d: "disk_ok s'" "length s' = length s" using inv blk dok by (auto simp: s'_def efs_inv_def di_ok_def)
  have "inode_ok fs N n s'"
    using inv pos d dok by (simp add: inode_ok_def of nd efs_inv_def ino_ok_def)
  moreover have "modify_disk_inode n (\<lambda>held ino t. Some ((), di_init kind ino, t)) s = Some ((), s')"
    using blk by (simp add: modify_disk_inode_def s'_def ino_def ino_of_def)
  ultimately show ?thesis
    using that [of s'] of b0 nd ino_of_update_other [OF inv pos _ _ dok] d(2) by (simp add: s'_def)
qed

lemma entries_append:
  assumes "length bs mod 32 = 0" "length es = 32"
  shows "entries (bs @ es) = entries bs @ [de_of_bytes es]"
proof -
  let ?n = "length bs div 32"
  have l: "length bs = 32 * ?n" using assms(1) by auto
  have "entry k (bs @ es) = entry k bs" if "k < ?n" for k
  proof -
    have "32 * k + 32 \<le> length bs" using that l by linarith
    then show ?thesis by (simp add: entry_def)
  qed
  moreover have "entry ?n (bs @ es) = de_of_bytes es" using l assms(2) by (simp add: entry_def)
  moreover have "length (bs @ es) div 32 = Suc ?n" using assms by simp
  ultimately show ?thesis by (simp add: entries_def)
qed

text \<open>What creating an entry for the inode number \<open>k\<close> leaves of the directory \<open>i\<close>.\<close>

definition entry_added :: "efs \<Rightarrow> nat \<Rightarrow> inode \<Rightarrow> u8 list \<Rightarrow> nat \<Rightarrow> disk \<Rightarrow> disk \<Rightarrow> bool" where
  "entry_added fs N i name k s s' \<longleftrightarrow> inode_ok fs N i s' \<and> di_kind (ino_of i s') = Directory \<and>
     di_size (ino_of i s') mod 32 = 0 \<and> names_ok (dir_of i s') \<and>
     (\<forall>m. dir_lookup m (dir_of i s') = (if m = name then Some k else dir_lookup m (dir_of i s)))"

lemma append_entry_ok:
  assumes ok: "inode_ok fs N i s" and dir: "di_kind (ino_of i s) = Directory" "di_size (ino_of i s) mod 32 = 0"
      "names_ok (dir_of i s)" "dir_lookup name (dir_of i s) = None"
    and name: "utf8_valid name" "0 \<notin> set name" "length name \<le> 28" and k: "k < 2 ^ 32"
    and sz: "sz = di_size (ino_of i s) + 32" "sz < 2 ^ 32" "count_data_block sz \<le> INDIRECT3_BOUND"
    and free: "count_total_block sz - count_total_block (di_size (ino_of i s)) \<le> card (free_data fs N s)"
  obtains s' where "modify_disk_inode i (\<lambda>held dir_inode t. do {
           let file_count = di_size dir_inode div DIRENT_SIZE;
           let new_size = (file_count + 1) * DIRENT_SIZE;
           (dir1, t1) \<leftarrow> increase_size fs held (as_u32 new_size) dir_inode t;
           dirent \<leftarrow> de_new name k;
           (n, t2) \<leftarrow> di_write_at held dir1 (file_count * DIRENT_SIZE) (de_as_bytes dirent) t1;
           Some ((), dir1, t2)
         }) s = Some ((), s')" "op_done fs N i (ino_of i s') s s'" "entry_added fs N i name k s s'"
proof -
  let ?ino = "ino_of i s" and ?h = "[in_block i]"
  define d where "d = \<lparr>de_name = name @ replicate (28 - length name) 0, de_inode_number = k\<rparr>"
  note o = inode_okD [OF ok]
  have fc: "di_size ?ino div 32 * 32 = di_size ?ino" using dir(2) by auto
  have d: "de_new name k = Some d" using name(3) by (simp add: de_new_def splice_def d_def)
  have ld: "length (de_name d) = 28" using name(3) by (simp add: d_def)
  have lb: "length (de_as_bytes d) = 32" by (rule length_de_as_bytes [OF ld])
  have db: "de_of_bytes (de_as_bytes d) = d" using ld k by (intro de_of_as_bytes) (simp_all add: d_def)
  have dn: "de_name_str d = Some name" using de_name_str_padded [OF name(2)] name(1) by (simp add: d_def)
  have sz': "sz = di_size ?ino + length (de_as_bytes d)" "de_as_bytes d \<noteq> []" using sz(1) lb by auto
  obtain ino' s1 s2 where g: "increase_size fs ?h sz ?ino s = Some (ino', s1)"
    "di_write_at ?h ino' (di_size ?ino) (de_as_bytes d) s1 = Some (length (de_as_bytes d), s2)"
    "footprint ?h fs N ?ino ino' s s2" "di_size ino' = max (di_size ?ino) sz" "di_kind ino' = di_kind ?ino"
    "content ino' s2 = take (di_size ?ino) (content ?ino s) @ de_as_bytes d @ drop sz (content ?ino s)"
    by (rule grow_write_ok [OF o(1,2,5) sz'(1) sz(2,3) sz'(2) order_refl free])
  let ?f = "\<lambda>held dir_inode t. do {
           let file_count = di_size dir_inode div DIRENT_SIZE;
           let new_size = (file_count + 1) * DIRENT_SIZE;
           (dir1, t1) \<leftarrow> increase_size fs held (as_u32 new_size) dir_inode t;
           dirent \<leftarrow> de_new name k;
           (n, t2) \<leftarrow> di_write_at held dir1 (file_count * DIRENT_SIZE) (de_as_bytes dirent) t1;
           Some ((), dir1, t2)
         }"
  have "as_u32 ((di_size ?ino div 32 + 1) * 32) = sz" using sz(1,2) fc by (simp add: algebra_simps)
  then have run: "?f ?h ?ino s = Some ((), ino', s2)" using g(1,2) d fc by (simp add: Let_def)
  obtain s' where s': "modify_disk_inode i ?f s = Some ((), s')" "op_done fs N i ino' s s'" "vcontent i s' = content ino' s2"
    by (rule modify_ok [OF ok, where f = ?f, OF run g(3)])
  have oi: "inode_ok fs N i s'" "ino_of i s' = ino'" using s'(2) by (simp_all add: op_done_def)
  have lc: "length (vcontent i s) = di_size ?ino" using length_content [OF o(2)] by (simp add: vcontent_def)
  then have "vcontent i s' = vcontent i s @ de_as_bytes d" using s'(3) g(6) sz(1) by (simp add: vcontent_def)
  then have ds: "dir_of i s' = dir_of i s @ [d]"
    using entries_append [OF _ lb, of "vcontent i s"] lc dir(2) db by (simp add: dir_of_def)
  have "di_size ino' mod 32 = 0" using g(4) sz(1) dir(2) by (simp add: mod_add_eq [symmetric, of _ 32])
  then have "entry_added fs N i name k s s'"
    using oi g(5) dir dn by (auto simp: entry_added_def ds names_ok_def dir_lookup_append d_def split: option.splits)
  then show ?thesis using that s'(1,2) oi(2) by blast
qed

lemma used_inodes_frame:
  assumes "efs_geom fs N" "\<forall>x<fs_inode_area_start fs. s' ! x = s ! x"
  shows "used_inodes fs s' = used_inodes fs s"
proof -
  let ?bm = "fs_inode_bitmap fs"
  have "bm_bit ?bm s' c = bm_bit ?bm s c" if "c < bm_maximum ?bm" for c
  proof -
    have "c div 4096 < bm_blocks ?bm" using that by (simp add: bm_maximum_def div_less_iff_less_mult)
    then have "bm_start ?bm + c div 4096 < fs_inode_area_start fs" using assms(1) by (auto simp: efs_geom_def)
    then show ?thesis using assms(2) by (simp add: bm_bit_def)
  qed
  then show ?thesis by (auto simp: used_inodes_def)
qed

text \<open>The first half of \<open>create_inode\<close>: a fresh inode, everything else as before.\<close>

lemma fresh_inode_ok:
  assumes inv: "efs_inv [] fs N s" and free: "m < bm_maximum (fs_inode_bitmap fs)" "m \<notin> used_inodes fs s"
  obtains k s1 s2 where "alloc_inode [] fs s = Some (k, s1)" "k < 2 ^ 32" "k \<notin> used_inodes fs s"
    "modify_disk_inode (inode_at fs k) (\<lambda>held ino t. Some ((), di_init kind ino, t)) s1 = Some ((), s2)"
    "inode_ok fs N (inode_at fs k) s2" "di_kind (ino_of (inode_at fs k) s2) = kind" "di_size (ino_of (inode_at fs k) s2) = 0"
    "ino_nodes (ino_of (inode_at fs k) s2) s2 = []"
    "used_inodes fs s2 = insert k (used_inodes fs s)" "used_data fs s2 = used_data fs s"
    "\<And>q. q \<in> used_inodes fs s \<Longrightarrow> inode_at fs q \<noteq> inode_at fs k"
    "\<And>j. j \<noteq> inode_at fs k \<Longrightarrow> inode_ok fs N j s \<Longrightarrow> inode_ok fs N j s2 \<and> ino_of j s2 = ino_of j s \<and>
       vcontent j s2 = vcontent j s \<and> ino_nodes (ino_of j s2) s2 = ino_nodes (ino_of j s) s"
proof -
  have g: "efs_geom fs N" using inv by (simp add: efs_inv_def)
  obtain k s1 where a: "alloc_inode [] fs s = Some (k, s1)" "k < bm_maximum (fs_inode_bitmap fs)" "k \<notin> used_inodes fs s"
    "used_inodes fs s1 = insert k (used_inodes fs s)" "efs_inv [] fs N s1" "length s1 = length s"
    "\<forall>x. fs_inode_area_start fs \<le> x \<longrightarrow> s1 ! x = s ! x"
    by (rule alloc_inode_ok [OF inv free])
  let ?n = "inode_at fs k"
  note posn = inode_at_pos(3) [OF g a(2)]
  obtain s2 where t: "modify_disk_inode ?n (\<lambda>held ino t. Some ((), di_init kind ino, t)) s1 = Some ((), s2)"
    "inode_ok fs N ?n s2" "di_kind (ino_of ?n s2) = kind" "di_size (ino_of ?n s2) = 0" "ino_nodes (ino_of ?n s2) s2 = []"
    "\<And>j. j \<noteq> ?n \<Longrightarrow> inode_pos_ok fs j \<Longrightarrow> ino_of j s2 = ino_of j s1"
    "\<And>x. x \<noteq> in_block ?n \<Longrightarrow> s2 ! x = s1 ! x" "length s2 = length s1"
    by (rule init_inode_ok [OF a(5) posn, of kind]) blast
  have inv2: "efs_inv [] fs N s2" by (rule inode_okD(3) [OF t(2)])
  have pre: "ino_of j s2 = ino_of j s" if "j \<noteq> ?n" "inode_pos_ok fs j" for j
  proof -
    have "ino_of j s1 = ino_of j s" using a(7) that(2) by (simp add: ino_of_def inode_pos_ok_def inode_area_def)
    then show ?thesis using t(6) [OF that] by simp
  qed
  have same: "\<forall>x\<in>data_area fs N. s2 ! x = s ! x" "\<forall>x\<in>data_meta fs. s2 ! x = s ! x"
  proof -
    have "s2 ! x = s ! x" if "bm_start (fs_data_bitmap fs) \<le> x" for x
      using that g a(7) t(7) [of x] posn by (auto simp: efs_geom_def inode_pos_ok_def inode_area_def)
    then show "\<forall>x\<in>data_area fs N. s2 ! x = s ! x" "\<forall>x\<in>data_meta fs. s2 ! x = s ! x"
      using g by (auto simp: efs_geom_def data_area_def data_meta_def)
  qed
  note us = used_data_frame [OF same(2)]
  have kept: "inode_ok fs N j s2 \<and> ino_of j s2 = ino_of j s \<and> vcontent j s2 = vcontent j s \<and>
      ino_nodes (ino_of j s2) s2 = ino_nodes (ino_of j s) s" if "j \<noteq> ?n" "inode_ok fs N j s" for j
    using inode_kept [OF that(2) inv2 _ _ same(1)] pre [OF that(1)] inode_okD(4) [OF that(2)] us by blast
  have ne: "inode_at fs q \<noteq> ?n" if "q \<in> used_inodes fs s" for q
    using that a(2,3) inode_at_inj [OF g] by (auto simp: used_inodes_def)
  have "\<forall>x<fs_inode_area_start fs. s2 ! x = s1 ! x"
    using t(7) posn by (metis inode_pos_ok_def inode_area_def atLeastLessThan_iff not_less)
  from used_inodes_frame [OF g this] have ui: "used_inodes fs s2 = insert k (used_inodes fs s)" using a(4) by simp
  have "k < 2 ^ 32" using a(2) g by (simp add: efs_geom_def)
  then show ?thesis by (rule that [OF a(1) _ a(3) t(1-5) ui us ne kept])
qed

text \<open>C9: \<open>Inode::create_inode\<close> on a directory. If an entry has the name, nothing happens and \<open>None\<close> is
  returned. Otherwise, with a free inode and enough free data blocks, it returns an inode that
  was not in use, now empty and of the given kind; the directory finds it under the name and all
  other names as before; every other inode in use keeps its bytes, and the blocks of all inodes
  stay apart.\<close>

theorem create_inode_correct:
  fixes fs N s i
  defines "sz \<equiv> di_size (ino_of i s) + 32"
  assumes ok: "inode_ok fs N i s" "di_kind (ino_of i s) = Directory" "di_size (ino_of i s) mod 32 = 0" "names_ok (dir_of i s)"
    and i: "i = inode_at fs p" "p \<in> used_inodes fs s"
    and name: "utf8_valid name" "0 \<notin> set name" "length name \<le> 28"
    and free: "m < bm_maximum (fs_inode_bitmap fs)" "m \<notin> used_inodes fs s"
    and sz: "sz < 2 ^ 32" "count_data_block sz \<le> INDIRECT3_BOUND"
      "count_total_block sz - count_total_block (di_size (ino_of i s)) \<le> card (free_data fs N s)"
  shows "if dir_lookup name (dir_of i s) \<noteq> None then vfs_create_inode fs name kind i s = Some (None, s)
    else \<exists>k s'. vfs_create_inode fs name kind i s = Some (Some (inode_at fs k), s') \<and> k \<notin> used_inodes fs s \<and>
      used_inodes fs s' = insert k (used_inodes fs s) \<and> entry_added fs N i name k s s' \<and>
      inode_ok fs N (inode_at fs k) s' \<and> di_kind (ino_of (inode_at fs k) s') = kind \<and>
      di_size (ino_of (inode_at fs k) s') = 0 \<and>
      (\<forall>q\<in>used_inodes fs s. inode_at fs q \<noteq> i \<longrightarrow> inode_ok fs N (inode_at fs q) s \<longrightarrow>
         set (ino_nodes (ino_of (inode_at fs q) s) s) \<inter> set (ino_nodes (ino_of i s) s) = {} \<longrightarrow>
         inode_ok fs N (inode_at fs q) s' \<and> ino_of (inode_at fs q) s' = ino_of (inode_at fs q) s \<and>
         vcontent (inode_at fs q) s' = vcontent (inode_at fs q) s \<and>
         set (ino_nodes (ino_of (inode_at fs q) s') s') \<inter> set (ino_nodes (ino_of i s') s') = {})"
proof -
  note o = inode_okD [OF ok(1)]
  have g: "efs_geom fs N" using o(3) by (simp add: efs_inv_def)
  have b: "blk_read [] (in_block i) s = Some (s ! in_block i)" "in_offset i + 128 \<le> 512"
    using inode_block [OF o(3,4)] by simp_all
  have find: "read_disk_inode i (\<lambda>held ino. do { assert_opt (di_is_dir ino); find_inode_id name held ino s }) s =
      Some (dir_lookup name (dir_of i s))"
    using b find_inode_id_ok [OF o(2) ok(2), of name] ok(2,4)
    by (simp add: read_disk_inode_def dir_of_def vcontent_def di_is_dir_def flip: ino_of_def)
  show ?thesis
  proof (cases "dir_lookup name (dir_of i s) = None")
    case False
    then show ?thesis using find by (simp add: vfs_create_inode_def)
  next
    case True
    obtain k s1 s2 where a: "alloc_inode [] fs s = Some (k, s1)" "k < 2 ^ 32" "k \<notin> used_inodes fs s"
      "modify_disk_inode (inode_at fs k) (\<lambda>held ino t. Some ((), di_init kind ino, t)) s1 = Some ((), s2)"
      "inode_ok fs N (inode_at fs k) s2" "di_kind (ino_of (inode_at fs k) s2) = kind" "di_size (ino_of (inode_at fs k) s2) = 0"
      "ino_nodes (ino_of (inode_at fs k) s2) s2 = []"
      "used_inodes fs s2 = insert k (used_inodes fs s)" "used_data fs s2 = used_data fs s"
      and ne: "\<And>q. q \<in> used_inodes fs s \<Longrightarrow> inode_at fs q \<noteq> inode_at fs k"
      and kept: "\<And>j. j \<noteq> inode_at fs k \<Longrightarrow> inode_ok fs N j s \<Longrightarrow> inode_ok fs N j s2 \<and> ino_of j s2 = ino_of j s \<and>
         vcontent j s2 = vcontent j s \<and> ino_nodes (ino_of j s2) s2 = ino_nodes (ino_of j s) s"
      by (rule fresh_inode_ok [OF o(3) free, of kind]) (rule that; assumption)
    let ?n = "inode_at fs k"
    note ki = kept [OF ne [OF i(2), folded i(1)] ok(1)]
    have d2: "dir_of i s2 = dir_of i s" using ki by (simp add: dir_of_def)
    have fr: "free_data fs N s2 = free_data fs N s" using a(10) by (simp add: free_data_def)
    obtain s3 where e: "modify_disk_inode i (\<lambda>held dir_inode t. do {
           let file_count = di_size dir_inode div DIRENT_SIZE;
           let new_size = (file_count + 1) * DIRENT_SIZE;
           (dir1, t1) \<leftarrow> increase_size fs held (as_u32 new_size) dir_inode t;
           dirent \<leftarrow> de_new name k;
           (n, t2) \<leftarrow> di_write_at held dir1 (file_count * DIRENT_SIZE) (de_as_bytes dirent) t1;
           Some ((), dir1, t2)
         }) s2 = Some ((), s3)" "op_done fs N i (ino_of i s3) s2 s3" "entry_added fs N i name k s2 s3"
      by (rule append_entry_ok [of fs N i s2 name k sz]) (use ki ok True name sz a(2) d2 fr in \<open>simp_all add: sz_def\<close>)
    have run: "vfs_create_inode fs name kind i s = Some (Some ?n, s3)"
      using find True a(1,4) e(1) by (simp add: vfs_create_inode_def inode_at_def Let_def)
    have "?n \<noteq> i" using ne [OF i(2)] i(1) by auto
    then have n: "inode_ok fs N ?n s3" "ino_of ?n s3 = ino_of ?n s2"
      using e(2) a(5,8) unfolding op_done_def by auto
    have "used_inodes fs s3 = insert k (used_inodes fs s)"
      using used_inodes_frame [OF g, of s3 s2] e(2) a(9) by (simp add: op_done_def)
    moreover have "entry_added fs N i name k s s3" using e(3) d2 by (simp add: entry_added_def)
    moreover have "inode_ok fs N (inode_at fs q) s3 \<and> ino_of (inode_at fs q) s3 = ino_of (inode_at fs q) s \<and>
         vcontent (inode_at fs q) s3 = vcontent (inode_at fs q) s \<and>
         set (ino_nodes (ino_of (inode_at fs q) s3) s3) \<inter> set (ino_nodes (ino_of i s3) s3) = {}"
      if q: "q \<in> used_inodes fs s" "inode_at fs q \<noteq> i" "inode_ok fs N (inode_at fs q) s"
        "set (ino_nodes (ino_of (inode_at fs q) s) s) \<inter> set (ino_nodes (ino_of i s) s) = {}" for q
    proof -
      note kq = kept [OF ne [OF q(1)] q(3)]
      then show ?thesis using e(2) q(2,4) ki unfolding op_done_def by metis
    qed
    moreover have "di_kind (ino_of ?n s3) = kind" "di_size (ino_of ?n s3) = 0" using a(6,7) n(2) by simp_all
    moreover have nt: "\<not> dir_lookup name (dir_of i s) \<noteq> None" using True by simp
    ultimately show ?thesis unfolding if_not_P [OF nt] using run a(3) n(1) by blast
  qed
qed

end
