(* ===== verification/EfsCreate.thy ===== *)
theory EfsCreate
  imports VfsDir
begin

text \<open>
  Making and opening a file system (\<open>EasyFileSystem::create\<close> and \<open>open\<close> in \<open>easy-fs/src/efs.rs\<close>): the
  new disk has the layout the other operations rely on, no data block and only the root inode in
  use, the root an empty directory, and opening it gives the same file system.
\<close>

lemma clear_blocks_ok:
  "n \<le> length s \<Longrightarrow> clear_blocks n s = Some (replicate n (replicate 512 0) @ drop n s)"
proof (induction n)
  case 0
  then show ?case by (simp add: clear_blocks_def)
next
  case (Suc n)
  let ?z = "replicate 512 (0 :: u8)"
  have "drop n s = s ! n # drop (Suc n) s" using Suc.prems by (simp add: Cons_nth_drop_Suc)
  then have "(replicate n ?z @ drop n s)[n := ?z] = replicate (Suc n) ?z @ drop (Suc n) s"
    by (simp add: list_update_append replicate_app_Cons_same)
  then show ?case using Suc by (simp add: clear_blocks_def)
qed

text \<open>The layout \<open>create\<close> computes, without wrap-around.\<close>

definition data_blocks_of :: "nat \<Rightarrow> nat \<Rightarrow> nat" where
  "data_blocks_of total_blocks ib = total_blocks - 1 - 1025 * ib"

definition layout_of :: "nat \<Rightarrow> nat \<Rightarrow> efs" where
  "layout_of total_blocks ib = (let db = (data_blocks_of total_blocks ib + 4096) div 4097 in
     \<lparr>fs_inode_bitmap = bm_new 1 ib, fs_data_bitmap = bm_new (1 + 1025 * ib) db,
      fs_inode_area_start = 1 + ib, fs_data_area_start = 1 + 1025 * ib + db\<rparr>)"

definition super_of :: "nat \<Rightarrow> nat \<Rightarrow> super_block" where
  "super_of total_blocks ib = (let dt = data_blocks_of total_blocks ib; db = (dt + 4096) div 4097
     in sb_init total_blocks ib (1024 * ib) db (dt - db))"

lemma layout_bounds:
  fixes total_blocks ib :: nat
  defines "dt \<equiv> data_blocks_of total_blocks ib"
  defines "db \<equiv> (dt + 4096) div 4097"
  assumes "1 + 1025 * ib < total_blocks" "total_blocks + 4096 < 2 ^ 32"
  shows "total_blocks = 1 + 1025 * ib + dt" "0 < dt" "db \<le> dt" "dt - db \<le> 4096 * db" "4096 * db < 2 ^ 32" "0 < db"
proof -
  show t: "total_blocks = 1 + 1025 * ib + dt" "0 < dt" using assms(3) by (simp_all add: dt_def data_blocks_of_def)
  have d: "db * 4097 \<le> dt + 4096" "dt + 4096 < (db + 1) * 4097"
    unfolding db_def by (simp_all add: div_times_less_eq_dividend dividend_less_div_times)
  then show "db \<le> dt" "dt - db \<le> 4096 * db" "0 < db" using t(2) by auto
  show "4096 * db < 2 ^ 32" using d(1) t(1) assms(4) by simp
qed

lemma u32_sub_le: "b \<le> a \<Longrightarrow> a < 2 ^ 32 \<Longrightarrow> u32_sub a b = a - b"
  by (auto simp: u32_sub_def as_u32_def mod_if)

lemma layout_geom:
  assumes "1 + 1025 * ib < total_blocks" "total_blocks + 4096 < 2 ^ 32" "ib < 2 ^ 20"
  shows "efs_geom (layout_of total_blocks ib) total_blocks"
proof -
  define dt where "dt = data_blocks_of total_blocks ib"
  define db where "db = (dt + 4096) div 4097"
  note b = layout_bounds [OF assms(1,2), folded dt_def, folded db_def]
  have "fs_data_bitmap (layout_of total_blocks ib) = \<lparr>bm_start = 1 + 1025 * ib, bm_blocks = db\<rparr>"
    "fs_inode_bitmap (layout_of total_blocks ib) = \<lparr>bm_start = 1, bm_blocks = ib\<rparr>"
    "fs_inode_area_start (layout_of total_blocks ib) = 1 + ib"
    "fs_data_area_start (layout_of total_blocks ib) = 1 + 1025 * ib + db"
    by (simp_all add: layout_of_def Let_def bm_new_def db_def dt_def)
  then show ?thesis using b assms by (simp add: efs_geom_def bm_maximum_def)
qed

lemma create_unfold:
  assumes "1 + 1025 * ib < total_blocks" "total_blocks + 4096 < 2 ^ 32" "length s = total_blocks"
  shows "efs_create total_blocks ib s = do {
     let fs = layout_of total_blocks ib;
     (i, s3) \<leftarrow> alloc_inode [] fs ((blank_disk total_blocks)[0 := sb_put (super_of total_blocks ib) (replicate 512 0)]);
     assert_opt (i = 0);
     rb \<leftarrow> blk_read [] (1 + ib) s3;
     s4 \<leftarrow> blk_write [] (1 + ib) (di_put 0 (di_init Directory (di_get 0 rb)) rb) s3;
     Some (fs, s4)
   }"
proof -
  define dt where "dt = data_blocks_of total_blocks ib"
  define db where "db = (dt + 4096) div 4097"
  note b = layout_bounds [OF assms(1,2), folded dt_def, folded db_def]
  have c: "clear_blocks total_blocks s = Some (blank_disk total_blocks)"
    using clear_blocks_ok [of total_blocks s] assms(3) by (simp add: blank_disk_def)
  have ia: "div_ceil (bm_maximum (bm_new 1 ib) * 128) 512 = 1024 * ib"
    by (simp add: bm_maximum_def bm_new_def div_ceil_def)
  have u: "as_u32 (1024 * ib) = 1024 * ib" "as_u32 (ib + 1024 * ib) = 1025 * ib" "as_u32 (1 + ib) = 1 + ib"
    "u32_sub (u32_sub total_blocks 1) (1025 * ib) = dt" "as_u32 (dt + 4096) = dt + 4096" "u32_sub dt db = dt - db"
    "as_u32 (1 + ib + 1024 * ib) = 1 + 1025 * ib" "as_u32 (1 + 1025 * ib) = 1 + 1025 * ib"
    "as_u32 (1 + 1025 * ib + db) = 1 + 1025 * ib + db"
    using assms(1,2) b by (simp_all add: u32_sub_le)
  define fs where "fs = layout_of total_blocks ib"
  have fs: "\<lparr>fs_inode_bitmap = bm_new 1 ib, fs_data_bitmap = bm_new (1 + 1025 * ib) db,
      fs_inode_area_start = 1 + ib, fs_data_area_start = 1 + 1025 * ib + db\<rparr> = fs"
    by (simp only: fs_def layout_of_def Let_def dt_def db_def)
  have sb: "sb_init total_blocks ib (1024 * ib) db (dt - db) = super_of total_blocks ib"
    by (simp only: super_of_def Let_def dt_def db_def)
  have pos: "disk_inode_position fs 0 = (1 + ib, 0)"
    using u(3) by (simp add: disk_inode_position_def fs_def layout_of_def Let_def)
  have r0: "blk_read [] 0 (blank_disk total_blocks) = Some (replicate 512 0)"
    using assms(1) by (simp add: blank_disk_def)
  have w0: "blk_write [] 0 x (blank_disk total_blocks) = Some ((blank_disk total_blocks)[0 := x])" for x
    using assms(1) by simp
  show ?thesis
    unfolding efs_create_def Let_def fs_consts layout_sizes ia u db_def [symmetric] fs sb c fs_def [symmetric] pos
    by (simp only: Option.bind.simps r0 w0 prod.case)
qed

lemma blank_bit:
  assumes "bm_start bm + c div 4096 < length s" "s ! (bm_start bm + c div 4096) = replicate 512 0"
  shows "\<not> bm_bit bm s c"
  using assms by (simp add: bm_bit_def blank_words less_mult_imp_div_less)

lemma super_round_trip:
  assumes "1 + 1025 * ib < total_blocks" "total_blocks + 4096 < 2 ^ 32"
  shows "sb_get (sb_put (super_of total_blocks ib) (replicate 512 0)) = super_of total_blocks ib"
    "length (sb_put (super_of total_blocks ib) (replicate 512 0)) = 512"
proof -
  have b: "sb_total_blocks (super_of total_blocks ib) < 2 ^ 32" "sb_inode_bitmap_blocks (super_of total_blocks ib) < 2 ^ 32"
    "sb_inode_area_blocks (super_of total_blocks ib) < 2 ^ 32" "sb_data_bitmap_blocks (super_of total_blocks ib) < 2 ^ 32"
    "sb_data_area_blocks (super_of total_blocks ib) < 2 ^ 32" "sb_magic (super_of total_blocks ib) < 2 ^ 32"
    using layout_bounds [OF assms] assms by (simp_all add: super_of_def Let_def sb_init_def EFS_MAGIC_def)
  note r = sb_round_trip_aux [OF length_replicate b(6,1-5), of 0]
  show "sb_get (sb_put (super_of total_blocks ib) (replicate 512 0)) = super_of total_blocks ib"
    "length (sb_put (super_of total_blocks ib) (replicate 512 0)) = 512" by (rule r)+
qed

lemma open_layout:
  assumes "1 + 1025 * ib < total_blocks" "total_blocks + 4096 < 2 ^ 32" "0 < length s"
    and "s ! 0 = sb_put (super_of total_blocks ib) (replicate 512 0)"
  shows "efs_open s = Some (layout_of total_blocks ib)"
proof -
  define dt where "dt = data_blocks_of total_blocks ib"
  define db where "db = (dt + 4096) div 4097"
  note b = layout_bounds [OF assms(1,2), folded dt_def, folded db_def]
  have u: "as_u32 (1025 * ib) = 1025 * ib" "as_u32 (1 + ib) = 1 + ib" "as_u32 (1 + 1025 * ib) = 1 + 1025 * ib"
    "as_u32 (1 + 1025 * ib + db) = 1 + 1025 * ib + db"
    using assms(1,2) b by simp_all
  have sb: "sb_is_valid (super_of total_blocks ib)" "sb_inode_bitmap_blocks (super_of total_blocks ib) = ib"
    "sb_inode_area_blocks (super_of total_blocks ib) = 1024 * ib" "sb_data_bitmap_blocks (super_of total_blocks ib) = db"
    "ib + 1024 * ib = 1025 * ib"
    by (simp_all add: super_of_def Let_def sb_init_def sb_is_valid_def dt_def db_def)
  have r: "blk_read [] 0 s = Some (sb_put (super_of total_blocks ib) (replicate 512 0))"
    using assms(3,4) by simp
  show ?thesis
    unfolding efs_open_def r Option.bind.simps super_round_trip(1) [OF assms(1,2)] Let_def sb(2-) u
      layout_of_def dt_def [symmetric] db_def [symmetric]
    using sb(1) by simp
qed

lemma create_ok:
  assumes "1 + 1025 * ib < total_blocks" "total_blocks + 4096 < 2 ^ 32" "0 < ib" "ib < 2 ^ 20" "length s = total_blocks"
  obtains s' where "efs_create total_blocks ib s = Some (layout_of total_blocks ib, s')"
    "efs_inv [] (layout_of total_blocks ib) total_blocks s'" "efs_open s' = Some (layout_of total_blocks ib)"
    "used_data (layout_of total_blocks ib) s' = {}" "used_inodes (layout_of total_blocks ib) s' = {0}"
    "ino_of (inode_at (layout_of total_blocks ib) 0) s' = empty_inode\<lparr>di_kind := Directory\<rparr>"
proof -
  let ?fs = "layout_of total_blocks ib" and ?z = "replicate 512 (0 :: u8)"
  let ?sb = "sb_put (super_of total_blocks ib) ?z"
  define s2 where "s2 = (blank_disk total_blocks)[0 := ?sb]"
  note g = layout_geom [OF assms(1,2,4)] and sb = super_round_trip [OF assms(1,2)]
  have bm: "fs_inode_bitmap ?fs = \<lparr>bm_start = 1, bm_blocks = ib\<rparr>" "fs_inode_area_start ?fs = 1 + ib"
    by (simp_all add: layout_of_def Let_def bm_new_def)
  have l2: "length s2 = total_blocks" "disk_ok s2" using sb(2) by (simp_all add: s2_def)
  have z2: "s2 ! x = ?z" if "0 < x" "x < total_blocks" for x using that by (simp add: s2_def blank_disk_def)
  have inv2: "efs_inv [] ?fs total_blocks s2" using g l2 by (simp add: efs_inv_def)
  have nb: "\<not> bm_bit (fs_inode_bitmap ?fs) s2 c" if "c < bm_maximum (fs_inode_bitmap ?fs)" for c
  proof -
    have "c div 4096 < ib" using that by (simp add: bm bm_maximum_def div_less_iff_less_mult)
    then show ?thesis using assms(1) l2 by (intro blank_bit) (simp_all add: bm z2)
  qed
  have "bm_ok [] (fs_inode_bitmap ?fs) s2" using assms(1) l2 by (simp add: bm_ok_def bm)
  then obtain r s3 where a: "bm_alloc [] (fs_inode_bitmap ?fs) s2 = Some (r, s3)" "bm_ok [] (fs_inode_bitmap ?fs) s3"
    "length s3 = length s2" "alloc_result (fs_inode_bitmap ?fs) 0 s2 r s3" by (rule bm_alloc_spec)
  have n0: "\<not> bm_bit (fs_inode_bitmap ?fs) s2 0" using nb assms(3) by (simp add: bm bm_maximum_def)
  have n0': "0 < bm_maximum (fs_inode_bitmap ?fs)" using assms(3) by (simp add: bm bm_maximum_def)
  from n0 have r: "r = Some 0" using a(4) assms(3) by (cases r) (force simp: alloc_result_def bm)+
  have fr: "\<forall>p. p \<noteq> 1 \<longrightarrow> s3 ! p = s2 ! p" and bits: "\<forall>c. bm_bit (fs_inode_bitmap ?fs) s3 c \<longleftrightarrow> c = 0 \<or> bm_bit (fs_inode_bitmap ?fs) s2 c"
    using a(4) by (simp_all add: alloc_result_def r bm)
  have al: "alloc_inode [] ?fs s2 = Some (0, s3)" using a(1) r by (simp add: alloc_inode_def)
  have rb: "s3 ! (1 + ib) = ?z" "1 + ib < length s3" using fr z2 [of "1 + ib"] assms(1,3) a(3) l2 by auto
  define ino where "ino = empty_inode\<lparr>di_kind := Directory\<rparr>"
  have io: "di_init Directory (di_get 0 ?z) = ino"
    by (simp add: blank_inode ino_def di_init_def empty_inode_def)
  define s4 where "s4 = s3[1 + ib := di_put 0 ino ?z]"
  have run: "efs_create total_blocks ib s = Some (?fs, s4)"
    unfolding create_unfold [OF assms(1,2,5)] Let_def s2_def [symmetric] al
    using rb io by (simp add: s4_def)
  have d4: "disk_ok s4" "length s4 = total_blocks"
    using a(2,3) l2(1) by (simp_all add: s4_def bm_ok_def ino_def empty_inode_def)
  have inv4: "efs_inv [] ?fs total_blocks s4" using g d4 by (simp add: efs_inv_def)
  have x4: "s4 ! x = s2 ! x" if "x \<noteq> 1" "x \<noteq> 1 + ib" for x using fr that by (simp add: s4_def)
  have op: "efs_open s4 = Some ?fs"
    by (rule open_layout [OF assms(1,2)]) (use d4 assms(1,3) x4 in \<open>simp_all add: s2_def\<close>)
  have "used_inodes ?fs s4 = used_inodes ?fs s3"
    by (rule used_inodes_frame [OF g]) (simp add: bm s4_def)
  then have ui: "used_inodes ?fs s4 = {0}"
    unfolding used_inodes_def using bits n0' nb by blast
  have ud: "used_data ?fs s4 = {}"
  proof -
    have "\<not> bm_bit (fs_data_bitmap ?fs) s4 c" if "c < bm_maximum (fs_data_bitmap ?fs)" for c
    proof -
      let ?x = "bm_start (fs_data_bitmap ?fs) + c div 4096"
      have "c div 4096 < bm_blocks (fs_data_bitmap ?fs)" using that by (simp add: bm_maximum_def div_less_iff_less_mult)
      then have x: "?x < total_blocks" "1 + ib < ?x"
        using g assms(3) by (auto simp: efs_geom_def layout_of_def Let_def bm_new_def)
      have "s4 ! ?x = s2 ! ?x" by (rule x4) (use x(2) in linarith)+
      moreover have "s2 ! ?x = ?z" by (rule z2) (use x in linarith)+
      ultimately have "s4 ! ?x = ?z" by (rule trans)
      then show ?thesis using d4(2) x(1) by (intro blank_bit) simp_all
    qed
    then show ?thesis by (auto simp: used_data_def)
  qed
  from inode_at_pos(1,2) [OF g n0'] have "ino_of (inode_at ?fs 0) s4 = di_get 0 (di_put 0 ino ?z)"
    using rb(2) by (simp add: ino_of_def s4_def bm)
  moreover have "di_get 0 (di_put 0 ino ?z) = ino"
    by (rule di_get_put) (simp_all add: ino_def empty_inode_def di_ok_def di_words_def)
  ultimately show ?thesis using that run inv4 op ud ui ino_def by simp
qed

lemma root_ok:
  assumes "efs_inv [] fs N s" "0 \<in> used_inodes fs s" "ino_of (inode_at fs 0) s = empty_inode\<lparr>di_kind := Directory\<rparr>"
  shows "inode_ok fs N (inode_at fs 0) s" "vcontent (inode_at fs 0) s = []"
proof -
  let ?ino = "empty_inode\<lparr>di_kind := Directory\<rparr>"
  have pos: "inode_pos_ok fs (inode_at fs 0)"
    using assms(1,2) by (intro inode_at_pos(3) [of _ N]) (auto simp: efs_inv_def used_inodes_def)
  have n: "ino_nodes ?ino s = []" "content ?ino s = []"
    by (simp_all add: ino_nodes_def di_blocks_def count_data_block_def div_ceil_def empty_inode_def content_def)
  have "ino_ok [in_block (inode_at fs 0)] ?ino s"
    unfolding ino_ok_def n using assms(1) by (simp add: di_ok_def di_words_def di_blocks_def count_data_block_def empty_inode_def efs_inv_def)
  then show "inode_ok fs N (inode_at fs 0) s" unfolding inode_ok_def assms(3) n using pos assms(1) by simp
  show "vcontent (inode_at fs 0) s = []" by (simp add: vcontent_def assms(3) n)
qed

text \<open>C15: \<open>EasyFileSystem::create\<close> with room for the areas does not panic, and leaves a disk on which
  the invariant of the file system holds, no data block and only inode 0 is in use, and inode 0
  is an empty directory; \<open>EasyFileSystem::open\<close> of this disk returns the same file system.\<close>

theorem create_then_open:
  assumes "1 + 1025 * ib < total_blocks" "total_blocks + 4096 < 2 ^ 32" "0 < ib" "ib < 2 ^ 20" "length s = total_blocks"
  shows "\<exists>fs s'. efs_create total_blocks ib s = Some (fs, s') \<and> efs_open s' = Some fs \<and>
    efs_inv [] fs total_blocks s' \<and> free_data fs total_blocks s' = data_area fs total_blocks \<and>
    used_inodes fs s' = {0} \<and> inode_ok fs total_blocks (root_inode fs) s' \<and>
    di_kind (ino_of (root_inode fs) s') = Directory \<and> vcontent (root_inode fs) s' = []"
proof -
  let ?fs = "layout_of total_blocks ib"
  obtain s' where c: "efs_create total_blocks ib s = Some (?fs, s')" "efs_inv [] ?fs total_blocks s'" "efs_open s' = Some ?fs"
    "used_data ?fs s' = {}" "used_inodes ?fs s' = {0}" "ino_of (inode_at ?fs 0) s' = empty_inode\<lparr>di_kind := Directory\<rparr>"
    by (rule create_ok [OF assms])
  have r: "root_inode ?fs = inode_at ?fs 0" by (simp add: root_inode_def inode_at_def)
  have "0 \<in> used_inodes ?fs s'" using c(5) by simp
  then show ?thesis using c r root_ok [OF c(2) _ c(6)] by (simp add: free_data_def)
qed

theorem create_then_open_witness:
  "\<exists>fs s'. efs_create 2000 1 (blank_disk 2000) = Some (fs, s') \<and> efs_open s' = Some fs \<and> used_inodes fs s' = {0}"
  using create_then_open [of 1 2000 "blank_disk 2000"] by (auto simp: blank_disk_def)

lemma fresh_fs:
  obtains fs s where "inode_ok fs 2000 (inode_at fs 0) s" "used_inodes fs s = {0}"
    "ino_of (inode_at fs 0) s = empty_inode\<lparr>di_kind := Directory\<rparr>" "dir_of (inode_at fs 0) s = []"
    "card (free_data fs 2000 s) = 973" "bm_maximum (fs_inode_bitmap fs) = 4096"
proof -
  let ?fs = "layout_of 2000 1"
  have l: "length (blank_disk 2000) = 2000" by (simp add: blank_disk_def)
  obtain s where c: "efs_inv [] ?fs 2000 s" "used_data ?fs s = {}" "used_inodes ?fs s = {0}"
    "ino_of (inode_at ?fs 0) s = empty_inode\<lparr>di_kind := Directory\<rparr>"
    by (rule create_ok [OF _ _ _ _ l, of 1]) (simp_all only:, simp_all)
  have "0 \<in> used_inodes ?fs s" using c(3) by simp
  then have r: "inode_ok ?fs 2000 (inode_at ?fs 0) s" "dir_of (inode_at ?fs 0) s = []"
    using root_ok [OF c(1) _ c(4)] by (simp_all add: dir_of_def entries_def)
  have "card (free_data ?fs 2000 s) = 973" "bm_maximum (fs_inode_bitmap ?fs) = 4096"
    unfolding free_data_def c(2) by (simp_all add: data_area_def layout_of_def Let_def data_blocks_of_def bm_maximum_def bm_new_def)
  then show ?thesis by (rule that [OF r(1) c(3,4) r(2)])
qed

theorem vfs_find_witness: "\<exists>fs i s. inode_ok fs 2000 i s \<and> vfs_find fs dot i s = Some None"
proof -
  obtain fs s where f: "inode_ok fs 2000 (inode_at fs 0) s"
    "ino_of (inode_at fs 0) s = empty_inode\<lparr>di_kind := Directory\<rparr>" "dir_of (inode_at fs 0) s = []"
    by (rule fresh_fs)
  have "names_ok (dir_of (inode_at fs 0) s)" by (simp add: f names_ok_def)
  from vfs_find_correct [OF f(1) this, of dot] show ?thesis using f by auto
qed

theorem create_inode_witness:
  "\<exists>fs i s k s'. vfs_create_inode fs [97] File i s = Some (Some (inode_at fs k), s') \<and> k \<noteq> 0 \<and> entry_added fs 2000 i [97] k s s'"
proof -
  obtain fs s where f: "inode_ok fs 2000 (inode_at fs 0) s" "used_inodes fs s = {0}" "ino_of (inode_at fs 0) s = empty_inode\<lparr>di_kind := Directory\<rparr>"
    "dir_of (inode_at fs 0) s = []" "card (free_data fs 2000 s) = 973" "bm_maximum (fs_inode_bitmap fs) = 4096"
    by (rule fresh_fs)
  have sz: "di_size (ino_of (inode_at fs 0) s) = 0" "di_kind (ino_of (inode_at fs 0) s) = Directory" by (simp_all add: f empty_inode_def)
  have cd: "count_data_block 32 = 1" "count_data_block 0 = 0" by (simp_all add: count_data_block_def div_ceil_def)
  have ct: "count_total_block 32 = 1" "count_total_block 0 = 0"
    using count_total_levels [of 32 empty_inode] count_total_levels [of 0 empty_inode] by (simp_all add: cd di_levels_def)
  have u: "utf8_valid [97]" by code_simp
  have n: "names_ok (dir_of (inode_at fs 0) s)" by (simp add: f names_ok_def)
  have "(0 :: u8) \<notin> set [97]" "length [97 :: u8] \<le> 28" by simp_all
  from create_inode_correct [OF f(1) sz(2) _ n refl _ u this, of 1 File]
  have "\<exists>k s'. vfs_create_inode fs [97] File (inode_at fs 0) s = Some (Some (inode_at fs k), s') \<and> k \<noteq> 0 \<and>
      entry_added fs 2000 (inode_at fs 0) [97] k s s'"
    using f(2,4,5,6) sz(1) cd ct by (auto simp: INDIRECT3_BOUND_def)
  then show ?thesis by blast
qed

end
