(* ===== verification/UpCell.thy ===== *)
theory UpCell
  imports Prelude
begin

text \<open>
  \<open>kernel/src/sync/up.rs\<close>: the cells that guard all kernel data on the single hart. A guard
  disables supervisor interrupts while it lives; \<open>IntrMaskingInfo\<close> counts the guards and
  restores the interrupt enable bit of \<open>sstatus\<close> when the last one goes. Cells are numbered;
  \<open>borrowed\<close> holds the cells with a live guard, and a second \<open>borrow_mut\<close> panics.
\<close>

section \<open>Masking\<close>

record intr_masking_info =
  nested_level :: nat
  sie_before_masking :: bool

definition imi_new :: intr_masking_info where
  "imi_new = \<lparr>nested_level = 0, sie_before_masking = False\<rparr>"

text \<open>The second component is the bit \<open>sstatus.SIE\<close>.\<close>

definition imi_enter :: "intr_masking_info \<times> bool \<Rightarrow> intr_masking_info \<times> bool" where
  "imi_enter s = (case s of (i, sie) \<Rightarrow>
     let i = (if nested_level i = 0 then i\<lparr>sie_before_masking := sie\<rparr> else i)
     in (i\<lparr>nested_level := (nested_level i + 1) mod 2 ^ 64\<rparr>, False))"

definition imi_exit :: "intr_masking_info \<times> bool \<Rightarrow> intr_masking_info \<times> bool" where
  "imi_exit s = (case s of (i, sie) \<Rightarrow>
     let i = i\<lparr>nested_level := (nested_level i + (2 ^ 64 - 1)) mod 2 ^ 64\<rparr>
     in (i, if nested_level i = 0 \<and> sie_before_masking i then True else sie))"

section \<open>Cells\<close>

record cells =
  masking :: "intr_masking_info \<times> bool"
  borrowed :: "nat list"

definition exclusive_access :: "nat \<Rightarrow> cells \<Rightarrow> cells option" where
  "exclusive_access c s = do {
     let s = s\<lparr>masking := imi_enter (masking s)\<rparr>;
     assert_opt (c \<notin> set (borrowed s));
     Some (s\<lparr>borrowed := c # borrowed s\<rparr>)
   }"

definition drop_guard :: "nat \<Rightarrow> cells \<Rightarrow> cells" where
  "drop_guard c s = s\<lparr>borrowed := remove1 c (borrowed s), masking := imi_exit (masking s)\<rparr>"

definition exclusive_session :: "nat \<Rightarrow> (cells \<Rightarrow> ('v \<times> cells) option) \<Rightarrow> cells \<Rightarrow> ('v \<times> cells) option" where
  "exclusive_session c f s = do {
     s1 \<leftarrow> exclusive_access c s;
     (v, s2) \<leftarrow> f s1;
     Some (v, drop_guard c s2)
   }"

section \<open>Every order of taking and dropping guards\<close>

text \<open>The kernel has fewer than \<open>n\<close> cells; guards are taken and dropped in any order.\<close>

inductive cells_run :: "nat \<Rightarrow> bool \<Rightarrow> cells \<Rightarrow> bool" for n sie where
  start: "cells_run n sie \<lparr>masking = (imi_new, sie), borrowed = []\<rparr>"
| access: "cells_run n sie s \<Longrightarrow> c < n \<Longrightarrow> exclusive_access c s = Some s' \<Longrightarrow> cells_run n sie s'"
| guard_drop: "cells_run n sie s \<Longrightarrow> c \<in> set (borrowed s) \<Longrightarrow> cells_run n sie (drop_guard c s)"

definition cells_inv :: "nat \<Rightarrow> bool \<Rightarrow> cells \<Rightarrow> bool" where
  "cells_inv n sie0 s \<longleftrightarrow> distinct (borrowed s) \<and> set (borrowed s) \<subseteq> {..<n} \<and>
     nested_level (fst (masking s)) = length (borrowed s) \<and>
     (if borrowed s = [] then snd (masking s) = sie0
      else \<not> snd (masking s) \<and> sie_before_masking (fst (masking s)) = sie0)"

lemma borrowed_le:
  assumes "distinct xs" "set xs \<subseteq> {..<n}"
  shows "length xs \<le> n"
  using card_mono [OF _ assms(2)] distinct_card [OF assms(1)] by simp

lemma access_inv:
  assumes "cells_inv n sie0 s" "c < n" "n < 2 ^ 64" "exclusive_access c s = Some s'"
  shows "cells_inv n sie0 s'"
proof -
  obtain i b where m: "masking s = (i, b)" by fastforce
  have c: "c \<notin> set (borrowed s)" and s': "s' = s\<lparr>masking := imi_enter (i, b), borrowed := c # borrowed s\<rparr>"
    using assms(4) by (auto simp: exclusive_access_def m Let_def split: if_splits)
  have "length (c # borrowed s) \<le> n" using assms(1,2) c by (intro borrowed_le) (auto simp: cells_inv_def)
  then have "(length (borrowed s) + 1) mod 2 ^ 64 = length (borrowed s) + 1" using assms(3) by simp
  then show ?thesis using assms(1,2) c by (auto simp: s' cells_inv_def imi_enter_def m Let_def split: if_splits)
qed

lemma drop_inv:
  assumes "cells_inv n sie0 s" "c \<in> set (borrowed s)" "n < 2 ^ 64"
  shows "cells_inv n sie0 (drop_guard c s)"
proof -
  obtain i b where m: "masking s = (i, b)" by fastforce
  have inv: "distinct (borrowed s)" "set (borrowed s) \<subseteq> {..<n}" "nested_level i = length (borrowed s)" "borrowed s \<noteq> []"
    "\<not> b" "sie_before_masking i = sie0" using assms(1,2) by (auto simp: cells_inv_def m split: if_splits)
  have l: "length (borrowed s) = Suc (length (remove1 c (borrowed s)))"
    using assms(2) inv(4) by (simp add: length_remove1)
  have "length (borrowed s) \<le> n" by (rule borrowed_le [OF inv(1,2)])
  then have "length (remove1 c (borrowed s)) < 2 ^ 64" using assms(3) l by linarith
  then have e: "nested_level i + (2 ^ 64 - 1) = length (remove1 c (borrowed s)) + 2 ^ 64" "length (remove1 c (borrowed s)) mod 2 ^ 64 = length (remove1 c (borrowed s))"
    using inv(3) l by simp_all
  have "(nested_level i + (2 ^ 64 - 1)) mod 2 ^ 64 = length (remove1 c (borrowed s))"
    unfolding e(1) mod_add_self2 by (rule e(2))
  then have "imi_exit (masking s) = (i\<lparr>nested_level := length (remove1 c (borrowed s))\<rparr>, remove1 c (borrowed s) = [] \<and> sie0)"
    unfolding imi_exit_def m using inv by (simp add: Let_def del: One_nat_def)
  then show ?thesis using inv set_remove1_subset [of c "borrowed s"]
    by (auto simp: cells_inv_def drop_guard_def distinct_remove1)
qed

text \<open>C20: Guards in any order. At every moment supervisor interrupts are disabled while a guard
  lives, and have their original setting when none does; taking a guard panics exactly when the
  cell already has one.\<close>

theorem guards_mask_interrupts:
  assumes "cells_run n sie s" "n < 2 ^ 64"
  shows "(if borrowed s = [] then snd (masking s) = sie else \<not> snd (masking s)) \<and>
    (exclusive_access c s = None \<longleftrightarrow> c \<in> set (borrowed s))"
proof -
  from assms(1) have "cells_inv n sie s"
  proof induction
    case start
    then show ?case by (simp add: cells_inv_def imi_new_def)
  next
    case (access s c s')
    then show ?case using access_inv assms(2) by blast
  next
    case (guard_drop s c)
    then show ?case using drop_inv assms(2) by blast
  qed
  then show ?thesis by (auto simp: cells_inv_def exclusive_access_def Let_def)
qed

theorem guards_mask_interrupts_witness:
  "\<exists>s. cells_run 2 True s \<and> borrowed s = [0] \<and> \<not> snd (masking s) \<and> exclusive_access 0 s = None"
proof -
  let ?s = "\<lparr>masking = imi_enter (imi_new, True), borrowed = [0]\<rparr>"
  have "exclusive_access 0 \<lparr>masking = (imi_new, True), borrowed = []\<rparr> = Some ?s" by (simp add: exclusive_access_def)
  then have "cells_run 2 True ?s" using cells_run.access [OF cells_run.start, of 0 2 True] by simp
  from guards_mask_interrupts [OF this, of 0] show ?thesis using \<open>cells_run 2 True ?s\<close> by (intro exI [of _ ?s]) simp
qed

end
