(* ===== verification/UserMem.thy ===== *)
theory UserMem
  imports MemorySet
begin

text \<open>
  Access to user memory from the kernel: \<open>translated_byte_buffer\<close>, \<open>translated_str\<close>,
  \<open>translated_ref\<close>, \<open>translated_mut_ref\<close> and \<open>UserBuffer\<close> of \<open>kernel/src/mm/mod.rs\<close>. A
  slice of a frame is its frame number with a range of offsets. The two loops need not end, so
  they are partial functions: the outer \<open>None\<close> is a run that does not end, \<open>Some None\<close> a panic.
\<close>

section \<open>Bytes of physical memory\<close>

type_synonym frame_slice = "nat \<times> nat \<times> nat"

definition mem_byte :: "kmem \<Rightarrow> nat \<Rightarrow> u8" where
  "mem_byte m pa = km_frames m (pa div 4096) ! (pa mod 4096)"

definition mem_set_byte :: "nat \<Rightarrow> u8 \<Rightarrow> kmem \<Rightarrow> kmem" where
  "mem_set_byte pa b m = m\<lparr>km_frames := (km_frames m)(pa div 4096 := (km_frames m (pa div 4096))[pa mod 4096 := b])\<rparr>"

fun mem_write :: "nat \<Rightarrow> u8 list \<Rightarrow> kmem \<Rightarrow> kmem" where
  "mem_write pa [] m = m"
| "mem_write pa (b # bs) m = mem_write (pa + 1) bs (mem_set_byte pa b m)"

definition mem_read :: "nat \<Rightarrow> nat \<Rightarrow> kmem \<Rightarrow> u8 list" where
  "mem_read pa n m = map (\<lambda>i. mem_byte m (pa + i)) [0..<n]"

section \<open>Translation of user pointers\<close>

text \<open>The loop of \<open>translated_byte_buffer\<close>.\<close>

partial_function (option) buffer_loop ::
  "page_table \<Rightarrow> kmem \<Rightarrow> nat \<Rightarrow> nat \<Rightarrow> frame_slice list \<Rightarrow> frame_slice list option option" where
  "buffer_loop pt m start fin v = (if start < fin then
     let start_va = virt_addr_from start; vpn = as_pn_by_floor start_va
     in case pt_translate pt vpn m of
          None \<Rightarrow> Some None
        | Some e \<Rightarrow>
            let ppn = pte_ppn e;
                end_va = min (addr_from_pn (vpn + 1)) (virt_addr_from fin);
                lo = page_offset start_va;
                hi = (if page_offset end_va = 0 then 4096 else page_offset end_va)
            in if lo \<le> hi then buffer_loop pt m (virt_addr_into_usize end_va) fin (v @ [(ppn, lo, hi)])
               else Some None
     else Some (Some v))"

definition translated_byte_buffer :: "nat \<Rightarrow> nat \<Rightarrow> nat \<Rightarrow> kmem \<Rightarrow> frame_slice list option option" where
  "translated_byte_buffer token ptr len m =
     buffer_loop (pt_from_token token) m ptr ((ptr + len) mod 2 ^ 64) []"

text \<open>\<open>string.push(ch as char)\<close>: a byte from 128 on becomes the two bytes of a code point.\<close>

definition push_char :: "u8 \<Rightarrow> u8 list" where
  "push_char ch = (if ch < 128 then [ch] else [0xC0 OR drop_bit 6 ch, 0x80 OR (ch AND 0x3F)])"

partial_function (option) str_loop ::
  "page_table \<Rightarrow> kmem \<Rightarrow> nat \<Rightarrow> u8 list \<Rightarrow> u8 list option option" where
  "str_loop pt m va string = (case pt_translate_va pt (virt_addr_from va) m of
     None \<Rightarrow> Some None
   | Some pa \<Rightarrow>
       let ch = mem_byte m pa
       in if ch = 0 then Some (Some string)
          else str_loop pt m ((va + 1) mod 2 ^ 64) (string @ push_char ch))"

definition translated_str :: "nat \<Rightarrow> nat \<Rightarrow> kmem \<Rightarrow> u8 list option option" where
  "translated_str token ptr m = str_loop (pt_from_token token) m ptr []"

text \<open>\<open>translated_ref\<close> and \<open>translated_mut_ref\<close>: the physical address of the reference.\<close>

definition translated_ref :: "nat \<Rightarrow> nat \<Rightarrow> kmem \<Rightarrow> nat option" where
  "translated_ref token ptr m = pt_translate_va (pt_from_token token) (virt_addr_from ptr) m"

definition translated_mut_ref :: "nat \<Rightarrow> nat \<Rightarrow> kmem \<Rightarrow> nat option" where
  "translated_mut_ref token ptr m = pt_translate_va (pt_from_token token) (virt_addr_from ptr) m"

section \<open>User buffers\<close>

definition slice_cells :: "frame_slice \<Rightarrow> nat list" where
  "slice_cells sl = (case sl of (ppn, lo, hi) \<Rightarrow> map (\<lambda>o'. ppn * 4096 + o') [lo..<hi])"

definition ub_len :: "frame_slice list \<Rightarrow> nat" where
  "ub_len buffers = sum_list (map (\<lambda>(ppn, lo, hi). hi - lo) buffers)"

text \<open>\<open>iter\<close> and \<open>iter_mut\<close>: the addresses of the bytes in order.\<close>

definition ub_iter :: "frame_slice list \<Rightarrow> nat list" where
  "ub_iter buffers = concat (map slice_cells buffers)"

text \<open>The bytes of a buffer, and \<open>iter_mut().zip(bytes)\<close> with an assignment.\<close>

definition ub_bytes :: "kmem \<Rightarrow> frame_slice list \<Rightarrow> u8 list" where
  "ub_bytes m buffers = map (mem_byte m) (ub_iter buffers)"

definition ub_fill :: "frame_slice list \<Rightarrow> u8 list \<Rightarrow> kmem \<Rightarrow> kmem" where
  "ub_fill buffers bs m = fold (\<lambda>(p, b). mem_set_byte p b) (zip (ub_iter buffers) bs) m"

lemma length_ub_iter: "length (ub_iter buffers) = ub_len buffers"
  by (induction buffers) (auto simp: ub_iter_def ub_len_def slice_cells_def)

section \<open>A byte buffer covers the range\<close>

text \<open>The physical address of a byte of user memory.\<close>

definition user_cell :: "page_table \<Rightarrow> kmem \<Rightarrow> nat \<Rightarrow> nat" where
  "user_cell pt m a = pte_ppn (the (pt_translate pt (a div 4096) m)) * 4096 + a mod 4096"

definition range_mapped :: "page_table \<Rightarrow> kmem \<Rightarrow> nat \<Rightarrow> nat \<Rightarrow> bool" where
  "range_mapped pt m a b \<longleftrightarrow> (\<forall>vpn. a div 4096 \<le> vpn \<and> vpn \<le> (b - 1) div 4096 \<longrightarrow> pt_translate pt vpn m \<noteq> None)"

lemma user_cells_page:
  assumes "a div 4096 = p" "a mod 4096 \<le> hi" "hi \<le> 4096"
  shows "map (user_cell pt m) [a..<p * 4096 + hi] = slice_cells (pte_ppn (the (pt_translate pt p m)), a mod 4096, hi)"
proof -
  define r where "r = a mod 4096"
  have a: "a = p * 4096 + r" using assms(1) unfolding r_def by (metis div_mult_mod_eq)
  have "[p * 4096 + r..<p * 4096 + hi] = map (\<lambda>o'. p * 4096 + o') [r..<hi]"
    by (rule nth_equalityI) simp_all
  moreover have "(p * 4096 + k) div 4096 = p" "(p * 4096 + k) mod 4096 = k" if "k < hi" for k using that assms(3) by simp_all
  ultimately show ?thesis unfolding r_def [symmetric] unfolding a by (simp add: slice_cells_def user_cell_def)
qed

lemma virt_addr_low [simp]: "a < 2 ^ 39 \<Longrightarrow> virt_addr_from a = a"
  by (simp add: conv_mod)

lemma into_usize_low: "a < 2 ^ 38 \<Longrightarrow> virt_addr_into_usize a = a"
  by (simp add: virt_addr_into_usize_def)

lemma into_usize_ge: "a < 2 ^ 39 \<Longrightarrow> a \<le> virt_addr_into_usize a"
  using or_high_mask [of a] by (simp add: virt_addr_into_usize_def)

text \<open>The slice of one pass of the loop ends at the end of the page or of the range.\<close>

lemma slice_end:
  assumes "start < fin" "fin \<le> 2 ^ 38"
  defines "p \<equiv> start div 4096" and "e \<equiv> min ((start div 4096 + 1) * 4096) fin"
  defines "hi \<equiv> (if page_offset e = 0 then 4096 else page_offset e)"
  shows "p * 4096 + hi = e" "start mod 4096 \<le> hi" "hi \<le> 4096" "start < e" "e \<le> fin"
    "min (addr_from_pn (p + 1)) (virt_addr_from fin) = e"
proof -
  have b: "p * 4096 \<le> start" "start < p * 4096 + 4096" by (simp_all add: p_def dividend_less_div_times)
  have se: "start < e" "e \<le> fin" using b assms(1) by (simp_all add: e_def p_def)
  show e: "p * 4096 + hi = e"
  proof (cases "fin < (p + 1) * 4096")
    case True
    then have ef: "e = fin" unfolding e_def p_def by simp
    define r where "r = fin - p * 4096"
    have f: "fin = p * 4096 + r" "0 < r" "r < 4096" using b assms(1) True by (simp_all add: r_def)
    show ?thesis unfolding hi_def page_offset_mod ef f(1) using f(2,3) by simp
  next
    case False
    then have "e = (p + 1) * 4096" by (simp add: e_def p_def)
    then show ?thesis by (simp add: hi_def page_offset_mod)
  qed
  show "hi \<le> 4096" by (simp add: hi_def page_offset_mod less_imp_le)
  show "start mod 4096 \<le> hi" using e se(1) div_mult_mod_eq [of start 4096] unfolding p_def by linarith
  show "start < e" "e \<le> fin" by (rule se)+
  have "p + 1 < 2 ^ 52" using assms(1,2) by (simp add: p_def)
  then show "min (addr_from_pn (p + 1)) (virt_addr_from fin) = e"
    using assms(2) by (simp only: addr_from_pn_mult) (simp add: e_def p_def)
qed

lemma buffer_loop_ok:
  assumes "start \<le> fin" "fin \<le> 2 ^ 38" "range_mapped pt m start fin"
  shows "\<exists>w. buffer_loop pt m start fin v = Some (Some (v @ w)) \<and> ub_iter w = map (user_cell pt m) [start..<fin]"
  using assms
proof (induction "fin - start" arbitrary: start v rule: less_induct)
  case less
  show ?case
  proof (cases "start < fin")
    case False
    then show ?thesis using less.prems(1) by (subst buffer_loop.simps) (simp add: ub_iter_def)
  next
    case True
    let ?p = "start div 4096" and ?e = "min ((start div 4096 + 1) * 4096) fin"
    let ?hi = "if page_offset ?e = 0 then 4096 else page_offset ?e"
    note se = slice_end [OF True less.prems(2)]
    have "?p \<le> (fin - 1) div 4096" using True by (intro div_le_mono) simp
    then obtain en where en: "pt_translate pt ?p m = Some en" using less.prems(3) by (auto simp: range_mapped_def)
    let ?w = "(pte_ppn en, start mod 4096, ?hi)"
    have st: "virt_addr_from start = start" "as_pn_by_floor start = ?p" "page_offset start = start mod 4096"
      using True less.prems(2) by (simp_all add: as_pn_by_floor_def page_offset_mod)
    have run: "buffer_loop pt m start fin v = buffer_loop pt m (virt_addr_into_usize ?e) fin (v @ [?w])"
      using True se(2) by (subst buffer_loop.simps) (simp only: st en se(6) Let_def if_True option.case)
    have cells: "map (user_cell pt m) [start..<?e] = slice_cells ?w"
      using user_cells_page [OF refl se(2,3), of pt m] unfolding se(1) en by simp
    have sp: "[start..<fin] = [start..<?e] @ [?e..<fin]" 
      using upt_add_eq_append [OF less_imp_le [OF se(4)], of "fin - ?e"] unfolding le_add_diff_inverse [OF se(5)] .
    show ?thesis
    proof (cases "?e = fin")
      case True
      then have "\<not> virt_addr_into_usize ?e < fin" using into_usize_ge [of ?e] less.prems(2) by simp
      then have "buffer_loop pt m (virt_addr_into_usize ?e) fin (v @ [?w]) = Some (Some (v @ [?w]))"
        by (subst buffer_loop.simps) simp
      then show ?thesis using run cells True by (simp add: ub_iter_def)
    next
      case False
      then have lt: "?e < fin" using se(5) by linarith
      have u: "virt_addr_into_usize ?e = ?e" using lt less.prems(2) by (intro into_usize_low) linarith
      have "range_mapped pt m ?e fin" using less.prems(3) se(4) unfolding range_mapped_def
        by (meson div_le_mono le_trans less_imp_le)
      from less.hyps [OF _ se(5) less.prems(2) this, of "v @ [?w]"] se(4) lt obtain w where
        w: "buffer_loop pt m ?e fin (v @ [?w]) = Some (Some ((v @ [?w]) @ w))" "ub_iter w = map (user_cell pt m) [?e..<fin]"
        by (auto simp: diff_less_mono2)
      show ?thesis
        by (rule exI [of _ "?w # w"]) (use run u w cells sp in \<open>simp add: ub_iter_def\<close>)
    qed
  qed
qed

text \<open>With a pointer from \<open>2^39\<close> on, the loop compares wrapped with unwrapped addresses.\<close>

definition loop_stuck :: "page_table \<Rightarrow> kmem \<Rightarrow> nat \<Rightarrow> nat \<Rightarrow> bool" where
  "loop_stuck pt m start fin \<longleftrightarrow> 2 ^ 39 \<le> fin \<and> start < fin \<and> start mod 2 ^ 39 \<le> fin mod 2 ^ 39 \<and> fin mod 2 ^ 39 < 2 ^ 38 \<and>
     range_mapped pt m (start mod 2 ^ 39) (fin mod 2 ^ 39 + 1)"

lemma stuck_pass:
  assumes "loop_stuck pt m start fin"
  defines "va \<equiv> start mod 2 ^ 39" and "e \<equiv> fin mod 2 ^ 39"
  defines "end_va \<equiv> min (addr_from_pn (va div 4096 + 1)) e"
  shows "pt_translate pt (va div 4096) m \<noteq> None" "loop_stuck pt m (virt_addr_into_usize end_va) fin"
    "page_offset va \<le> (if page_offset end_va = 0 then 4096 else page_offset end_va)"
proof -
  have h: "2 ^ 39 \<le> fin" "start < fin" "va \<le> e" "e < 2 ^ 38" "range_mapped pt m va (e + 1)"
    using assms(1) by (simp_all add: loop_stuck_def va_def e_def)
  have "va div 4096 \<le> e div 4096" using h(3) by (rule div_le_mono)
  then show "pt_translate pt (va div 4096) m \<noteq> None" using h(5) by (simp add: range_mapped_def)
  have "va div 4096 + 1 < 2 ^ 52" using h(3,4) by simp
  then have ap: "addr_from_pn (va div 4096 + 1) = (va div 4096 + 1) * 4096" by (rule addr_from_pn_mult)
  have vb: "va < (va div 4096 + 1) * 4096" by (simp add: dividend_less_div_times)
  then have ev: "va \<le> end_va" "end_va \<le> e" using h(3) unfolding end_va_def ap by simp_all
  have u: "virt_addr_into_usize end_va = end_va" using ev h(4) by (intro into_usize_low) linarith
  have "range_mapped pt m end_va (e + 1)" using h(5) ev(1) unfolding range_mapped_def by (meson div_le_mono le_trans)
  moreover have "end_va mod 2 ^ 39 = end_va" using ev h(4) by simp
  ultimately show "loop_stuck pt m (virt_addr_into_usize end_va) fin"
    using h ev unfolding loop_stuck_def u e_def [symmetric] by simp
  show "page_offset va \<le> (if page_offset end_va = 0 then 4096 else page_offset end_va)"
  proof (cases "page_offset end_va = 0")
    case False
    then have "end_va \<noteq> (va div 4096 + 1) * 4096" unfolding page_offset_mod by (metis mod_mult_self2_is_0)
    then have lt: "end_va < (va div 4096 + 1) * 4096" unfolding end_va_def ap by simp
    have "va div 4096 * 4096 \<le> end_va" using ev(1) div_times_less_eq_dividend [of va 4096] by linarith
    then have "end_va div 4096 = va div 4096" using lt by (intro div_nat_eqI) simp_all
    then have "va mod 4096 \<le> end_va mod 4096"
      using ev(1) mod_div_mult_eq [of va 4096] mod_div_mult_eq [of end_va 4096] by linarith
    then show ?thesis using False unfolding page_offset_mod by simp
  qed (simp add: page_offset_mod less_imp_le)
qed

lemma buffer_loop_stuck:
  assumes "buffer_loop pt m start fin v = Some r"
  shows "\<not> loop_stuck pt m start fin"
proof (rule buffer_loop.raw_induct [where P = "\<lambda>pt m start fin v r. \<not> loop_stuck pt m start fin", OF _ assms])
  fix loop pt m start fin v r
  assume 1: "\<And>pt m start fin v r. loop pt m start fin v = Some r \<Longrightarrow> \<not> loop_stuck pt m start fin"
    and 2: "(if start < fin then
     let start_va = virt_addr_from start; vpn = as_pn_by_floor start_va
     in case pt_translate pt vpn m of
          None \<Rightarrow> Some None
        | Some e \<Rightarrow>
            let ppn = pte_ppn e;
                end_va = min (addr_from_pn (vpn + 1)) (virt_addr_from fin);
                lo = page_offset start_va;
                hi = (if page_offset end_va = 0 then 4096 else page_offset end_va)
            in if lo \<le> hi then loop pt m (virt_addr_into_usize end_va) fin (v @ [(ppn, lo, hi)])
               else Some None
     else Some (Some v)) = Some (r :: frame_slice list option)"
  show "\<not> loop_stuck pt m start fin"
  proof
    assume st: "loop_stuck pt m start fin"
    note p = stuck_pass [OF st]
    obtain en where en: "pt_translate pt (start mod 2 ^ 39 div 4096) m = Some en" using p(1) by blast
    have lt: "start < fin" using st by (simp add: loop_stuck_def)
    let ?va = "start mod 2 ^ 39"
    let ?e = "min (addr_from_pn (?va div 4096 + 1)) (fin mod 2 ^ 39)"
    from 2 lt en p(3) have "\<exists>v'. loop pt m (virt_addr_into_usize ?e) fin v' = Some r"
      unfolding conv_mod Let_def as_pn_by_floor_def page_consts by auto
    then show False using 1 p(2) by blast
  qed
qed

text \<open>C14: \<open>translated_byte_buffer\<close> on a range of user memory whose pages have page table entries
  ends and does not panic, and the bytes of the buffer are the bytes of the range, in order.\<close>

theorem translated_byte_buffer_correct:
  assumes "ptr + len \<le> 2 ^ 38" "range_mapped (pt_from_token token) m ptr (ptr + len)"
  shows "\<exists>v. translated_byte_buffer token ptr len m = Some (Some v) \<and> ub_len v = len \<and>
    ub_iter v = map (user_cell (pt_from_token token) m) [ptr..<ptr + len]"
proof -
  have e: "(ptr + len) mod 2 ^ 64 = ptr + len" using assms(1) by simp
  obtain w where w: "translated_byte_buffer token ptr len m = Some (Some w)"
    "ub_iter w = map (user_cell (pt_from_token token) m) [ptr..<ptr + len]"
    unfolding translated_byte_buffer_def e using buffer_loop_ok [OF _ assms, of "[]"] by auto
  moreover have "ub_len w = len" using arg_cong [OF w(2), of length] by (simp add: length_ub_iter)
  ultimately show ?thesis by blast
qed


lemma sample_token:
  obtains token m fl where "\<forall>vpn<512. pt_translate (pt_from_token token) vpn m \<noteq> None"
    "pt_abs (pt_from_token token) m 5 = Some (7, fl)" "km_frames m 7 = 65 # replicate 4095 0"
proof -
  obtain pt0 m0 where b: "pt_ok 16 80 pt0 m0" "pt_abs pt0 m0 = (\<lambda>_. None)" "card (free_frames 16 80 m0) = 63" "pt_root_ppn pt0 < 2 ^ 44"
    by (rule boot_pt)
  then obtain pt m1 where mp: "pt_map 5 7 6 pt0 m0 = Some (pt, m1)" using pt_map_total [OF b(1), of 5 7 6] by auto
  define m where "m = frame_write 7 (65 # replicate 4095 0) m1"
  have ok: "pt_ok 16 80 pt m1" using pt_map_abs(1) [OF b(1) mp] by simp
  then have "7 \<notin> set (pt_metadata_frames pt)" by (auto simp: pt_ok_def fa_live_def)
  then have "pt_abs pt m = pt_abs pt m1" using pt_ok_cong(2) [OF ok, of m] ok by (auto simp: m_def pt_ok_def)
  then have a5: "pt_abs pt m 5 = Some (7, 6 OR PTE_V)" using pt_map_abs(3) [OF b(1) mp, of 5] by simp
  then have w: "pt_walk m (pt_root_ppn pt) [0, 0] \<noteq> None" by (auto simp: pt_abs_walk take2_indexes bind_eq_Some_conv simp del: pt_walk.simps)
  have r: "pt_root_ppn (pt_from_token (pt_token pt)) = pt_root_ppn pt"
    by (rule from_token_root) (use pt_map_abs(4) [OF b(1) mp] b(4) in simp)
  show ?thesis by (rule that [of "pt_token pt" m])
    (use w r a5 in \<open>simp_all add: pt_translate_walk pt_abs_walk take2_indexes m_def del: pt_walk.simps\<close>)
qed

theorem translated_byte_buffer_witness:
  "\<exists>token m v. translated_byte_buffer token 0x1ff8 16 m = Some (Some v) \<and> ub_len v = 16"
proof -
  obtain token m where t: "\<forall>vpn<512. pt_translate (pt_from_token token) vpn m \<noteq> None" by (rule sample_token)
  then have "range_mapped (pt_from_token token) m 0x1ff8 (0x1ff8 + 16)" by (auto simp: range_mapped_def)
  from translated_byte_buffer_correct [OF _ this] show ?thesis by auto
qed


section \<open>Strings\<close>

text \<open>A zero-terminated string of user memory.\<close>

definition str_at :: "page_table \<Rightarrow> kmem \<Rightarrow> nat \<Rightarrow> u8 list \<Rightarrow> bool" where
  "str_at pt m ptr ws \<longleftrightarrow> ptr + length ws < 2 ^ 38 \<and> 0 \<notin> set ws \<and>
     (\<forall>i\<le>length ws. \<exists>pa. pt_translate_va pt (ptr + i) m = Some pa \<and> mem_byte m pa = (ws @ [0]) ! i)"

lemma str_at_Cons:
  assumes "str_at pt m ptr (w # ws)"
  shows "str_at pt m (Suc ptr) ws" "w \<noteq> 0" "\<exists>pa. pt_translate_va pt ptr m = Some pa \<and> mem_byte m pa = w" "ptr + 1 < 2 ^ 38"
proof -
  have h: "\<forall>i\<le>Suc (length ws). \<exists>pa. pt_translate_va pt (ptr + i) m = Some pa \<and> mem_byte m pa = (w # ws @ [0]) ! i"
    using assms by (simp add: str_at_def)
  have "\<forall>i\<le>length ws. \<exists>pa. pt_translate_va pt (Suc ptr + i) m = Some pa \<and> mem_byte m pa = (ws @ [0]) ! i"
    using h by (metis Suc_le_mono add_Suc_shift nth_Cons_Suc)
  then show "str_at pt m (Suc ptr) ws" using assms by (simp add: str_at_def)
  show "\<exists>pa. pt_translate_va pt ptr m = Some pa \<and> mem_byte m pa = w" using h [rule_format, of 0] by simp
  show "w \<noteq> 0" "ptr + 1 < 2 ^ 38" using assms by (auto simp: str_at_def)
qed

lemma str_loop_ok:
  assumes "str_at pt m ptr ws"
  shows "str_loop pt m ptr v = Some (Some (v @ concat (map push_char ws)))"
  using assms
proof (induction ws arbitrary: ptr v)
  case Nil
  then obtain pa where "pt_translate_va pt ptr m = Some pa" "mem_byte m pa = 0" "ptr < 2 ^ 38" by (auto simp: str_at_def)
  then show ?case by (subst str_loop.simps) simp
next
  case (Cons w ws)
  note c = str_at_Cons [OF Cons.prems]
  then obtain pa where pa: "pt_translate_va pt ptr m = Some pa" "mem_byte m pa = w" by blast
  have "(ptr + 1) mod 2 ^ 64 = Suc ptr" "virt_addr_from ptr = ptr" using c(4) by simp_all
  then show ?case using Cons.IH [OF c(1), of "v @ push_char w"] pa c(2) by (subst str_loop.simps) (simp add: Let_def)
qed

text \<open>\<open>translated_str\<close> of a zero-terminated string in user memory ends, does not panic, and
  returns every byte as a character of its own: ASCII text comes out unchanged, and a byte from 128
  on as two bytes.\<close>

theorem translated_str_correct:
  assumes "str_at (pt_from_token token) m ptr ws"
  shows "translated_str token ptr m = Some (Some (concat (map push_char ws))) \<and>
    ((\<forall>w\<in>set ws. w < 128) \<longrightarrow> concat (map push_char ws) = ws)"
proof -
  have "concat (map push_char ws) = ws" if "\<forall>w\<in>set ws. w < 128" for ws
    using that by (induction ws) (simp_all add: push_char_def)
  then show ?thesis using str_loop_ok [OF assms, of "[]"] by (simp add: translated_str_def)
qed

theorem translated_str_witness: "\<exists>token m. translated_str token 0x5000 m = Some (Some [65])"
proof -
  obtain token m fl where t: "pt_abs (pt_from_token token) m 5 = Some (7, fl)" "km_frames m 7 = 65 # replicate 4095 0"
    by (rule sample_token)
  have tr: "pt_translate_va (pt_from_token token) (0x5000 + i) m = Some (0x7000 + i)" if "i \<le> 1" for i
    using that pt_translate_va_abs [of "pt_from_token token" m "0x5000 + i" 7 fl] t(1) by (cases i) simp_all
  have b: "mem_byte m (0x7000 + i) = ([65] @ [0]) ! i" if "i \<le> 1" for i
    using that t(2) by (cases i) (simp_all add: mem_byte_def)
  have "str_at (pt_from_token token) m 0x5000 [65]" unfolding str_at_def using tr b by auto
  from translated_str_correct [OF this] show ?thesis by (auto simp: push_char_def)
qed

end
