(* ===== verification/OsFs.thy ===== *)
theory OsFs
  imports EfsCreate UserMem
begin

text \<open>
  Files of the kernel on top of easy-fs: path resolution and \<open>open_file\<close> of \<open>kernel/src/fs/mod.rs\<close>,
  and \<open>OSInode\<close> of \<open>kernel/src/fs/inode.rs\<close>. Paths are their bytes. The root inode is an argument.
\<close>

section \<open>Paths\<close>

definition slash :: u8 where "slash = 0x2F"

text \<open>\<open>str::split('/')\<close>: the pieces between the slashes, at least one.\<close>

fun split_slash :: "u8 list \<Rightarrow> u8 list list" where
  "split_slash [] = [[]]"
| "split_slash (c # cs) = (if c = slash then [] # split_slash cs
     else (case split_slash cs of [] \<Rightarrow> [[c]] | p # ps \<Rightarrow> (c # p) # ps))"

text \<open>\<open>parts.join("/")\<close>.\<close>

fun join_slash :: "u8 list list \<Rightarrow> u8 list" where
  "join_slash [] = []"
| "join_slash [p] = p"
| "join_slash (p # q # ps) = p @ slash # join_slash (q # ps)"

text \<open>\<open>str::rsplit_once('/')\<close>: split at the last slash.\<close>

fun rsplit_once :: "u8 list \<Rightarrow> (u8 list \<times> u8 list) option" where
  "rsplit_once [] = None"
| "rsplit_once (c # cs) = (case rsplit_once cs of
     Some (a, b) \<Rightarrow> Some (c # a, b)
   | None \<Rightarrow> if c = slash then Some ([], cs) else None)"

fun push_part :: "u8 list \<Rightarrow> u8 list list \<Rightarrow> u8 list list" where
  "push_part part parts = (if part = [] \<or> part = dot then parts
     else if part = dotdot then butlast parts else parts @ [part])"

definition get_full_path :: "u8 list \<Rightarrow> u8 list \<Rightarrow> u8 list" where
  "get_full_path cwd path = (
     let resolved_path = (if path \<noteq> [] \<and> hd path = slash then path else cwd @ [slash] @ path);
         parts = fold push_part (split_slash resolved_path) []
     in slash # join_slash parts)"

section \<open>Inodes by path\<close>

fun find_parts :: "efs \<Rightarrow> u8 list list \<Rightarrow> inode \<Rightarrow> disk \<Rightarrow> inode option option" where
  "find_parts fs [] node s = Some (Some node)"
| "find_parts fs (name # names) node s = (if name = [] then find_parts fs names node s
     else do {
       r \<leftarrow> vfs_find fs name node s;
       case r of None \<Rightarrow> Some None | Some node' \<Rightarrow> find_parts fs names node' s
     })"

definition inode_find :: "efs \<Rightarrow> inode \<Rightarrow> u8 list \<Rightarrow> disk \<Rightarrow> inode option option" where
  "inode_find fs root path s = find_parts fs (split_slash path) root s"

section \<open>Open files\<close>

record os_inode =
  osi_readable :: bool
  osi_writable :: bool
  osi_offset :: nat
  osi_inode :: inode

definition os_inode_new :: "bool \<Rightarrow> bool \<Rightarrow> inode \<Rightarrow> os_inode" where
  "os_inode_new r w i = \<lparr>osi_readable = r, osi_writable = w, osi_offset = 0, osi_inode = i\<rparr>"

definition RDONLY :: nat where "RDONLY = 0"
definition WRONLY :: nat where "WRONLY = 1"
definition RDWR :: nat where "RDWR = 2"
definition CREATE :: nat where "CREATE = 512"
definition TRUNC :: nat where "TRUNC = 1024"

text \<open>\<open>contains\<close> and \<open>from_bits\<close> of \<open>bitflags\<close>.\<close>

definition flags_contains :: "nat \<Rightarrow> nat \<Rightarrow> bool" where
  "flags_contains flags f \<longleftrightarrow> flags AND f = f"

definition open_flags_from_bits :: "nat \<Rightarrow> nat option" where
  "open_flags_from_bits bits = (if bits AND (WRONLY OR RDWR OR CREATE OR TRUNC) = bits then Some bits else None)"

text \<open>The result is the panic, or the file (if any) with the disk.\<close>

definition open_file :: "efs \<Rightarrow> inode \<Rightarrow> u8 list \<Rightarrow> nat \<Rightarrow> disk \<Rightarrow> (os_inode option \<times> disk) option" where
  "open_file fs root path flags s = (
     let readable = flags_contains flags RDONLY \<or> flags_contains flags RDWR;
         writable = flags_contains flags WRONLY \<or> flags_contains flags RDWR
     in if flags_contains flags CREATE then do {
          r \<leftarrow> inode_find fs root path s;
          case r of
            Some i \<Rightarrow> do {
              b \<leftarrow> is_file i s;
              s1 \<leftarrow> (if b then vfs_clear fs i s else Some s);
              Some (Some (os_inode_new readable writable i), s1)
            }
          | None \<Rightarrow> do {
              let (parent_path, target) = (case rsplit_once path of Some pt \<Rightarrow> pt | None \<Rightarrow> ([], path));
              p \<leftarrow> inode_find fs root parent_path s;
              case p of
                None \<Rightarrow> Some (None, s)
              | Some parent \<Rightarrow> do {
                  (c, s1) \<leftarrow> vfs_create fs target parent s;
                  Some (map_option (os_inode_new readable writable) c, s1)
                }
            }
        } else do {
          r \<leftarrow> inode_find fs root path s;
          case r of
            None \<Rightarrow> Some (None, s)
          | Some i \<Rightarrow> do {
              s1 \<leftarrow> (if flags_contains flags TRUNC then vfs_clear fs i s else Some s);
              Some (Some (os_inode_new readable writable i), s1)
            }
        })"

text \<open>The loop of \<open>read_all\<close> with its 512-byte buffer; the outer \<open>None\<close> is a run that does not end.\<close>

partial_function (option) read_all_loop :: "inode \<Rightarrow> disk \<Rightarrow> nat \<Rightarrow> u8 list \<Rightarrow> u8 list \<Rightarrow> (u8 list \<times> nat) option option" where
  "read_all_loop i s offset buffer v = (case vfs_read_at offset buffer i s of
     None \<Rightarrow> Some None
   | Some (len, buffer') \<Rightarrow>
       if len = 0 then Some (Some (v, offset))
       else read_all_loop i s (offset + len) buffer' (v @ take len buffer'))"

definition read_all :: "os_inode \<Rightarrow> disk \<Rightarrow> (u8 list \<times> os_inode) option option" where
  "read_all f s = map_option (map_option (\<lambda>(v, off). (v, f\<lparr>osi_offset := off\<rparr>)))
     (read_all_loop (osi_inode f) s (osi_offset f) (replicate 512 0) [])"

text \<open>\<open>File for OSInode\<close>: the user buffer is a list of slices of frames.\<close>

fun osi_read_loop :: "frame_slice list \<Rightarrow> inode \<Rightarrow> disk \<Rightarrow> nat \<Rightarrow> nat \<Rightarrow> kmem \<Rightarrow> (nat \<times> nat \<times> kmem) option" where
  "osi_read_loop [] i s offset total_read m = Some (total_read, offset, m)"
| "osi_read_loop ((ppn, lo, hi) # bufs) i s offset total_read m = do {
     let buf = mem_read (ppn * 4096 + lo) (hi - lo) m;
     (n, buf') \<leftarrow> vfs_read_at offset buf i s;
     let m' = mem_write (ppn * 4096 + lo) buf' m;
     if n = 0 then Some (total_read, offset, m')
     else osi_read_loop bufs i s (offset + n) (total_read + n) m'
   }"

definition osi_read :: "frame_slice list \<Rightarrow> os_inode \<Rightarrow> disk \<Rightarrow> kmem \<Rightarrow> (nat \<times> os_inode \<times> kmem) option" where
  "osi_read bufs f s m = do {
     (n, off, m') \<leftarrow> osi_read_loop bufs (osi_inode f) s (osi_offset f) 0 m;
     Some (n, f\<lparr>osi_offset := off\<rparr>, m')
   }"

fun osi_write_loop :: "efs \<Rightarrow> frame_slice list \<Rightarrow> inode \<Rightarrow> nat \<Rightarrow> nat \<Rightarrow> kmem \<Rightarrow> disk \<Rightarrow> (nat \<times> nat \<times> disk) option" where
  "osi_write_loop fs [] i offset total_write m s = Some (total_write, offset, s)"
| "osi_write_loop fs ((ppn, lo, hi) # bufs) i offset total_write m s = do {
     let buf = mem_read (ppn * 4096 + lo) (hi - lo) m;
     (n, s') \<leftarrow> vfs_write_at fs offset buf i s;
     assert_opt (n = length buf);
     osi_write_loop fs bufs i (offset + n) (total_write + n) m s'
   }"

definition osi_write :: "efs \<Rightarrow> frame_slice list \<Rightarrow> os_inode \<Rightarrow> kmem \<Rightarrow> disk \<Rightarrow> (nat \<times> os_inode \<times> disk) option" where
  "osi_write fs bufs f m s = do {
     (n, off, s') \<leftarrow> osi_write_loop fs bufs (osi_inode f) (osi_offset f) 0 m s;
     Some (n, f\<lparr>osi_offset := off\<rparr>, s')
   }"

definition STAT_NULL :: nat where "STAT_NULL = 0"
definition STAT_DIR :: nat where "STAT_DIR = 0x4000"
definition STAT_REG :: nat where "STAT_REG = 0x8000"
definition STAT_LNK :: nat where "STAT_LNK = 0xA000"

definition osi_mode :: "os_inode \<Rightarrow> disk \<Rightarrow> nat option" where
  "osi_mode f s = do {
     b \<leftarrow> is_file (osi_inode f) s;
     d \<leftarrow> is_dir (osi_inode f) s;
     Some (if b then STAT_REG else if d then STAT_DIR else STAT_LNK)
   }"

section \<open>Paths are canonical\<close>

definition clean_parts :: "u8 list list \<Rightarrow> bool" where
  "clean_parts ps \<longleftrightarrow> (\<forall>p\<in>set ps. p \<noteq> [] \<and> p \<noteq> dot \<and> p \<noteq> dotdot \<and> slash \<notin> set p)"

lemma split_slash_ne [simp]: "split_slash cs \<noteq> []"
  by (induction cs) (auto split: list.splits)

lemma split_slash_no_slash: "p \<in> set (split_slash cs) \<Longrightarrow> slash \<notin> set p"
  by (induction cs arbitrary: p) (auto split: list.splits if_splits)

lemma split_slash_plain: "slash \<notin> set p \<Longrightarrow> split_slash p = [p]"
  by (induction p) auto

lemma split_slash_append: "split_slash (p @ slash # cs) = split_slash p @ split_slash cs"
  by (induction p) (auto split: list.splits simp: append_eq_Cons_conv)

lemma split_join:
  assumes "ps \<noteq> []" "\<forall>p\<in>set ps. slash \<notin> set p"
  shows "split_slash (join_slash ps) = ps"
  using assms by (induction ps rule: join_slash.induct) (simp_all add: split_slash_plain split_slash_append)

lemma push_part_clean: "clean_parts ps \<Longrightarrow> slash \<notin> set part \<Longrightarrow> clean_parts (push_part part ps)"
  by (auto simp: clean_parts_def dest: in_set_butlastD)

lemma fold_push_clean:
  assumes "clean_parts ps" "\<forall>p\<in>set qs. slash \<notin> set p"
  shows "clean_parts (fold push_part qs ps)"
  using assms by (induction qs arbitrary: ps) (simp_all add: push_part_clean del: push_part.simps)

lemma fold_push_id: "clean_parts qs \<Longrightarrow> fold push_part qs ps = ps @ qs"
  by (induction qs arbitrary: ps) (auto simp: clean_parts_def)

lemma fold_push_join:
  assumes "clean_parts ps"
  shows "fold push_part (split_slash (slash # join_slash ps)) [] = ps"
proof (cases "ps = []")
  case False
  then have "split_slash (join_slash ps) = ps" using assms by (intro split_join) (auto simp: clean_parts_def)
  then show ?thesis using fold_push_id [OF assms, of "[]"] by simp
qed simp

lemma fold_push_append: "fold push_part (split_slash (p @ slash # cs)) ps = fold push_part (split_slash cs) (fold push_part (split_slash p) ps)"
  by (simp add: split_slash_append)



section \<open>Opening and reading\<close>

lemmas open_flag_defs = RDONLY_def WRONLY_def RDWR_def CREATE_def TRUNC_def

lemma contains_flag: "flags_contains flags (2 ^ n) \<longleftrightarrow> flags AND 2 ^ n \<noteq> 0"
proof -
  have "flags AND 2 ^ n = (if bit flags n then 2 ^ n else 0)" by (rule bit_eqI) (auto simp: bit_simps)
  then show ?thesis by (simp add: flags_contains_def)
qed

lemma and_or_flag_0: "flags AND (a OR b) = 0 \<longleftrightarrow> flags AND a = 0 \<and> flags AND b = (0 :: nat)"
proof -
  have "flags AND a = (flags AND (a OR b)) AND a" "flags AND b = (flags AND (a OR b)) AND b"
    "flags AND (a OR b) = (flags AND a) OR (flags AND b)" by (rule bit_eqI, auto simp: bit_simps)+
  then show ?thesis by (metis and_zero_eq or.left_neutral zero_and_eq)
qed

lemma open_file_handle:
  assumes "open_file fs root path flags s = Some (Some f, s')"
  obtains i where "f = os_inode_new (flags_contains flags RDONLY \<or> flags_contains flags RDWR)
      (flags_contains flags WRONLY \<or> flags_contains flags RDWR) i"
proof (cases "flags_contains flags CREATE")
  case True
  from assms obtain r where r: "inode_find fs root path s = Some r" by (auto simp: open_file_def Let_def True bind_eq_Some_conv)
  show ?thesis
  proof (cases r)
    case (Some i)
    then show ?thesis using assms r True that by (auto simp: open_file_def Let_def bind_eq_Some_conv)
  next
    case None
    obtain pp target where "(case rsplit_once path of Some pt \<Rightarrow> pt | None \<Rightarrow> ([], path)) = (pp, target)" by fastforce
    then show ?thesis using assms r True None that
      by (auto simp: open_file_def Let_def bind_eq_Some_conv split: option.splits)
  qed
next
  case False
  then show ?thesis using assms that by (auto simp: open_file_def Let_def bind_eq_Some_conv split: option.splits)
qed

text \<open>C31: An open file starts at offset 0; it is writable exactly when \<open>WRONLY\<close> or \<open>RDWR\<close> is set,
  but always readable, because \<open>RDONLY\<close> is the empty set of flags, which every set contains.
  Without \<open>CREATE\<close> and \<open>TRUNC\<close> it is the inode at the path and the disk does not change.\<close>

theorem open_file_flags:
  assumes "open_file fs root path flags s = Some (Some f, s')"
  shows "osi_offset f = 0 \<and> osi_readable f \<and> (osi_writable f \<longleftrightarrow> flags AND WRONLY \<noteq> 0 \<or> flags AND RDWR \<noteq> 0) \<and>
    (flags AND (CREATE OR TRUNC) = 0 \<longrightarrow> s' = s \<and> inode_find fs root path s = Some (Some (osi_inode f)))"
proof -
  obtain i where f: "f = os_inode_new (flags_contains flags RDONLY \<or> flags_contains flags RDWR)
      (flags_contains flags WRONLY \<or> flags_contains flags RDWR) i"
    by (rule open_file_handle [OF assms])
  have "osi_offset f = 0" "osi_readable f" "osi_writable f \<longleftrightarrow> flags_contains flags WRONLY \<or> flags_contains flags RDWR"
    by (simp_all add: f os_inode_new_def flags_contains_def RDONLY_def)
  moreover have "s' = s \<and> inode_find fs root path s = Some (Some (osi_inode f))" if "flags AND (CREATE OR TRUNC) = 0"
  proof -
    have "\<not> flags_contains flags CREATE" "\<not> flags_contains flags TRUNC"
      using that unfolding and_or_flag_0 by (simp_all add: open_flag_defs flags_contains_def)
    then obtain i where "inode_find fs root path s = Some (Some i)" "os_inode_new
        (flags_contains flags RDONLY \<or> flags_contains flags RDWR) (flags_contains flags WRONLY \<or> flags_contains flags RDWR) i = f" "s' = s"
      using assms by (auto simp: open_file_def Let_def bind_eq_Some_conv split: option.splits)
    then show ?thesis by (auto simp: os_inode_new_def)
  qed
  ultimately show ?thesis
    using contains_flag [of flags 0] contains_flag [of flags 1] by (simp add: open_flag_defs)
qed

theorem open_file_flags_witness:
  "\<exists>f. open_file small_fs small_file [] 1 (blank_disk 1030) = Some (Some f, blank_disk 1030) \<and> osi_readable f \<and> osi_writable f"
proof -
  have "open_file small_fs small_file [] 1 (blank_disk 1030) = Some (Some (os_inode_new True True small_file), blank_disk 1030)"
    by (simp add: open_file_def flags_contains_def open_flag_defs inode_find_def)
  from open_file_flags [OF this] show ?thesis using \<open>open_file small_fs _ _ _ _ = _\<close> by (auto simp: open_flag_defs)
qed

lemma vfs_read_at_ok:
  assumes "inode_ok fs N i s" "offset + length buf < 2 ^ 64"
  shows "vfs_read_at offset buf i s = Some (length (take (length buf) (drop offset (vcontent i s))),
    splice 0 (take (length buf) (drop offset (vcontent i s))) buf)"
proof -
  note o = inode_okD [OF assms(1)]
  show ?thesis using inode_block [OF o(3,4)] read_at_ok [OF o(2) assms(2)]
    by (simp add: vfs_read_at_def read_disk_inode_def ino_of_def vcontent_def)
qed

lemma take_min_len: "take (min (length xs - k) n) (drop k xs) = take n (drop k xs)"
  by (cases "n \<le> length xs - k") (simp_all add: min_def)

lemma drop_take_tail: "take n (drop k xs) @ drop (k + min (length xs - k) n) xs = drop k xs"
proof -
  have "drop (k + min (length xs - k) n) xs = drop n (drop k xs)" by (cases "n \<le> length xs - k") (simp_all add: min_def add.commute)
  then show ?thesis by (simp only: append_take_drop_id)
qed

lemma read_all_loop_ok:
  assumes "inode_ok fs N i s" "off \<le> length (vcontent i s)" "length buf = 512"
  shows "read_all_loop i s off buf v = Some (Some (v @ drop off (vcontent i s), length (vcontent i s)))"
proof -
  have sz: "length (vcontent i s) < 2 ^ 32"
    using inode_okD(2) [OF assms(1)] length_content [OF inode_okD(2) [OF assms(1)]]
    by (auto simp: vcontent_def ino_ok_def di_ok_def di_words_def)
  show ?thesis using assms(2,3)
  proof (induction "length (vcontent i s) - off" arbitrary: off buf v rule: less_induct)
    case less
    let ?c = "vcontent i s"
    have r: "vfs_read_at off buf i s = Some (length (take 512 (drop off ?c)), splice 0 (take 512 (drop off ?c)) buf)"
      using vfs_read_at_ok [OF assms(1), of off buf] less.prems sz by simp
    show ?case
    proof (cases "off = length ?c")
      case True
      then show ?thesis using r by (subst read_all_loop.simps) simp
    next
      case False
      let ?n = "length (take 512 (drop off ?c))"
      have n: "0 < ?n" "off + ?n \<le> length ?c" using False less.prems by simp_all
      have "take ?n (splice 0 (take 512 (drop off ?c)) buf) = take 512 (drop off ?c)"
        by (simp add: splice_def take_min_len)
      moreover have "take 512 (drop off ?c) @ drop (off + ?n) ?c = drop off ?c"
        by (simp add: drop_take_tail)
      ultimately show ?thesis
        using less.hyps [of "off + ?n" "splice 0 (take 512 (drop off ?c)) buf" "v @ take 512 (drop off ?c)"] n less.prems r
        by (subst read_all_loop.simps) simp
    qed
  qed
qed

text \<open>C32: \<open>read_all\<close> on a file just opened ends, does not panic and returns the whole content.\<close>

theorem read_all_returns_content:
  assumes "inode_ok fs N (osi_inode f) s" "osi_offset f = 0"
  shows "read_all f s = Some (Some (vcontent (osi_inode f) s, f\<lparr>osi_offset := length (vcontent (osi_inode f) s)\<rparr>))"
  using read_all_loop_ok [OF assms(1), of 0 "replicate 512 0" "[]"] assms(2) by (simp add: read_all_def)

theorem read_all_witness:
  "read_all (os_inode_new True False small_file) (blank_disk 1030) = Some (Some ([], os_inode_new True False small_file))"
proof -
  let ?f = "os_inode_new True False small_file"
  have "inode_ok small_fs 1030 (osi_inode ?f) (blank_disk 1030)" "osi_offset ?f = 0"
    using small_fs_ok(2) by (simp_all add: os_inode_new_def)
  from read_all_returns_content [OF this] show ?thesis
    by (simp add: os_inode_new_def vcontent_def content_def small_fs_ok(3) empty_inode_def)
qed

end
