(* ===== verification/Sched.thy ===== *)
theory Sched
  imports Prelude
begin

text \<open>
  The scheduler: \<open>kernel/src/task/manager.rs\<close>, \<open>kernel/src/task/processor.rs\<close>, the
  suspending and blocking of \<open>kernel/src/task/mod.rs\<close>, and the timers of
  \<open>kernel/src/timer.rs\<close>. A thread (an \<open>Arc<TaskControlBlock>\<close>) is a number and its
  \<open>task_status\<close> is kept here. A context switch itself (\<open>__switch\<close>, assembly) is not
  modelled: an operation that calls \<open>schedule\<close> ends there, and \<open>run_next\<close> is the pass of the
  loop of \<open>run_tasks\<close> that follows. A panic of \<open>unwrap\<close> is \<open>None\<close>.
\<close>

section \<open>Manager and processor\<close>

datatype status = Ready | Running | Blocked

record sched =
  ready_queue :: "nat list"
  current :: "nat option"
  task_status :: "nat \<Rightarrow> status"

definition set_status :: "nat \<Rightarrow> status \<Rightarrow> sched \<Rightarrow> sched" where
  "set_status t st s = s\<lparr>task_status := (task_status s)(t := st)\<rparr>"

definition manager_add :: "nat \<Rightarrow> sched \<Rightarrow> sched" where
  "manager_add t s = s\<lparr>ready_queue := ready_queue s @ [t]\<rparr>"

definition fetch :: "sched \<Rightarrow> nat option \<times> sched" where
  "fetch s = (case ready_queue s of [] \<Rightarrow> (None, s) | t # q \<Rightarrow> (Some t, s\<lparr>ready_queue := q\<rparr>))"

definition wakeup :: "nat \<Rightarrow> sched \<Rightarrow> sched" where
  "wakeup t s = manager_add t (set_status t Ready s)"

definition take_current :: "sched \<Rightarrow> nat option \<times> sched" where
  "take_current s = (current s, s\<lparr>current := None\<rparr>)"

text \<open>One pass of the loop of \<open>run_tasks\<close>; with an empty queue the loop goes round.\<close>

definition run_next :: "sched \<Rightarrow> sched" where
  "run_next s = (case fetch s of
     (None, s) \<Rightarrow> s
   | (Some t, s) \<Rightarrow> (set_status t Running s)\<lparr>current := Some t\<rparr>)"

section \<open>Leaving the processor\<close>

definition suspend_current :: "sched \<Rightarrow> sched option" where
  "suspend_current s = (case take_current s of
     (None, _) \<Rightarrow> None
   | (Some t, s) \<Rightarrow> Some (manager_add t (set_status t Ready s)))"

definition block_current :: "sched \<Rightarrow> sched option" where
  "block_current s = (case take_current s of
     (None, _) \<Rightarrow> None
   | (Some t, s) \<Rightarrow> Some (set_status t Blocked s))"

lemmas sched_defs = manager_add_def set_status_def fetch_def wakeup_def take_current_def run_next_def
  suspend_current_def block_current_def

section \<open>Timers\<close>

text \<open>
  \<open>TIMERS\<close> is a \<open>BinaryHeap\<close> whose greatest element is the one with the least \<open>expire_ms\<close>.
  The heap is a list in the order in which \<open>pop\<close> gives its elements out; the order of timers
  with the same time, which the standard library leaves open, is the order of arrival here. The
  register \<open>mtime\<close> is an argument.
\<close>

record time_cond_var =
  expire_ms :: nat
  tcv_task :: nat

definition TICKS_PER_SEC :: nat where "TICKS_PER_SEC = 100"
definition MSEC_PER_SEC :: nat where "MSEC_PER_SEC = 1000"

definition CLOCK_FREQ :: nat where "CLOCK_FREQ = 10000000"

definition get_time_ms :: "nat \<Rightarrow> nat" where
  "get_time_ms mtime = mtime div (CLOCK_FREQ div MSEC_PER_SEC)"

text \<open>The argument that \<open>set_next_trigger\<close> hands to \<open>set_timer\<close>.\<close>

definition next_trigger :: "nat \<Rightarrow> nat" where
  "next_trigger mtime = (mtime + CLOCK_FREQ div TICKS_PER_SEC) mod 2 ^ 64"

text \<open>\<open>partial_cmp\<close> compares the other way round, so that the heap gives the earliest first.\<close>

definition tcv_less :: "time_cond_var \<Rightarrow> time_cond_var \<Rightarrow> bool" where
  "tcv_less a b \<longleftrightarrow> expire_ms b < expire_ms a"

fun heap_push :: "time_cond_var \<Rightarrow> time_cond_var list \<Rightarrow> time_cond_var list" where
  "heap_push x [] = [x]"
| "heap_push x (y # ys) = (if tcv_less y x then x # y # ys else y # heap_push x ys)"

definition add_timer :: "nat \<Rightarrow> nat \<Rightarrow> time_cond_var list \<Rightarrow> time_cond_var list" where
  "add_timer expire t timers = heap_push \<lparr>expire_ms = expire, tcv_task = t\<rparr> timers"

fun check_timer :: "nat \<Rightarrow> time_cond_var list \<Rightarrow> sched \<Rightarrow> time_cond_var list \<times> sched" where
  "check_timer current_ms [] s = ([], s)"
| "check_timer current_ms (x # timers) s = (if expire_ms x \<le> current_ms
     then check_timer current_ms timers (wakeup (tcv_task x) s)
     else (x # timers, s))"

definition timers_ok :: "time_cond_var list \<Rightarrow> bool" where
  "timers_ok ts \<longleftrightarrow> sorted (map expire_ms ts)"

lemma set_heap_push [simp]: "set (heap_push x ts) = insert x (set ts)"
  by (induction ts) auto

lemma heap_push_ok: "timers_ok ts \<Longrightarrow> timers_ok (heap_push x ts)"
  by (induction ts) (auto simp: timers_ok_def tcv_less_def)

lemma wakeup_fields [simp]:
  "ready_queue (wakeup t s) = ready_queue s @ [t]" "current (wakeup t s) = current s"
  "task_status (wakeup t s) = (task_status s)(t := Ready)"
  by (simp_all add: wakeup_def manager_add_def set_status_def)

lemma check_timer_split:
  "check_timer now ts s = (dropWhile (\<lambda>x. expire_ms x \<le> now) ts,
     fold wakeup (map tcv_task (takeWhile (\<lambda>x. expire_ms x \<le> now) ts)) s)"
  by (induction now ts s rule: check_timer.induct) auto

lemma timers_ok_split:
  assumes "timers_ok ts"
  shows "takeWhile (\<lambda>x. expire_ms x \<le> now) ts = filter (\<lambda>x. expire_ms x \<le> now) ts"
    "dropWhile (\<lambda>x. expire_ms x \<le> now) ts = filter (\<lambda>x. now < expire_ms x) ts"
proof -
  have "takeWhile (\<lambda>x. expire_ms x \<le> now) ts = filter (\<lambda>x. expire_ms x \<le> now) ts \<and>
    dropWhile (\<lambda>x. expire_ms x \<le> now) ts = filter (\<lambda>x. now < expire_ms x) ts"
    using assms
  proof (induction ts)
    case (Cons a ts)
    have all: "\<forall>x\<in>set ts. expire_ms a \<le> expire_ms x" "timers_ok ts" using Cons.prems by (simp_all add: timers_ok_def)
    then have "now < expire_ms a \<Longrightarrow> filter (\<lambda>x. expire_ms x \<le> now) ts = [] \<and> filter (\<lambda>x. now < expire_ms x) ts = ts"
      by (force simp: filter_empty_conv filter_id_conv)
    then show ?case using Cons.IH all by (auto simp: not_le)
  qed simp
  then show "takeWhile (\<lambda>x. expire_ms x \<le> now) ts = filter (\<lambda>x. expire_ms x \<le> now) ts"
    "dropWhile (\<lambda>x. expire_ms x \<le> now) ts = filter (\<lambda>x. now < expire_ms x) ts" by simp_all
qed

lemma fold_wakeup:
  "ready_queue (fold wakeup ws s) = ready_queue s @ ws" "current (fold wakeup ws s) = current s"
  "task_status (fold wakeup ws s) u = (if u \<in> set ws then Ready else task_status s u)"
  by (induction ws arbitrary: s) auto

section \<open>Runs of the scheduler\<close>

text \<open>
  What can happen to the scheduler: a new thread is added, a thread is woken, the running thread
  is suspended, blocks or exits, and the idle loop takes the next thread, which it does only when
  no thread runs.
\<close>

datatype sched_event = Add nat | Wakeup nat | Suspend | Block | Leave | RunNext

fun sched_exec :: "sched_event \<Rightarrow> sched \<Rightarrow> sched option" where
  "sched_exec (Add t) s = Some (manager_add t s)"
| "sched_exec (Wakeup t) s = Some (wakeup t s)"
| "sched_exec Suspend s = suspend_current s"
| "sched_exec Block s = block_current s"
| "sched_exec Leave s = (case take_current s of (None, _) \<Rightarrow> None | (Some t, s) \<Rightarrow> Some s)"
| "sched_exec RunNext s = (if current s = None then Some (run_next s) else None)"

text \<open>The callers add new threads and wake blocked threads only.\<close>

fun event_ok :: "sched_event \<Rightarrow> sched \<Rightarrow> bool" where
  "event_ok (Add t) s \<longleftrightarrow> task_status s t = Ready \<and> t \<notin> set (ready_queue s)"
| "event_ok (Wakeup t) s \<longleftrightarrow> task_status s t = Blocked"
| "event_ok e s \<longleftrightarrow> True"

definition sched_inv :: "sched \<Rightarrow> bool" where
  "sched_inv s \<longleftrightarrow> distinct (ready_queue s) \<and> (\<forall>t\<in>set (ready_queue s). task_status s t = Ready) \<and>
     (\<forall>t. current s = Some t \<longrightarrow> task_status s t = Running)"

inductive sched_reach :: "sched \<Rightarrow> sched \<Rightarrow> bool" for s0 where
  begin_run: "sched_reach s0 s0"
| step: "sched_reach s0 s \<Longrightarrow> event_ok e s \<Longrightarrow> sched_exec e s = Some s' \<Longrightarrow> sched_reach s0 s'"

lemma sched_exec_inv: "sched_inv s \<Longrightarrow> event_ok e s \<Longrightarrow> sched_exec e s = Some s' \<Longrightarrow> sched_inv s'"
  by (cases e) (auto simp: sched_inv_def sched_defs split: option.splits list.splits prod.splits if_splits)



lemma sched_exec_queue:
  assumes "sched_exec e s = Some s'" "e \<noteq> RunNext"
  shows "\<exists>ts. ready_queue s' = ready_queue s @ ts"
  using assms by (cases e) (auto simp: sched_defs split: option.splits)

lemma run_next_head: "ready_queue s = t # q \<Longrightarrow> run_next s = (set_status t Running s)\<lparr>current := Some t, ready_queue := q\<rparr>"
  by (simp add: sched_defs)

text \<open>C13: No starvation. A thread at position \<open>k\<close> of the ready queue is the running thread at some
  point of every run in which the idle loop comes round more than \<open>k\<close> times, whatever else
  happens in between.\<close>

theorem ready_thread_runs:
  assumes "fold_opt sched_exec es s = Some s'" "k < length (ready_queue s)" "k < count_list es RunNext"
  shows "\<exists>n s1. fold_opt sched_exec (take n es) s = Some s1 \<and> current s1 = Some (ready_queue s ! k)"
  using assms
proof (induction es arbitrary: s k)
  case Nil
  then show ?case by simp
next
  case (Cons e es)
  obtain s1 where s1: "sched_exec e s = Some s1" "fold_opt sched_exec es s1 = Some s'"
    using Cons.prems(1) by (auto simp: bind_eq_Some_conv)
  have go: ?case if "\<exists>n s2. fold_opt sched_exec (take n es) s1 = Some s2 \<and> current s2 = Some (ready_queue s ! k)"
    using that s1(1) by (metis bind.bind_lunit fold_opt.simps(2) take_Suc_Cons)
  show ?case
  proof (cases "e = RunNext")
    case False
    then obtain ts where "ready_queue s1 = ready_queue s @ ts" using sched_exec_queue s1(1) by blast
    then show ?thesis using Cons.IH [OF s1(2), of k] Cons.prems(2,3) False by (intro go) (simp add: nth_append)
  next
    case True
    obtain t q where q: "ready_queue s = t # q" using Cons.prems(2) by (cases "ready_queue s") auto
    have r: "ready_queue s1 = q" "current s1 = Some t"
      using s1(1) True by (auto simp: run_next_head [OF q] split: if_splits)
    show ?thesis
    proof (cases k)
      case 0
      then show ?thesis using s1(1) q r by (intro exI [of _ 1]) simp
    next
      case (Suc j)
      then show ?thesis using Cons.IH [OF s1(2), of j] Cons.prems(2,3) True q r by (intro go) simp
    qed
  qed
qed

theorem ready_thread_runs_witness:
  "\<exists>n s1. fold_opt sched_exec (take n [RunNext, Suspend, Wakeup 5, RunNext])
     \<lparr>ready_queue = [3, 4], current = None, task_status = \<lambda>_. Ready\<rparr> = Some s1 \<and> current s1 = Some 4"
  using ready_thread_runs [of "[RunNext, Suspend, Wakeup 5, RunNext]"
    "\<lparr>ready_queue = [3, 4], current = None, task_status = \<lambda>_. Ready\<rparr>" _ 1]
  by (simp add: sched_defs)

text \<open>C28: \<open>check_timer\<close> returns; it wakes exactly the threads whose time has come, in the order of
  their times, and keeps exactly the other timers, in a heap. \<open>add_timer\<close> keeps the heap.\<close>

theorem check_timer_correct:
  assumes "timers_ok ts"
  shows "\<exists>s'. check_timer now ts s = (filter (\<lambda>x. now < expire_ms x) ts, s') \<and> current s' = current s \<and>
      ready_queue s' = ready_queue s @ map tcv_task (filter (\<lambda>x. expire_ms x \<le> now) ts) \<and>
      (\<forall>u. task_status s' u = (if u \<in> tcv_task ` {x \<in> set ts. expire_ms x \<le> now} then Ready else task_status s u)) \<and>
    timers_ok (filter (\<lambda>x. now < expire_ms x) ts) \<and>
    timers_ok (add_timer e t ts) \<and> set (add_timer e t ts) = insert \<lparr>expire_ms = e, tcv_task = t\<rparr> (set ts)"
  using assms heap_push_ok [OF assms]
  by (auto simp: check_timer_split timers_ok_split fold_wakeup add_timer_def timers_ok_def sorted_filter)

theorem check_timer_witness:
  "\<exists>s'. check_timer 20 (add_timer 20 1 (add_timer 30 2 (add_timer 10 3 []))) 
      \<lparr>ready_queue = [], current = None, task_status = \<lambda>_. Blocked\<rparr> = ([\<lparr>expire_ms = 30, tcv_task = 2\<rparr>], s') \<and>
    ready_queue s' = [3, 1]"
proof -
  have "timers_ok (add_timer 20 1 (add_timer 30 2 (add_timer 10 3 [])))"
    by (simp add: add_timer_def tcv_less_def timers_ok_def)
  from check_timer_correct [OF this, of 20 "\<lparr>ready_queue = [], current = None, task_status = \<lambda>_. Blocked\<rparr>" 0 0]
  show ?thesis by (auto simp: add_timer_def tcv_less_def)
qed

end
