(* ===== verification/Sync.thy ===== *)
theory Sync
  imports Sched
begin

text \<open>
  \<open>kernel/src/sync\<close>: the mutexes, semaphores and condition variables offered to user threads.
  The trait \<open>Mutex\<close> is the locale \<open>mutex_trait\<close>, with \<open>fair_mutex\<close> for queues; both mutexes
  of the kernel interpret it. An operation that gives up the processor ends there; its outcome says
  what the thread does when it next runs.
\<close>

section \<open>Mutexes\<close>

text \<open>\<open>Locked\<close>: the call has returned with the lock. \<open>Again\<close>: the thread was suspended and tries
  again when it runs. \<open>Parked\<close>: the thread is blocked, and returns with the lock when it runs.\<close>

datatype lock_outcome = Locked | Again | Parked

record blocking_inner =
  bl_locked :: bool
  bl_wait_queue :: "nat list"

datatype mutex = MutexSpin bool | MutexBlocking blocking_inner

definition spin_new :: mutex where
  "spin_new = MutexSpin False"

definition spin_lock :: "bool \<Rightarrow> sched \<Rightarrow> (lock_outcome \<times> bool \<times> sched) option" where
  "spin_lock locked s = (if locked then do { s' \<leftarrow> suspend_current s; Some (Again, locked, s') }
     else Some (Locked, True, s))"

definition spin_unlock :: "bool \<Rightarrow> sched \<Rightarrow> (bool \<times> sched) option" where
  "spin_unlock locked s = Some (False, s)"

definition blocking_new :: mutex where
  "blocking_new = MutexBlocking \<lparr>bl_locked = False, bl_wait_queue = []\<rparr>"

definition blocking_lock :: "blocking_inner \<Rightarrow> sched \<Rightarrow> (lock_outcome \<times> blocking_inner \<times> sched) option" where
  "blocking_lock m s = (if bl_locked m then do {
       t \<leftarrow> current s;
       s' \<leftarrow> block_current s;
       Some (Parked, m\<lparr>bl_wait_queue := bl_wait_queue m @ [t]\<rparr>, s')
     } else Some (Locked, m\<lparr>bl_locked := True\<rparr>, s))"

definition blocking_unlock :: "blocking_inner \<Rightarrow> sched \<Rightarrow> (blocking_inner \<times> sched) option" where
  "blocking_unlock m s = do {
     assert_opt (bl_locked m);
     Some (case bl_wait_queue m of
       waking_task # q \<Rightarrow> (m\<lparr>bl_wait_queue := q\<rparr>, wakeup waking_task s)
     | [] \<Rightarrow> (m\<lparr>bl_locked := False\<rparr>, s))
   }"

text \<open>The calls through \<open>dyn Mutex\<close>.\<close>

fun mutex_lock :: "mutex \<Rightarrow> sched \<Rightarrow> (lock_outcome \<times> mutex \<times> sched) option" where
  "mutex_lock (MutexSpin b) s = map_option (\<lambda>(o', b', s'). (o', MutexSpin b', s')) (spin_lock b s)"
| "mutex_lock (MutexBlocking m) s = map_option (\<lambda>(o', m', s'). (o', MutexBlocking m', s')) (blocking_lock m s)"

fun mutex_unlock :: "mutex \<Rightarrow> sched \<Rightarrow> (mutex \<times> sched) option" where
  "mutex_unlock (MutexSpin b) s = map_option (\<lambda>(b', s'). (MutexSpin b', s')) (spin_unlock b s)"
| "mutex_unlock (MutexBlocking m) s = map_option (\<lambda>(m', s'). (MutexBlocking m', s')) (blocking_unlock m s)"

section \<open>Semaphores\<close>

text \<open>\<open>isize\<close>: two's complement on 64 bits.\<close>

definition wrap_isize :: "int \<Rightarrow> int" where
  "wrap_isize x = (x + 2 ^ 63) mod 2 ^ 64 - 2 ^ 63"

record semaphore =
  sem_count :: int
  sem_wait_queue :: "nat list"

definition sem_new :: "nat \<Rightarrow> semaphore" where
  "sem_new res_count = \<lparr>sem_count = wrap_isize (int res_count), sem_wait_queue = []\<rparr>"

definition sem_up :: "semaphore \<Rightarrow> sched \<Rightarrow> semaphore \<times> sched" where
  "sem_up x s = (let x = x\<lparr>sem_count := wrap_isize (sem_count x + 1)\<rparr>
     in if sem_count x \<le> 0
        then (case sem_wait_queue x of t # q \<Rightarrow> (x\<lparr>sem_wait_queue := q\<rparr>, wakeup t s) | [] \<Rightarrow> (x, s))
        else (x, s))"

definition sem_down :: "semaphore \<Rightarrow> sched \<Rightarrow> (lock_outcome \<times> semaphore \<times> sched) option" where
  "sem_down x s = (let x = x\<lparr>sem_count := wrap_isize (sem_count x - 1)\<rparr>
     in if sem_count x < 0 then do {
          t \<leftarrow> current s;
          s' \<leftarrow> block_current s;
          Some (Parked, x\<lparr>sem_wait_queue := sem_wait_queue x @ [t]\<rparr>, s')
        } else Some (Locked, x, s))"

section \<open>Condition variables\<close>

record condvar =
  cv_wait_queue :: "nat list"

definition condvar_new :: condvar where
  "condvar_new = \<lparr>cv_wait_queue = []\<rparr>"

definition condvar_signal :: "condvar \<Rightarrow> sched \<Rightarrow> condvar \<times> sched" where
  "condvar_signal c s = (case cv_wait_queue c of
     t # q \<Rightarrow> (c\<lparr>cv_wait_queue := q\<rparr>, wakeup t s)
   | [] \<Rightarrow> (c, s))"

text \<open>\<open>wait_no_sched\<close> also stands for the first half of \<open>wait_with_mutex\<close>: the caller is queued and
  blocked. The second half, after the wake-up, is \<open>mutex_lock\<close>.\<close>

definition wait_no_sched :: "condvar \<Rightarrow> sched \<Rightarrow> (condvar \<times> sched) option" where
  "wait_no_sched c s = do {
     t \<leftarrow> current s;
     s' \<leftarrow> block_current s;
     Some (c\<lparr>cv_wait_queue := cv_wait_queue c @ [t]\<rparr>, s')
   }"

definition wait_with_mutex :: "condvar \<Rightarrow> mutex \<Rightarrow> sched \<Rightarrow> (condvar \<times> mutex \<times> sched) option" where
  "wait_with_mutex c m s = do {
     (m', s1) \<leftarrow> mutex_unlock m s;
     (c', s2) \<leftarrow> wait_no_sched c s1;
     Some (c', m', s2)
   }"

section \<open>The trait\<close>

locale mutex_trait =
  fixes is_locked :: "'m \<Rightarrow> bool" and waiters :: "'m \<Rightarrow> nat list"
    and lock :: "'m \<Rightarrow> sched \<Rightarrow> (lock_outcome \<times> 'm \<times> sched) option"
    and unlock :: "'m \<Rightarrow> sched \<Rightarrow> ('m \<times> sched) option"
  assumes lock_free: "\<not> is_locked m \<Longrightarrow>
      \<exists>m'. lock m s = Some (Locked, m', s) \<and> is_locked m' \<and> waiters m' = waiters m"
    and lock_taken: "is_locked m \<Longrightarrow> current s = Some t \<Longrightarrow>
      \<exists>out m' s'. lock m s = Some (out, m', s') \<and> out \<noteq> Locked \<and> is_locked m' \<and> current s' = None \<and>
        set (waiters m') \<subseteq> insert t (set (waiters m))"
    and unlock_locked: "is_locked m \<Longrightarrow>
      \<exists>m' s'. unlock m s = Some (m', s') \<and> current s' = current s \<and> (is_locked m' \<longleftrightarrow> waiters m \<noteq> []) \<and>
        waiters m' = drop 1 (waiters m) \<and> ready_queue s' = ready_queue s @ take 1 (waiters m)"

locale fair_mutex = mutex_trait +
  assumes lock_queues: "is_locked m \<Longrightarrow> lock m s = Some (out, m', s') \<Longrightarrow> current s = Some t \<Longrightarrow>
      waiters m' = waiters m @ [t]"

fun mutex_is_locked :: "mutex \<Rightarrow> bool" where
  "mutex_is_locked (MutexSpin b) = b"
| "mutex_is_locked (MutexBlocking m) = bl_locked m"

fun mutex_waiters :: "mutex \<Rightarrow> nat list" where
  "mutex_waiters (MutexSpin b) = []"
| "mutex_waiters (MutexBlocking m) = bl_wait_queue m"

lemmas mutex_defs = spin_lock_def spin_unlock_def blocking_lock_def blocking_unlock_def sched_defs

interpretation blk: fair_mutex bl_locked bl_wait_queue blocking_lock blocking_unlock
  by unfold_locales (auto simp: mutex_defs split: list.splits option.splits)

interpretation dyn: mutex_trait mutex_is_locked mutex_waiters mutex_lock mutex_unlock
proof
  fix m and s :: sched assume "\<not> mutex_is_locked m"
  then show "\<exists>m'. mutex_lock m s = Some (Locked, m', s) \<and> mutex_is_locked m' \<and> mutex_waiters m' = mutex_waiters m"
    by (cases m) (auto simp: mutex_defs)
next
  fix m t and s :: sched assume "mutex_is_locked m" "current s = Some t"
  then show "\<exists>out m' s'. mutex_lock m s = Some (out, m', s') \<and> out \<noteq> Locked \<and> mutex_is_locked m' \<and> current s' = None \<and>
      set (mutex_waiters m') \<subseteq> insert t (set (mutex_waiters m))"
    by (cases m) (auto simp: mutex_defs)
next
  fix m and s :: sched assume "mutex_is_locked m"
  then show "\<exists>m' s'. mutex_unlock m s = Some (m', s') \<and> current s' = current s \<and>
      (mutex_is_locked m' \<longleftrightarrow> mutex_waiters m \<noteq> []) \<and> mutex_waiters m' = drop 1 (mutex_waiters m) \<and>
      ready_queue s' = ready_queue s @ take 1 (mutex_waiters m)"
    by (cases m) (auto simp: mutex_defs split: list.splits)
qed

section \<open>Threads on a mutex\<close>

text \<open>
  The runs of threads that use one mutex: the running thread calls \<open>lock\<close>, or \<open>unlock\<close> if it is
  inside, and anything else may happen to the scheduler, except that nobody else wakes the threads
  that the mutex has parked. \<open>inside\<close> are the threads that have returned from \<open>lock\<close>, or
  return from it when they next run, and not yet called \<open>unlock\<close>: a parked thread that
  \<open>unlock\<close> makes ready is inside. \<open>granted\<close> is the order in which they got there, and the
  number counts the calls of \<open>unlock\<close>.
\<close>

record 'm mutex_sys =
  mx :: 'm
  mx_sched :: sched
  inside :: "nat set"
  granted :: "nat list"

definition mutex_start :: "'m \<Rightarrow> sched \<Rightarrow> 'm mutex_sys" where
  "mutex_start m s = \<lparr>mx = m, mx_sched = s, inside = {}, granted = []\<rparr>"

inductive mutex_steps :: "('m \<Rightarrow> nat list) \<Rightarrow> ('m \<Rightarrow> sched \<Rightarrow> (lock_outcome \<times> 'm \<times> sched) option) \<Rightarrow>
    ('m \<Rightarrow> sched \<Rightarrow> ('m \<times> sched) option) \<Rightarrow> 'm mutex_sys \<Rightarrow> nat \<Rightarrow> 'm mutex_sys \<Rightarrow> bool"
  for waiters lock unlock y0 where
  start: "mutex_steps waiters lock unlock y0 0 y0"
| lock: "mutex_steps waiters lock unlock y0 n y \<Longrightarrow> current (mx_sched y) = Some t \<Longrightarrow>
    lock (mx y) (mx_sched y) = Some (out, m', s') \<Longrightarrow>
    mutex_steps waiters lock unlock y0 n (y\<lparr>mx := m', mx_sched := s',
      inside := (if out = Locked then insert t (inside y) else inside y),
      granted := (if out = Locked then granted y @ [t] else granted y)\<rparr>)"
| unlock: "mutex_steps waiters lock unlock y0 n y \<Longrightarrow> current (mx_sched y) = Some t \<Longrightarrow> t \<in> inside y \<Longrightarrow>
    unlock (mx y) (mx_sched y) = Some (m', s') \<Longrightarrow> woken = drop (length (ready_queue (mx_sched y))) (ready_queue s') \<Longrightarrow>
    mutex_steps waiters lock unlock y0 (Suc n) (y\<lparr>mx := m', mx_sched := s',
      inside := (inside y - {t}) \<union> set woken, granted := granted y @ woken\<rparr>)"
| other: "mutex_steps waiters lock unlock y0 n y \<Longrightarrow> sched_exec e (mx_sched y) = Some s' \<Longrightarrow>
    (\<forall>t\<in>set (waiters (mx y)). e \<noteq> Wakeup t) \<Longrightarrow>
    mutex_steps waiters lock unlock y0 n (y\<lparr>mx_sched := s'\<rparr>)"

context mutex_trait begin

abbreviation one_inside :: "'m mutex_sys \<Rightarrow> bool" where
  "one_inside y \<equiv> (\<exists>t. inside y \<subseteq> {t}) \<and> (is_locked (mx y) \<longleftrightarrow> inside y \<noteq> {})"

lemma steps_one_inside:
  assumes "mutex_steps waiters lock unlock (mutex_start m s) n y" "\<not> is_locked m"
  shows "one_inside y"
  using assms(1)
proof induction
  case start
  then show ?case using assms(2) by (simp add: mutex_start_def)
next
  case (lock n y t out m' s')
  show ?case
  proof (cases "is_locked (mx y)")
    case True
    then show ?thesis using lock.IH lock.hyps(3) lock_taken [OF True lock.hyps(2)] by auto
  next
    case False
    then show ?thesis using lock.IH lock.hyps(3) lock_free [OF False, of "mx_sched y"] by auto
  qed
next
  case (unlock n y t m' s' woken)
  have l: "is_locked (mx y)" and i: "inside y = {t}" using unlock.IH unlock.hyps(3) by auto
  from unlock_locked [OF l, of "mx_sched y"] unlock.hyps(4,5)
  have "woken = take 1 (waiters (mx y))" "is_locked m' \<longleftrightarrow> waiters (mx y) \<noteq> []" by auto
  then show ?case using i by (cases "waiters (mx y)") auto
qed auto

lemma steps_unlock_defined:
  assumes "mutex_steps waiters lock unlock (mutex_start m s) n y" "\<not> is_locked m" "t \<in> inside y"
  shows "unlock (mx y) (mx_sched y) \<noteq> None"
  using steps_one_inside [OF assms(1,2)] unlock_locked [of "mx y" "mx_sched y"] assms(3) by auto

end

context fair_mutex begin

lemma steps_grant_in_order:
  assumes "mutex_steps waiters lock unlock y0 n y" "is_locked (mx y0)" "n \<le> length (waiters (mx y0))"
  shows "granted y = granted y0 @ take n (waiters (mx y0)) \<and> is_locked (mx y) \<and>
    (\<exists>new. waiters (mx y) = drop n (waiters (mx y0)) @ new)"
  using assms
proof induction
  case (lock n y t out m' s')
  then have l: "is_locked (mx y)" by blast
  then show ?case using lock lock_taken [OF l lock.hyps(2)] lock_queues [OF l lock.hyps(3,2)] by auto
next
  case (unlock n y t m' s' woken)
  from unlock.prems have l: "n < length (waiters (mx y0))" by simp
  with unlock obtain new where y: "granted y = granted y0 @ take n (waiters (mx y0))" "is_locked (mx y)"
    "waiters (mx y) = drop n (waiters (mx y0)) @ new" by auto
  from unlock_locked [OF y(2), of "mx_sched y"] unlock.hyps(4,5)
  have w: "woken = take 1 (waiters (mx y))" "is_locked m' \<longleftrightarrow> waiters (mx y) \<noteq> []" "waiters m' = drop 1 (waiters (mx y))" by auto
  have d: "drop n (waiters (mx y0)) = waiters (mx y0) ! n # drop (Suc n) (waiters (mx y0))"
    using l by (simp add: Cons_nth_drop_Suc)
  have "woken = [waiters (mx y0) ! n]" using w(1) y(3) d by simp
  then show ?case using w y(1,3) d l by (simp add: take_Suc_conv_app_nth)
qed auto

end

text \<open>C7: Mutual exclusion. Whatever the threads and the scheduler do, at most one thread is inside a
  mutex of either kind; a call of \<open>unlock\<close> by the thread inside does not panic; and \<open>lock\<close>
  returns at once exactly when nobody is inside.\<close>

theorem mutual_exclusion:
  assumes "mutex_steps mutex_waiters mutex_lock mutex_unlock (mutex_start m s) n y" "m = spin_new \<or> m = blocking_new"
    and "current (mx_sched y) = Some t"
  shows "(\<exists>u. inside y \<subseteq> {u}) \<and> (t \<in> inside y \<longrightarrow> mutex_unlock (mx y) (mx_sched y) \<noteq> None) \<and>
    (\<exists>out m' s'. mutex_lock (mx y) (mx_sched y) = Some (out, m', s') \<and> (out = Locked \<longleftrightarrow> inside y = {}))"
proof -
  have free: "\<not> mutex_is_locked m" using assms(2) by (auto simp: spin_new_def blocking_new_def)
  note one = dyn.steps_one_inside [OF assms(1) free]
  have "\<exists>out m' s'. mutex_lock (mx y) (mx_sched y) = Some (out, m', s') \<and> (out = Locked \<longleftrightarrow> inside y = {})"
  proof (cases "inside y = {}")
    case True
    then show ?thesis using one dyn.lock_free [of "mx y" "mx_sched y"] by auto
  next
    case False
    then show ?thesis using one dyn.lock_taken [of "mx y", OF _ assms(3)] by fastforce
  qed
  then show ?thesis using one dyn.steps_unlock_defined [OF assms(1) free, of t] by blast
qed

lemma blocking_contended:
  defines "s0 \<equiv> \<lparr>ready_queue = [2], current = Some 1, task_status = \<lambda>_. Running\<rparr>"
  obtains y where "mutex_steps mutex_waiters mutex_lock mutex_unlock (mutex_start blocking_new s0) 0 y"
    "current (mx_sched y) = Some 1" "inside y = {1}"
proof -
  have 0: "mutex_steps mutex_waiters mutex_lock mutex_unlock (mutex_start blocking_new s0) 0 (mutex_start blocking_new s0)"
    by (rule mutex_steps.start)
  have l: "mutex_lock (mx (mutex_start blocking_new s0)) (mx_sched (mutex_start blocking_new s0)) =
    Some (Locked, MutexBlocking \<lparr>bl_locked = True, bl_wait_queue = []\<rparr>, s0)"
    by (simp add: mutex_start_def blocking_new_def blocking_lock_def)
  have c: "current (mx_sched (mutex_start blocking_new s0)) = Some 1" by (simp add: mutex_start_def s0_def)
  show ?thesis by (rule that [OF mutex_steps.lock [OF 0 c l]]) (simp_all add: mutex_start_def s0_def)
qed

theorem mutual_exclusion_witness:
  "\<exists>y :: mutex mutex_sys. inside y = {1} \<and> mutex_unlock (mx y) (mx_sched y) \<noteq> None \<and>
    (\<exists>out m' s'. mutex_lock (mx y) (mx_sched y) = Some (out, m', s') \<and> out \<noteq> Locked)"
proof -
  obtain y where y: "mutex_steps mutex_waiters mutex_lock mutex_unlock
      (mutex_start blocking_new \<lparr>ready_queue = [2], current = Some 1, task_status = \<lambda>_. Running\<rparr>) 0 y"
    "current (mx_sched y) = Some 1" "inside y = {1}" by (rule blocking_contended)
  from mutual_exclusion [OF y(1) disjI2 [OF refl] y(2)] show ?thesis using y(3) by (intro exI [of _ y]) auto
qed



section \<open>Threads on a semaphore\<close>

lemma wrap_isize_id [simp]: "- (2 ^ 63) \<le> x \<Longrightarrow> x < 2 ^ 63 \<Longrightarrow> wrap_isize x = x"
  by (simp add: wrap_isize_def)

text \<open>
  The runs of threads on one semaphore, with the number of calls of \<open>up\<close> and \<open>down\<close> so far and
  the number of calls of \<open>down\<close> that have returned or return when their thread next runs.
\<close>

record sem_sys =
  sm :: semaphore
  sm_sched :: sched
  ups :: nat
  downs :: nat
  passed :: nat

inductive sem_run :: "nat \<Rightarrow> sem_sys \<Rightarrow> bool" for res_count where
  sem_start: "sem_run res_count \<lparr>sm = sem_new res_count, sm_sched = s, ups = 0, downs = 0, passed = 0\<rparr>"
| sem_down: "sem_run res_count y \<Longrightarrow> sem_down (sm y) (sm_sched y) = Some (out, x', s') \<Longrightarrow>
    sem_run res_count (y\<lparr>sm := x', sm_sched := s', downs := downs y + 1,
      passed := (if out = Locked then passed y + 1 else passed y)\<rparr>)"
| sem_up: "sem_run res_count y \<Longrightarrow> sem_up (sm y) (sm_sched y) = (x', s') \<Longrightarrow>
    sem_run res_count (y\<lparr>sm := x', sm_sched := s', ups := ups y + 1,
      passed := passed y + (length (ready_queue s') - length (ready_queue (sm_sched y)))\<rparr>)"
| sem_other: "sem_run res_count y \<Longrightarrow> sched_exec e (sm_sched y) = Some s' \<Longrightarrow>
    (\<forall>t\<in>set (sem_wait_queue (sm y)). e \<noteq> Wakeup t) \<Longrightarrow> sem_run res_count (y\<lparr>sm_sched := s'\<rparr>)"

definition sem_inv :: "nat \<Rightarrow> sem_sys \<Rightarrow> bool" where
  "sem_inv r y \<longleftrightarrow> sem_count (sm y) = int (r + ups y) - int (downs y) \<and>
     length (sem_wait_queue (sm y)) = downs y - (r + ups y) \<and> passed y = min (downs y) (r + ups y)"

lemma sem_run_inv:
  assumes "sem_run r y" "r + ups y < 2 ^ 63" "downs y < 2 ^ 63"
  shows "sem_inv r y"
  using assms
proof induction
  case (sem_start s)
  then show ?case by (simp add: sem_inv_def sem_new_def)
next
  case (sem_down y out x' s')
  then have inv: "sem_inv r y" by simp
  have w: "wrap_isize (sem_count (sm y) - 1) = int (r + ups y) - int (downs y) - 1"
    using inv sem_down.prems by (subst wrap_isize_id) (auto simp: sem_inv_def)
  show ?case
  proof (cases "downs y < r + ups y")
    case True
    then show ?thesis using sem_down.hyps(2) inv by (auto simp: sem_down_def w Let_def sem_inv_def)
  next
    case False
    then show ?thesis using sem_down.hyps(2) inv by (auto simp: sem_down_def w Let_def sem_inv_def bind_eq_Some_conv)
  qed
next
  case (sem_up y x' s')
  then have inv: "sem_inv r y" by simp
  have w: "wrap_isize (sem_count (sm y) + 1) = int (r + ups y) - int (downs y) + 1"
    using inv sem_up.prems by (subst wrap_isize_id) (auto simp: sem_inv_def)
  show ?case
  proof (cases "sem_wait_queue (sm y)")
    case Nil
    then show ?thesis using sem_up.hyps(2) inv by (auto simp: sem_up_def w Let_def sem_inv_def split: if_splits)
  next
    case (Cons t q)
    have "int (r + ups y) - int (downs y) + 1 \<le> 0"
      using inv arg_cong [OF Cons, of length] unfolding sem_inv_def by simp linarith
    with Cons show ?thesis using sem_up.hyps(2) inv by (auto simp: sem_up_def w Let_def sem_inv_def)
  qed
qed (simp add: sem_inv_def)



definition signal_st :: "condvar \<times> sched \<Rightarrow> condvar \<times> sched" where
  "signal_st = (\<lambda>(c, s). condvar_signal c s)"

lemma signal_many: "(signal_st ^^ length q) (\<lparr>cv_wait_queue = q\<rparr>, s) = (\<lparr>cv_wait_queue = []\<rparr>, fold wakeup q s)"
  by (induction q arbitrary: s) (simp_all add: funpow_Suc_right signal_st_def condvar_signal_def del: funpow.simps)

text \<open>A thread that waits on a condition variable with a mutex it holds releases the mutex, is
  queued last and leaves the processor before another thread runs; once as many signals have come
  as there are threads in the queue, they have been woken in the order of the queue, this thread
  last.\<close>

theorem condvar_wait_correct:
  assumes "mutex_is_locked m" "current s = Some t"
  shows "\<exists>c' m' s'. wait_with_mutex c m s = Some (c', m', s') \<and> cv_wait_queue c' = cv_wait_queue c @ [t] \<and>
      (mutex_is_locked m' \<longleftrightarrow> mutex_waiters m \<noteq> []) \<and> ready_queue s' = ready_queue s @ take 1 (mutex_waiters m) \<and>
      current s' = None \<and> task_status s' t = Blocked \<and>
      (\<forall>s1. ready_queue (snd ((signal_st ^^ Suc (length (cv_wait_queue c))) (c', s1))) =
        ready_queue s1 @ cv_wait_queue c @ [t])"
proof -
  from dyn.unlock_locked [OF assms(1), of s] obtain m' s1 where
    u: "mutex_unlock m s = Some (m', s1)" "current s1 = Some t" "mutex_is_locked m' \<longleftrightarrow> mutex_waiters m \<noteq> []"
    "ready_queue s1 = ready_queue s @ take 1 (mutex_waiters m)" using assms(2) by auto
  let ?q = "cv_wait_queue c @ [t]"
  have "ready_queue (snd ((signal_st ^^ Suc (length (cv_wait_queue c))) (\<lparr>cv_wait_queue = ?q\<rparr>, s2))) = ready_queue s2 @ ?q" for s2
    using signal_many [of ?q s2] by (simp add: fold_wakeup del: funpow.simps)
  moreover have "wait_with_mutex c m s = Some (\<lparr>cv_wait_queue = ?q\<rparr>, m', set_status t Blocked (s1\<lparr>current := None\<rparr>))"
    using u by (simp add: wait_with_mutex_def wait_no_sched_def block_current_def take_current_def)
  ultimately show ?thesis using u by (simp add: set_status_def)
qed

theorem condvar_wait_witness:
  "\<exists>c' m' s'. wait_with_mutex \<lparr>cv_wait_queue = [8]\<rparr> (MutexSpin True)
      \<lparr>ready_queue = [5], current = Some 9, task_status = \<lambda>_. Running\<rparr> = Some (c', m', s') \<and>
    cv_wait_queue c' = [8, 9] \<and> \<not> mutex_is_locked m' \<and> ready_queue s' = [5]"
  using condvar_wait_correct [of "MutexSpin True" "\<lparr>ready_queue = [5], current = Some 9, task_status = \<lambda>_. Running\<rparr>" 9 "\<lparr>cv_wait_queue = [8]\<rparr>"]
  by auto

end
