(* ===== verification/Task.thy ===== *)
theory Task
  imports OsFs Sync Pipe
begin

text \<open>
  The state of the kernel, and the resources of threads: \<open>kernel/src/task/id.rs\<close>,
  \<open>kernel/src/task/tcb.rs\<close>, \<open>kernel/src/task/context.rs\<close>, \<open>kernel/src/trap/context.rs\<close> and the
  records of \<open>kernel/src/task/pcb.rs\<close>. A process (an \<open>Arc<ProcessControlBlock>\<close>) is known by its
  pid and a thread by the id of its kernel stack: both ids are held as long as the object lives, so
  they name one object. A weak reference is the id; \<open>upgrade\<close> finds it in the table. The status of
  a thread is in the scheduler. Files are objects with an identity of their own, shared by the
  descriptors that point to them.
\<close>

unbundle bit_operations_syntax

section \<open>Contexts\<close>

record trap_context =
  tc_x :: "nat list"
  tc_sstatus :: nat
  tc_sepc :: nat
  tc_kernel_satp :: nat
  tc_kernel_sp :: nat
  tc_trap_handler :: nat

definition tc_set_sp :: "nat \<Rightarrow> trap_context \<Rightarrow> trap_context" where
  "tc_set_sp sp cx = cx\<lparr>tc_x := (tc_x cx)[2 := sp]\<rparr>"

text \<open>The value read from \<open>sstatus\<close> is an argument; \<open>set_spp(User)\<close> clears bit 8.\<close>

definition app_init_context :: "nat \<Rightarrow> nat \<Rightarrow> nat \<Rightarrow> nat \<Rightarrow> nat \<Rightarrow> nat \<Rightarrow> trap_context" where
  "app_init_context sstatus entry_va sp kernel_satp kernel_sp trap_handler =
     tc_set_sp sp \<lparr>tc_x = replicate 32 0, tc_sstatus = unset_bit 8 sstatus, tc_sepc = entry_va,
       tc_kernel_satp = kernel_satp, tc_kernel_sp = kernel_sp, tc_trap_handler = trap_handler\<rparr>"

text \<open>The context lies at the start of its frame, as \<open>repr(C)\<close> lays it out.\<close>

definition tc_words :: "trap_context \<Rightarrow> nat list" where
  "tc_words cx = tc_x cx @ [tc_sstatus cx, tc_sepc cx, tc_kernel_satp cx, tc_kernel_sp cx, tc_trap_handler cx]"

definition tc_of_words :: "nat list \<Rightarrow> trap_context" where
  "tc_of_words ws = \<lparr>tc_x = take 32 ws, tc_sstatus = ws ! 32, tc_sepc = ws ! 33, tc_kernel_satp = ws ! 34,
     tc_kernel_sp = ws ! 35, tc_trap_handler = ws ! 36\<rparr>"

definition trap_cx_get :: "nat \<Rightarrow> kmem \<Rightarrow> trap_context" where
  "trap_cx_get ppn m = tc_of_words (words_of 8 37 (km_frames m ppn))"

definition trap_cx_put :: "nat \<Rightarrow> trap_context \<Rightarrow> kmem \<Rightarrow> kmem" where
  "trap_cx_put ppn cx m = m\<lparr>km_frames := (km_frames m)(ppn := splice 0 (bytes_of 8 (tc_words cx)) (km_frames m ppn))\<rparr>"

record task_context =
  cx_ra :: nat
  cx_sp :: nat
  cx_s :: "nat list"

definition zero_init :: task_context where
  "zero_init = \<lparr>cx_ra = 0, cx_sp = 0, cx_s = replicate 12 0\<rparr>"

definition leave_trap :: "nat \<Rightarrow> nat \<Rightarrow> task_context" where
  "leave_trap leave kstack_ptr = \<lparr>cx_ra = leave, cx_sp = kstack_ptr, cx_s = replicate 12 0\<rparr>"

section \<open>The kernel\<close>

record task_user_res =
  tur_tid :: nat
  tur_ustack_base :: nat
  tur_process :: nat

record tcb =
  tcb_process :: nat
  tcb_res :: "task_user_res option"
  tcb_trap_cx_ppn :: nat
  tcb_task_cx :: task_context
  tcb_exit_code :: "int option"

record process =
  is_zombie :: bool
  memory_set :: memory_set
  parent :: "nat option"
  children :: "nat list"
  exit_code :: int
  cwd :: "u8 list"
  fd_table :: "nat option list"
  signals :: nat
  tasks :: "nat option list"
  task_res_allocator :: recycle_allocator
  mutex_list :: "mutex option list"
  semaphore_list :: "semaphore option list"
  condvar_list :: "condvar option list"

datatype file_obj = FStdin | FStdout | FInode os_inode | FPipe pipe nat

record kernel =
  k_mem :: kmem
  k_space :: memory_set
  k_pid_allocator :: recycle_allocator
  k_kstack_allocator :: recycle_allocator
  k_tasks :: "nat \<Rightarrow> tcb option"
  k_procs :: "nat \<Rightarrow> process option"
  k_pid2pcb :: "nat set"
  k_sched :: sched
  k_timers :: "time_cond_var list"
  k_files :: "nat \<Rightarrow> file_obj option"
  k_next_file :: nat
  k_rings :: "nat \<Rightarrow> ring option"
  k_efs :: efs
  k_disk :: disk
  k_root :: inode
  k_proc_inode :: inode
  k_console :: "u8 list"

text \<open>What the kernel image and the hart provide: the trampoline, the addresses of the trap handler
  and of \<open>leave\<close>, the value of \<open>sstatus\<close>, and the ELF parser.\<close>

record env =
  e_strampoline :: nat
  e_user_handler :: nat
  e_leave :: nat
  e_sstatus :: nat
  e_elf :: "u8 list \<Rightarrow> elf_file option"

definition upd_proc :: "nat \<Rightarrow> (process \<Rightarrow> process) \<Rightarrow> kernel \<Rightarrow> kernel" where
  "upd_proc pid f k = k\<lparr>k_procs := (k_procs k)(pid := map_option f (k_procs k pid))\<rparr>"

definition upd_task :: "nat \<Rightarrow> (tcb \<Rightarrow> tcb) \<Rightarrow> kernel \<Rightarrow> kernel" where
  "upd_task t f k = k\<lparr>k_tasks := (k_tasks k)(t := map_option f (k_tasks k t))\<rparr>"

section \<open>Stacks and trap contexts\<close>

definition KERNEL_STACK_SIZE :: nat where "KERNEL_STACK_SIZE = 4096 * 2"
definition USER_STACK_SIZE :: nat where "USER_STACK_SIZE = 4096 * 2"

definition kernel_stack_position :: "nat \<Rightarrow> nat \<times> nat" where
  "kernel_stack_position kstack_id = (
     let stack_top = usub TRAMPOLINE ((kstack_id * (KERNEL_STACK_SIZE + PAGE_SIZE)) mod 2 ^ 64);
         stack_bottom = usub stack_top KERNEL_STACK_SIZE
     in (stack_bottom, stack_top))"

definition trap_cx_bottom_from_tid :: "nat \<Rightarrow> nat" where
  "trap_cx_bottom_from_tid tid = usub TRAP_CONTEXT_BASE ((tid * PAGE_SIZE) mod 2 ^ 64)"

definition ustack_bottom_from_tid :: "nat \<Rightarrow> nat \<Rightarrow> nat" where
  "ustack_bottom_from_tid ustack_base tid = (ustack_base + tid * (PAGE_SIZE + USER_STACK_SIZE)) mod 2 ^ 64"

definition kstack_top :: "nat \<Rightarrow> nat" where
  "kstack_top kstack_id = snd (kernel_stack_position kstack_id)"

definition kstack_alloc :: "kernel \<Rightarrow> (nat \<times> kernel) option" where
  "kstack_alloc k = (case ra_alloc (k_kstack_allocator k) of (kstack_id, al) \<Rightarrow>
     case kernel_stack_position kstack_id of (stack_bottom, stack_top) \<Rightarrow> do {
       (ms, m) \<leftarrow> ms_insert_framed_area (virt_addr_from stack_bottom) (virt_addr_from stack_top) (PERM_R OR PERM_W) (k_space k, k_mem k);
       Some (kstack_id, k\<lparr>k_kstack_allocator := al, k_space := ms, k_mem := m\<rparr>)
     })"

definition kstack_drop :: "nat \<Rightarrow> kernel \<Rightarrow> kernel option" where
  "kstack_drop kstack_id k = (case kernel_stack_position kstack_id of (stack_bottom, stack_top) \<Rightarrow> do {
     vpn \<leftarrow> pn_from_addr (virt_addr_from stack_bottom);
     (ms, m) \<leftarrow> ms_remove_area_with_start_vpn vpn (k_space k, k_mem k);
     al \<leftarrow> ra_dealloc kstack_id (k_kstack_allocator k);
     Some (k\<lparr>k_space := ms, k_mem := m, k_kstack_allocator := al\<rparr>)
   })"

definition pid_alloc :: "kernel \<Rightarrow> nat \<times> kernel" where
  "pid_alloc k = (case ra_alloc (k_pid_allocator k) of (pid, al) \<Rightarrow> (pid, k\<lparr>k_pid_allocator := al\<rparr>))"

definition pid_drop :: "nat \<Rightarrow> kernel \<Rightarrow> kernel option" where
  "pid_drop pid k = do { al \<leftarrow> ra_dealloc pid (k_pid_allocator k); Some (k\<lparr>k_pid_allocator := al\<rparr>) }"

section \<open>User resources of a thread\<close>

definition alloc_tid :: "process \<Rightarrow> nat \<times> process" where
  "alloc_tid p = (case ra_alloc (task_res_allocator p) of (tid, al) \<Rightarrow> (tid, p\<lparr>task_res_allocator := al\<rparr>))"

definition dealloc_tid :: "nat \<Rightarrow> process \<Rightarrow> process option" where
  "dealloc_tid tid p = do { al \<leftarrow> ra_dealloc tid (task_res_allocator p); Some (p\<lparr>task_res_allocator := al\<rparr>) }"

definition ustack_top :: "task_user_res \<Rightarrow> nat" where
  "ustack_top r = (ustack_bottom_from_tid (tur_ustack_base r) (tur_tid r) + USER_STACK_SIZE) mod 2 ^ 64"

definition trap_cx_user_va :: "task_user_res \<Rightarrow> nat" where
  "trap_cx_user_va r = trap_cx_bottom_from_tid (tur_tid r)"

definition alloc_user_res :: "task_user_res \<Rightarrow> kernel \<Rightarrow> kernel option" where
  "alloc_user_res r k = do {
     p \<leftarrow> k_procs k (tur_process r);
     let ustack_bottom = ustack_bottom_from_tid (tur_ustack_base r) (tur_tid r);
     s1 \<leftarrow> ms_insert_framed_area (virt_addr_from ustack_bottom) (virt_addr_from (ustack_top r))
       (PERM_R OR PERM_W OR PERM_U) (memory_set p, k_mem k);
     let trap_cx_bottom = trap_cx_bottom_from_tid (tur_tid r);
     (ms, m) \<leftarrow> ms_insert_framed_area (virt_addr_from trap_cx_bottom)
       (virt_addr_from ((trap_cx_bottom + PAGE_SIZE) mod 2 ^ 64)) (PERM_R OR PERM_W) s1;
     Some ((upd_proc (tur_process r) (\<lambda>p. p\<lparr>memory_set := ms\<rparr>) k)\<lparr>k_mem := m\<rparr>)
   }"

definition dealloc_user_res :: "task_user_res \<Rightarrow> kernel \<Rightarrow> kernel option" where
  "dealloc_user_res r k = do {
     p \<leftarrow> k_procs k (tur_process r);
     ustack_vpn \<leftarrow> pn_from_addr (virt_addr_from (ustack_bottom_from_tid (tur_ustack_base r) (tur_tid r)));
     s1 \<leftarrow> ms_remove_area_with_start_vpn ustack_vpn (memory_set p, k_mem k);
     trap_cx_vpn \<leftarrow> pn_from_addr (virt_addr_from (trap_cx_bottom_from_tid (tur_tid r)));
     (ms, m) \<leftarrow> ms_remove_area_with_start_vpn trap_cx_vpn s1;
     Some ((upd_proc (tur_process r) (\<lambda>p. p\<lparr>memory_set := ms\<rparr>) k)\<lparr>k_mem := m\<rparr>)
   }"

text \<open>\<open>Drop for TaskUserRes\<close>.\<close>

definition tur_drop :: "task_user_res \<Rightarrow> kernel \<Rightarrow> kernel option" where
  "tur_drop r k = do {
     p \<leftarrow> k_procs k (tur_process r);
     p' \<leftarrow> dealloc_tid (tur_tid r) p;
     dealloc_user_res r (upd_proc (tur_process r) (\<lambda>_. p') k)
   }"

definition tur_new :: "nat \<Rightarrow> nat \<Rightarrow> bool \<Rightarrow> kernel \<Rightarrow> (task_user_res \<times> kernel) option" where
  "tur_new pid ustack_base alloc k = do {
     p \<leftarrow> k_procs k pid;
     let (tid, p') = alloc_tid p;
     let r = \<lparr>tur_tid = tid, tur_ustack_base = ustack_base, tur_process = pid\<rparr>;
     let k1 = upd_proc pid (\<lambda>_. p') k;
     k2 \<leftarrow> (if alloc then alloc_user_res r k1 else Some k1);
     Some (r, k2)
   }"

definition trap_cx_ppn :: "task_user_res \<Rightarrow> kernel \<Rightarrow> nat option" where
  "trap_cx_ppn r k = do {
     p \<leftarrow> k_procs k (tur_process r);
     vpn \<leftarrow> pn_from_addr (virt_addr_from (trap_cx_bottom_from_tid (tur_tid r)));
     e \<leftarrow> ms_translate (memory_set p) vpn (k_mem k);
     Some (pte_ppn e)
   }"

section \<open>Threads\<close>

text \<open>\<open>TaskControlBlock::new\<close>: the new thread is \<open>Ready\<close> and in no queue.\<close>

definition tcb_new :: "env \<Rightarrow> nat \<Rightarrow> nat \<Rightarrow> bool \<Rightarrow> kernel \<Rightarrow> (nat \<times> kernel) option" where
  "tcb_new e pid ustack_base alloc k = do {
     (r, k1) \<leftarrow> tur_new pid ustack_base alloc k;
     ppn \<leftarrow> trap_cx_ppn r k1;
     (t, k2) \<leftarrow> kstack_alloc k1;
     Some (t, k2\<lparr>k_tasks := (k_tasks k2)(t \<mapsto> \<lparr>tcb_process = pid, tcb_res = Some r, tcb_trap_cx_ppn = ppn,
         tcb_task_cx = leave_trap (e_leave e) (kstack_top t), tcb_exit_code = None\<rparr>),
       k_sched := set_status t Ready (k_sched k2)\<rparr>)
   }"

definition current_tcb :: "kernel \<Rightarrow> (nat \<times> tcb) option" where
  "current_tcb k = do { t \<leftarrow> current (k_sched k); b \<leftarrow> k_tasks k t; Some (t, b) }"

definition current_pcb :: "kernel \<Rightarrow> (nat \<times> process) option" where
  "current_pcb k = do { (t, b) \<leftarrow> current_tcb k; p \<leftarrow> k_procs k (tcb_process b); Some (tcb_process b, p) }"

definition current_user_token :: "kernel \<Rightarrow> nat option" where
  "current_user_token k = do { (pid, p) \<leftarrow> current_pcb k; Some (ms_token (memory_set p)) }"

definition current_trap_cx :: "kernel \<Rightarrow> trap_context option" where
  "current_trap_cx k = do { (t, b) \<leftarrow> current_tcb k; Some (trap_cx_get (tcb_trap_cx_ppn b) (k_mem k)) }"

definition current_trap_cx_user_va :: "kernel \<Rightarrow> nat option" where
  "current_trap_cx_user_va k = do { (t, b) \<leftarrow> current_tcb k; r \<leftarrow> tcb_res b; Some (trap_cx_user_va r) }"

text \<open>
  A control block lives while something refers to it: the processor, the ready queue, a timer or a
  queue of a synchronisation object of a process. \<open>tcb_release\<close> drops the reference from the
  list of its process, and with the last one the kernel stack. Every caller holds the inner state of
  the process, or drops the process itself: if the block still had its user resources, their
  \<open>drop\<close> would borrow that state again, or not find it, and panic.
\<close>

definition proc_queues :: "process \<Rightarrow> nat set" where
  "proc_queues p = (\<Union>m\<in>set (mutex_list p). case m of Some x \<Rightarrow> set (mutex_waiters x) | None \<Rightarrow> {}) \<union>
     (\<Union>m\<in>set (semaphore_list p). case m of Some x \<Rightarrow> set (sem_wait_queue x) | None \<Rightarrow> {}) \<union>
     (\<Union>m\<in>set (condvar_list p). case m of Some x \<Rightarrow> set (cv_wait_queue x) | None \<Rightarrow> {})"

definition tcb_referenced :: "nat \<Rightarrow> nat \<Rightarrow> kernel \<Rightarrow> bool" where
  "tcb_referenced pid t k \<longleftrightarrow> current (k_sched k) = Some t \<or> t \<in> set (ready_queue (k_sched k)) \<or>
     t \<in> tcv_task ` set (k_timers k) \<or> (case k_procs k pid of Some p \<Rightarrow> t \<in> proc_queues p | None \<Rightarrow> False)"

definition tcb_release :: "nat \<Rightarrow> nat \<Rightarrow> kernel \<Rightarrow> kernel option" where
  "tcb_release pid t k = (if tcb_referenced pid t k then Some k
     else do {
       b \<leftarrow> k_tasks k t;
       k1 \<leftarrow> kstack_drop t k;
       assert_opt (tcb_res b = None);
       Some (k1\<lparr>k_tasks := (k_tasks k1)(t := None)\<rparr>)
     })"

section \<open>Layout of the stacks\<close>

lemma layout_consts: "TRAMPOLINE = 2 ^ 64 - 4096" "TRAP_CONTEXT_BASE = 2 ^ 64 - 8192"
  "KERNEL_STACK_SIZE = 8192" "USER_STACK_SIZE = 8192"
  by (simp_all add: TRAMPOLINE_def TRAP_CONTEXT_BASE_def KERNEL_STACK_SIZE_def USER_STACK_SIZE_def)

lemma usub_le: "b \<le> a \<Longrightarrow> a < 2 ^ 64 \<Longrightarrow> usub a b = a - b"
proof -
  assume "b \<le> a" "a < 2 ^ 64"
  then have "a + 2 ^ 64 - b = (a - b) + 2 ^ 64" "a - b < 2 ^ 64" by simp_all
  then show ?thesis unfolding usub_def by (simp only: mod_add_self2 mod_less)
qed

lemma kernel_stack_position_eq:
  assumes "sid < 2 ^ 24"
  shows "kernel_stack_position sid = (2 ^ 64 - 4096 - sid * 12288 - 8192, 2 ^ 64 - 4096 - sid * 12288)"
proof -
  have "(sid * 12288) mod 2 ^ 64 = sid * 12288" using assms by simp
  moreover have "usub (2 ^ 64 - 4096) (sid * 12288) = 2 ^ 64 - 4096 - sid * 12288"
    "usub (2 ^ 64 - 4096 - sid * 12288) 8192 = 2 ^ 64 - 4096 - sid * 12288 - 8192"
    using assms by (intro usub_le; simp)+
  ultimately show ?thesis unfolding kernel_stack_position_def layout_consts page_consts Let_def
    by (simp only: numeral_plus_numeral arith_simps)
qed

lemma trap_cx_bottom_eq:
  assumes "tid < 2 ^ 24"
  shows "trap_cx_bottom_from_tid tid = 2 ^ 64 - 8192 - tid * 4096"
proof -
  have "(tid * 4096) mod 2 ^ 64 = tid * 4096" using assms by simp
  moreover have "usub (2 ^ 64 - 8192) (tid * 4096) = 2 ^ 64 - 8192 - tid * 4096" using assms by (intro usub_le; simp)
  ultimately show ?thesis unfolding trap_cx_bottom_from_tid_def layout_consts page_consts by (simp only:)
qed

lemma ustack_bottom_eq:
  assumes "base + (tid + 1) * 12288 \<le> 2 ^ 38"
  shows "ustack_bottom_from_tid base tid = base + tid * 12288"
  using assms by (simp add: ustack_bottom_from_tid_def layout_consts)

text \<open>C33: Stacks and trap contexts of different threads. For ids in range and a user stack base that
  leaves room, between two kernel stacks and between two user stacks there is an unmapped guard
  page, trap contexts do not overlap, all of the kernel side lies in the upper canonical half
  below the trampoline, and user stacks lie in the lower half.\<close>

theorem stacks_apart:
  assumes "a < b" "b < 2 ^ 24" "base + (b + 1) * 12288 \<le> 2 ^ 38"
  shows "snd (kernel_stack_position b) + PAGE_SIZE \<le> fst (kernel_stack_position a) \<and>
    snd (kernel_stack_position a) \<le> TRAMPOLINE \<and> 2 ^ 64 - 2 ^ 38 \<le> fst (kernel_stack_position b) \<and>
    trap_cx_bottom_from_tid b + PAGE_SIZE \<le> trap_cx_bottom_from_tid a \<and>
    trap_cx_bottom_from_tid a + PAGE_SIZE \<le> TRAMPOLINE \<and> 2 ^ 64 - 2 ^ 38 \<le> trap_cx_bottom_from_tid b \<and>
    ustack_bottom_from_tid base a + USER_STACK_SIZE + PAGE_SIZE \<le> ustack_bottom_from_tid base b \<and>
    ustack_bottom_from_tid base b + USER_STACK_SIZE \<le> 2 ^ 38"
proof -
  have a: "a < 2 ^ 24" "base + (a + 1) * 12288 \<le> 2 ^ 38" using assms by simp_all
  show ?thesis
    unfolding kernel_stack_position_eq [OF a(1)] kernel_stack_position_eq [OF assms(2)] trap_cx_bottom_eq [OF a(1)]
      trap_cx_bottom_eq [OF assms(2)] ustack_bottom_eq [OF a(2)] ustack_bottom_eq [OF assms(3)] layout_consts page_consts fst_conv snd_conv
    using assms by (intro conjI; simp; arith)
qed

theorem stacks_apart_witness:
  "snd (kernel_stack_position 3) + PAGE_SIZE \<le> fst (kernel_stack_position 2) \<and>
   ustack_bottom_from_tid 0x20000 2 + USER_STACK_SIZE + PAGE_SIZE \<le> ustack_bottom_from_tid 0x20000 3"
  using stacks_apart [of 2 3 "0x20000"] by simp

definition tc_ok :: "trap_context \<Rightarrow> bool" where
  "tc_ok cx \<longleftrightarrow> length (tc_x cx) = 32 \<and> (\<forall>w\<in>set (tc_words cx). w < 2 ^ 64)"

text \<open>A trap context written to its frame is read back, and the rest of the frame and all other
  frames keep their bytes; the context of a new program starts at the entry point with the given
  stack pointer, all other registers 0 and user mode as the mode to return to.\<close>

theorem trap_context_round_trip:
  assumes "tc_ok cx" "length (km_frames m ppn) = 4096"
  shows "trap_cx_get ppn (trap_cx_put ppn cx m) = cx \<and>
    drop 296 (km_frames (trap_cx_put ppn cx m) ppn) = drop 296 (km_frames m ppn) \<and>
    (q \<noteq> ppn \<longrightarrow> km_frames (trap_cx_put ppn cx m) q = km_frames m q) \<and>
    (let ini = app_init_context sstatus pc sp satp ksp th in
      tc_sepc ini = pc \<and> (\<forall>i<32. tc_x ini ! i = (if i = 2 then sp else 0)) \<and> \<not> bit (tc_sstatus ini) 8 \<and>
      tc_kernel_satp ini = satp \<and> tc_kernel_sp ini = ksp \<and> tc_trap_handler ini = th)"
proof -
  let ?bs = "bytes_of 8 (tc_words cx)"
  have l: "length (tc_words cx) = 37" using assms(1) by (simp add: tc_ok_def tc_words_def)
  have "words_of 8 37 (?bs @ drop 296 (km_frames m ppn)) = tc_words cx"
    using words_of_bytes_of_append [of "tc_words cx" 8 "drop 296 (km_frames m ppn)"] assms(1) l by (simp add: tc_ok_def)
  then have "trap_cx_get ppn (trap_cx_put ppn cx m) = tc_of_words (tc_words cx)"
    using l by (simp add: trap_cx_get_def trap_cx_put_def splice_def)
  also have "\<dots> = cx" using assms(1) by (simp add: tc_of_words_def tc_words_def tc_ok_def nth_append)
  finally have "trap_cx_get ppn (trap_cx_put ppn cx m) = cx" .
  then show ?thesis using l
    by (simp add: trap_cx_put_def splice_def app_init_context_def tc_set_sp_def bit_unset_bit_iff nth_list_update)
qed

theorem trap_context_witness:
  "let cx = app_init_context 0x100 0x10000 0x20000 5 6 7; m = \<lparr>km_frames = \<lambda>_. replicate 4096 0, km_alloc = fa_new\<rparr>
   in trap_cx_get 3 (trap_cx_put 3 cx m) = cx"
proof -
  let ?cx = "app_init_context 0x100 0x10000 0x20000 5 6 7"
  have "set ((replicate 32 0)[2 := 0x20000]) \<subseteq> {0x20000, 0 :: nat}"
    using set_update_subset_insert [of "replicate 32 (0 :: nat)" 2 "0x20000"] by auto
  then have "tc_ok ?cx" by (auto simp: tc_ok_def tc_words_def app_init_context_def tc_set_sp_def)
  then show ?thesis using trap_context_round_trip [of ?cx "\<lparr>km_frames = \<lambda>_. replicate 4096 0, km_alloc = fa_new\<rparr>" 3 0 0 0 0 0 0 0]
    by (simp add: Let_def)
qed

end
