(* ===== verification/Process.thy ===== *)
theory Process
  imports Task
begin

text \<open>
  Processes: \<open>kernel/src/task/pcb.rs\<close>, the exit of \<open>kernel/src/task/mod.rs\<close>,
  \<open>kernel/src/task/signal.rs\<close> and the system calls of \<open>kernel/src/syscall/process.rs\<close> and
  \<open>kernel/src/syscall/thread.rs\<close>. A system call returns its \<open>isize\<close> with the kernel, \<open>None\<close> is a
  panic of the kernel. Calls that give up the processor end there.
  Disk accesses are atomic; the writes of the flag \<open>DEV_NON_BLOCKING_ACCESS\<close> around them are left out.
\<close>

unbundle bit_operations_syntax

section \<open>Descriptors and threads of a process\<close>

text \<open>\<open>iter().position(Option::is_none)\<close>, or a new slot at the end.\<close>

definition alloc_slot :: "'a option list \<Rightarrow> nat \<times> 'a option list" where
  "alloc_slot xs = (case position (\<lambda>x. x = None) xs of Some idx \<Rightarrow> (idx, xs) | None \<Rightarrow> (length xs, xs @ [None]))"

definition alloc_fd :: "process \<Rightarrow> nat \<times> process" where
  "alloc_fd p = (case alloc_slot (fd_table p) of (fd, tab) \<Rightarrow> (fd, p\<lparr>fd_table := tab\<rparr>))"

definition thread_count :: "process \<Rightarrow> nat" where
  "thread_count p = length (tasks p)"

definition proc_task :: "nat \<Rightarrow> process \<Rightarrow> nat option" where
  "proc_task tid p = do { x \<leftarrow> nth_opt (tasks p) tid; x }"

definition process_new :: "memory_set \<Rightarrow> nat option \<Rightarrow> u8 list \<Rightarrow> nat option list \<Rightarrow> process" where
  "process_new ms par dir fds = \<lparr>is_zombie = False, memory_set = ms, parent = par, children = [], exit_code = 0,
     cwd = dir, fd_table = fds, signals = 0, tasks = [], task_res_allocator = ra_new,
     mutex_list = [], semaphore_list = [], condvar_list = []\<rparr>"

definition file_new :: "file_obj \<Rightarrow> kernel \<Rightarrow> nat \<times> kernel" where
  "file_new f k = (k_next_file k, k\<lparr>k_files := (k_files k)(k_next_file k \<mapsto> f), k_next_file := k_next_file k + 1\<rparr>)"

section \<open>Names under /proc\<close>

text \<open>\<open>usize::to_string\<close>.\<close>

fun to_dec :: "nat \<Rightarrow> u8 list" where
  "to_dec n = (if n < 10 then [of_nat (48 + n)] else to_dec (n div 10) @ [of_nat (48 + n mod 10)])"

declare to_dec.simps [simp del]

definition cmdline_name :: "u8 list" where
  "cmdline_name = [0x63, 0x6d, 0x64, 0x6c, 0x69, 0x6e, 0x65]"

definition write_cmdline :: "nat \<Rightarrow> u8 list list \<Rightarrow> kernel \<Rightarrow> kernel option" where
  "write_cmdline pid args k = do {
     r \<leftarrow> vfs_find (k_efs k) (to_dec pid) (k_proc_inode k) (k_disk k);
     proc_inode \<leftarrow> r;
     c \<leftarrow> vfs_find (k_efs k) cmdline_name proc_inode (k_disk k);
     cmdline_inode \<leftarrow> c;
     s1 \<leftarrow> vfs_clear (k_efs k) cmdline_inode (k_disk k);
     (n, s2) \<leftarrow> vfs_write_at (k_efs k) 0 (concat (case args of [] \<Rightarrow> [] | a # as \<Rightarrow> a # map (\<lambda>x. 0x20 # x) as)) cmdline_inode s1;
     Some (k\<lparr>k_disk := s2\<rparr>)
   }"

definition slash_proc :: "u8 list" where
  "slash_proc = [0x2F, 0x70, 0x72, 0x6F, 0x63, 0x2F]"

definition proc_entry :: "nat \<Rightarrow> nat \<Rightarrow> kernel \<Rightarrow> kernel option" where
  "proc_entry parent_pid pid k = (let fs = k_efs k in do {
     (d, s1) \<leftarrow> vfs_create_dir fs (to_dec pid) (k_proc_inode k) (k_disk k);
     proc_inode \<leftarrow> d;
     s2 \<leftarrow> set_default_dirent fs (inode_id fs (k_proc_inode k)) proc_inode s1;
     (c, s3) \<leftarrow> vfs_create fs cmdline_name proc_inode s2;
     cmdline_inode \<leftarrow> c;
     r \<leftarrow> inode_find fs (k_root k) (slash_proc @ to_dec parent_pid @ slash # cmdline_name) s3;
     s4 \<leftarrow> (case r of None \<Rightarrow> Some s3
       | Some parent_cmdline \<Rightarrow> do {
           sz \<leftarrow> file_size parent_cmdline s3;
           (n, cmdline) \<leftarrow> vfs_read_at 0 (replicate sz 0) parent_cmdline s3;
           (n', s4) \<leftarrow> vfs_write_at fs 0 cmdline cmdline_inode s3;
           Some s4
         });
     Some (k\<lparr>k_disk := s4\<rparr>)
   })"

text \<open>\<open>Drop for ProcessControlBlock\<close>, then the fields in their order: the pid, the address space, the
  threads.\<close>

definition proc_entry_drop :: "nat \<Rightarrow> kernel \<Rightarrow> kernel option" where
  "proc_entry_drop pid k = (let fs = k_efs k in do {
     r \<leftarrow> vfs_find fs (to_dec pid) (k_proc_inode k) (k_disk k);
     case r of None \<Rightarrow> Some k
     | Some proc_inode \<Rightarrow> do {
         s1 \<leftarrow> vfs_delete fs cmdline_name proc_inode (k_disk k);
         s2 \<leftarrow> vfs_delete fs (to_dec pid) (k_proc_inode k) s1;
         Some (k\<lparr>k_disk := s2\<rparr>)
       }
   })"

definition pcb_drop :: "nat \<Rightarrow> kernel \<Rightarrow> kernel option" where
  "pcb_drop pid k = do {
     p \<leftarrow> k_procs k pid;
     k1 \<leftarrow> proc_entry_drop pid k;
     k2 \<leftarrow> pid_drop pid k1;
     m \<leftarrow> pt_drop (ms_page_table (memory_set p)) (k_mem k2);
     let k3 = k2\<lparr>k_mem := m, k_procs := (k_procs k2)(pid := None)\<rparr>;
     fold_opt (tcb_release pid) (List.map_filter (\<lambda>x. x) (tasks p)) k3
   }"

section \<open>Creation\<close>

definition pcb_new :: "env \<Rightarrow> u8 list \<Rightarrow> kernel \<Rightarrow> (nat \<times> kernel) option" where
  "pcb_new e elf_data k = do {
     (ms, ustack_base, entry_point, m) \<leftarrow> ms_from_elf (e_elf e) (e_strampoline e) elf_data (k_mem k);
     let (pid, k1) = pid_alloc (k\<lparr>k_mem := m\<rparr>);
     let (f0, k2) = file_new FStdin k1;
     let (f1, k3) = file_new FStdout k2;
     let (f2, k4) = file_new FStdout k3;
     let k5 = k4\<lparr>k_procs := (k_procs k4)(pid \<mapsto> process_new ms None [slash] [Some f0, Some f1, Some f2])\<rparr>;
     (t, k6) \<leftarrow> tcb_new e pid ustack_base True k5;
     b \<leftarrow> k_tasks k6 t;
     r \<leftarrow> tcb_res b;
     let cx = app_init_context (e_sstatus e) entry_point (ustack_top r) (ms_token (k_space k6)) (kstack_top t) (e_user_handler e);
     let k7 = k6\<lparr>k_mem := trap_cx_put (tcb_trap_cx_ppn b) cx (k_mem k6)\<rparr>;
     let k8 = upd_proc pid (\<lambda>p. p\<lparr>tasks := tasks p @ [Some t]\<rparr>) k7;
     Some (pid, k8\<lparr>k_pid2pcb := insert pid (k_pid2pcb k8), k_sched := manager_add t (k_sched k8)\<rparr>)
   }"

text \<open>The arguments of \<open>exec\<close> on the user stack: the pointers are translated first, then the
  strings are written below them, each followed by a zero byte.\<close>

fun push_bytes :: "nat \<Rightarrow> nat \<Rightarrow> u8 list \<Rightarrow> kmem \<Rightarrow> kmem option" where
  "push_bytes token p [] m = do { pa \<leftarrow> translated_mut_ref token p m; Some (mem_set_byte pa 0 m) }"
| "push_bytes token p (c # cs) m = do {
     pa \<leftarrow> translated_mut_ref token p m;
     push_bytes token (p + 1) cs (mem_set_byte pa c m)
   }"

fun push_args :: "nat \<Rightarrow> nat list \<Rightarrow> u8 list list \<Rightarrow> nat \<Rightarrow> kmem \<Rightarrow> (nat \<times> kmem) option" where
  "push_args token argv [] user_sp m = Some (user_sp, m)"
| "push_args token argv (a # as) user_sp m = do {
     let user_sp = usub user_sp (length a + 1);
     let m1 = mem_write (hd argv) (le_bytes 8 user_sp) m;
     m2 \<leftarrow> push_bytes token user_sp a m1;
     push_args token (tl argv) as user_sp m2
   }"

fun translate_all :: "nat \<Rightarrow> nat list \<Rightarrow> kmem \<Rightarrow> nat list option" where
  "translate_all token [] m = Some []"
| "translate_all token (p # ps) m = do {
     pa \<leftarrow> translated_mut_ref token p m;
     pas \<leftarrow> translate_all token ps m;
     Some (pa # pas)
   }"

definition exec :: "env \<Rightarrow> nat \<Rightarrow> u8 list \<Rightarrow> u8 list list \<Rightarrow> kernel \<Rightarrow> kernel option" where
  "exec e pid elf_data args k = do {
     p \<leftarrow> k_procs k pid;
     assert_opt (thread_count p = 1);
     (ms, ustack_base, entry_point, m) \<leftarrow> ms_from_elf (e_elf e) (e_strampoline e) elf_data (k_mem k);
     let new_token = ms_token ms;
     m' \<leftarrow> pt_drop (ms_page_table (memory_set p)) m;
     let k1 = (upd_proc pid (\<lambda>p. p\<lparr>memory_set := ms\<rparr>) k)\<lparr>k_mem := m'\<rparr>;
     t \<leftarrow> proc_task 0 p;
     b \<leftarrow> k_tasks k1 t;
     r0 \<leftarrow> tcb_res b;
     let r = r0\<lparr>tur_ustack_base := ustack_base\<rparr>;
     k2 \<leftarrow> alloc_user_res r k1;
     ppn \<leftarrow> trap_cx_ppn r k2;
     let k3 = upd_task t (\<lambda>b. b\<lparr>tcb_res := Some r, tcb_trap_cx_ppn := ppn\<rparr>) k2;
     let argc = length args;
     let argv_base = usub (ustack_top r) ((argc + 1) * 8);
     argv \<leftarrow> translate_all new_token (map (\<lambda>i. argv_base + i * 8) [0..<argc + 1]) (k_mem k3);
     let m1 = mem_write (argv ! argc) (le_bytes 8 0) (k_mem k3);
     (user_sp, m2) \<leftarrow> push_args new_token argv args argv_base m1;
     k4 \<leftarrow> write_cmdline pid args (k3\<lparr>k_mem := m2\<rparr>);
     let cx = app_init_context (e_sstatus e) entry_point user_sp (ms_token (k_space k4)) (kstack_top t) (e_user_handler e);
     let cx = cx\<lparr>tc_x := (tc_x cx)[10 := argc, 11 := argv_base]\<rparr>;
     Some (k4\<lparr>k_mem := trap_cx_put ppn cx (k_mem k4)\<rparr>)
   }"

definition fork :: "env \<Rightarrow> nat \<Rightarrow> kernel \<Rightarrow> (nat \<times> kernel) option" where
  "fork e ppid k = do {
     p \<leftarrow> k_procs k ppid;
     assert_opt (thread_count p = 1);
     (ms, m) \<leftarrow> ms_clone (e_strampoline e) (memory_set p) (k_mem k);
     let (pid, k1) = pid_alloc (k\<lparr>k_mem := m\<rparr>);
     let k2 = k1\<lparr>k_procs := (k_procs k1)(pid \<mapsto> process_new ms (Some ppid) (cwd p) (fd_table p))\<rparr>;
     let k3 = upd_proc ppid (\<lambda>p. p\<lparr>children := children p @ [pid]\<rparr>) k2;
     t0 \<leftarrow> proc_task 0 p;
     b0 \<leftarrow> k_tasks k3 t0;
     r0 \<leftarrow> tcb_res b0;
     (t, k4) \<leftarrow> tcb_new e pid (tur_ustack_base r0) False k3;
     let k5 = upd_proc pid (\<lambda>p. p\<lparr>tasks := tasks p @ [Some t]\<rparr>) k4;
     b \<leftarrow> k_tasks k5 t;
     let cx = (trap_cx_get (tcb_trap_cx_ppn b) (k_mem k5))\<lparr>tc_kernel_sp := kstack_top t\<rparr>;
     let k6 = k5\<lparr>k_mem := trap_cx_put (tcb_trap_cx_ppn b) cx (k_mem k5), k_pid2pcb := insert pid (k_pid2pcb k5),
       k_sched := manager_add t (k_sched k5)\<rparr>;
     k7 \<leftarrow> proc_entry ppid pid k6;
     Some (pid, k7)
   }"

section \<open>Exit\<close>

definition IDLE_PID :: nat where "IDLE_PID = 0"

definition remove_from_pid2process :: "nat \<Rightarrow> kernel \<Rightarrow> kernel option" where
  "remove_from_pid2process pid k = do { assert_opt (pid \<in> k_pid2pcb k); Some (k\<lparr>k_pid2pcb := k_pid2pcb k - {pid}\<rparr>) }"

text \<open>All children of the process become children of the daemon.\<close>

definition reparent :: "nat list \<Rightarrow> kernel \<Rightarrow> kernel" where
  "reparent cs k = fold (\<lambda>c k. upd_proc IDLE_PID (\<lambda>d. d\<lparr>children := children d @ [c]\<rparr>)
     (upd_proc c (\<lambda>q. q\<lparr>parent := Some IDLE_PID\<rparr>) k)) cs k"

text \<open>The user resources of all threads of the process, taken from their control blocks.\<close>

fun take_res :: "nat option list \<Rightarrow> kernel \<Rightarrow> (task_user_res list \<times> kernel) option" where
  "take_res [] k = Some ([], k)"
| "take_res (None # ts) k = take_res ts k"
| "take_res (Some t # ts) k = do {
     b \<leftarrow> k_tasks k t;
     (rs, k') \<leftarrow> take_res ts (upd_task t (\<lambda>b. b\<lparr>tcb_res := None\<rparr>) k);
     Some (case tcb_res b of Some r \<Rightarrow> r # rs | None \<Rightarrow> rs, k')
   }"

datatype exit_result = Shutdown bool | Scheduled kernel

definition exit_process :: "nat \<Rightarrow> int \<Rightarrow> kernel \<Rightarrow> kernel option" where
  "exit_process pid code k = do {
     k1 \<leftarrow> remove_from_pid2process pid k;
     p \<leftarrow> k_procs k1 pid;
     let k2 = upd_proc pid (\<lambda>p. p\<lparr>is_zombie := True, exit_code := code\<rparr>) k1;
     let k3 = reparent (children p) k2;
     (recycle_res, k4) \<leftarrow> take_res (tasks p) k3;
     k5 \<leftarrow> fold_opt tur_drop recycle_res k4;
     let k6 = upd_proc pid (\<lambda>p. p\<lparr>children := [], memory_set := ms_recycle_data_pages (memory_set p), fd_table := [],
       tasks := take 1 (tasks p)\<rparr>) k5;
     fold_opt (tcb_release pid) (List.map_filter (\<lambda>x. x) (drop 1 (tasks p))) k6
   }"

definition exit_current :: "int \<Rightarrow> kernel \<Rightarrow> exit_result option" where
  "exit_current code k = do {
     (t, b) \<leftarrow> current_tcb k;
     r \<leftarrow> tcb_res b;
     let k1 = k\<lparr>k_sched := (k_sched k)\<lparr>current := None\<rparr>\<rparr>;
     let k2 = upd_task t (\<lambda>b. b\<lparr>tcb_exit_code := Some code, tcb_res := None\<rparr>) k1;
     k3 \<leftarrow> tur_drop r k2;
     if tur_tid r = 0 then
       if tcb_process b = IDLE_PID then Some (Shutdown (code \<noteq> 0))
       else do { k4 \<leftarrow> exit_process (tcb_process b) code k3; Some (Scheduled k4) }
     else Some (Scheduled k3)
   }"

section \<open>Signals\<close>

definition SIGINT :: nat where "SIGINT = 2 ^ 2"
definition SIGILL :: nat where "SIGILL = 2 ^ 4"
definition SIGABRT :: nat where "SIGABRT = 2 ^ 6"
definition SIGFPE :: nat where "SIGFPE = 2 ^ 8"
definition SIGSEGV :: nat where "SIGSEGV = 2 ^ 11"

definition check_error :: "nat \<Rightarrow> int option" where
  "check_error sg = (if flags_contains sg SIGINT then Some (-2)
     else if flags_contains sg SIGILL then Some (-4)
     else if flags_contains sg SIGABRT then Some (-6)
     else if flags_contains sg SIGFPE then Some (-8)
     else if flags_contains sg SIGSEGV then Some (-11) else None)"

definition check_signals_error_of_current :: "kernel \<Rightarrow> int option option" where
  "check_signals_error_of_current k = do { (pid, p) \<leftarrow> current_pcb k; Some (check_error (signals p)) }"

definition add_signal_to_current :: "nat \<Rightarrow> kernel \<Rightarrow> kernel option" where
  "add_signal_to_current sg k = do {
     (pid, p) \<leftarrow> current_pcb k;
     Some (upd_proc pid (\<lambda>p. p\<lparr>signals := signals p OR sg\<rparr>) k)
   }"

definition signal_from_bits :: "nat \<Rightarrow> nat option" where
  "signal_from_bits bits = (if bits AND (SIGINT OR SIGILL OR SIGABRT OR SIGFPE OR SIGSEGV) = bits then Some bits else None)"

section \<open>Process system calls\<close>

text \<open>A translated string or buffer that is not produced, by a panic or by a loop that does not end.\<close>

abbreviation returned :: "'a option option \<Rightarrow> 'a option" where
  "returned x \<equiv> Option.bind x (\<lambda>y. y)"

definition sys_exit :: "int \<Rightarrow> kernel \<Rightarrow> exit_result option" where
  "sys_exit code k = exit_current code k"

definition sys_yield :: "kernel \<Rightarrow> (int \<times> kernel) option" where
  "sys_yield k = do { s \<leftarrow> suspend_current (k_sched k); Some (0, k\<lparr>k_sched := s\<rparr>) }"

definition sys_get_time :: "nat \<Rightarrow> int" where
  "sys_get_time mtime = wrap_isize (int (get_time_ms mtime))"

definition sys_getpid :: "kernel \<Rightarrow> (int \<times> kernel) option" where
  "sys_getpid k = do { (pid, p) \<leftarrow> current_pcb k; Some (int pid, k) }"

definition sys_fork :: "env \<Rightarrow> kernel \<Rightarrow> (int \<times> kernel) option" where
  "sys_fork e k = do {
     (ppid, p) \<leftarrow> current_pcb k;
     (pid, k1) \<leftarrow> fork e ppid k;
     c \<leftarrow> k_procs k1 pid;
     t \<leftarrow> proc_task 0 c;
     b \<leftarrow> k_tasks k1 t;
     let cx = trap_cx_get (tcb_trap_cx_ppn b) (k_mem k1);
     Some (int pid, k1\<lparr>k_mem := trap_cx_put (tcb_trap_cx_ppn b) (cx\<lparr>tc_x := (tc_x cx)[10 := 0]\<rparr>) (k_mem k1)\<rparr>)
   }"

partial_function (option) exec_args :: "nat \<Rightarrow> nat \<Rightarrow> kmem \<Rightarrow> u8 list list \<Rightarrow> u8 list list option" where
  "exec_args token args m args_vec = do {
     pa \<leftarrow> translated_ref token args m;
     let arg_str_ptr = le_nat (mem_read pa 8 m);
     if arg_str_ptr = 0 then Some args_vec
     else do {
       arg_str \<leftarrow> returned (translated_str token arg_str_ptr m);
       exec_args token ((args + 8) mod 2 ^ 64) m (args_vec @ [arg_str])
     }
   }"

definition sys_exec :: "env \<Rightarrow> nat \<Rightarrow> nat \<Rightarrow> kernel \<Rightarrow> (int \<times> kernel) option" where
  "sys_exec e path args k = do {
     token \<leftarrow> current_user_token k;
     (pid, p) \<leftarrow> current_pcb k;
     path_str \<leftarrow> returned (translated_str token path (k_mem k));
     let full = get_full_path (cwd p) path_str;
     args_vec \<leftarrow> exec_args token args (k_mem k) [];
     (f, s) \<leftarrow> open_file (k_efs k) (k_root k) full RDONLY (k_disk k);
     case f of
       None \<Rightarrow> Some (-1, k\<lparr>k_disk := s\<rparr>)
     | Some app_inode \<Rightarrow> do {
         (data, app') \<leftarrow> returned (read_all app_inode s);
         k1 \<leftarrow> exec e pid data args_vec (k\<lparr>k_disk := s\<rparr>);
         Some (int (length args_vec), k1)
       }
   }"

text \<open>\<open>pid as usize\<close>.\<close>

definition as_usize :: "int \<Rightarrow> nat" where
  "as_usize x = nat (x mod 2 ^ 64)"

definition pid_matches :: "int \<Rightarrow> nat \<Rightarrow> bool" where
  "pid_matches pid c \<longleftrightarrow> pid = -1 \<or> as_usize pid = c"

text \<open>The strong references to a process: its entry in the map of pids and the lists of children.\<close>

definition pcb_strong_refs :: "nat \<Rightarrow> kernel \<Rightarrow> nat" where
  "pcb_strong_refs c k = (if c \<in> k_pid2pcb k then 1 else 0) +
     sum_list (map (\<lambda>q. case k_procs k q of Some p \<Rightarrow> count_list (children p) c | None \<Rightarrow> 0) [0..<ra_current (k_pid_allocator k)])"

definition zombie_child :: "int \<Rightarrow> kernel \<Rightarrow> nat \<Rightarrow> bool" where
  "zombie_child pid k c \<longleftrightarrow> (case k_procs k c of Some q \<Rightarrow> is_zombie q | None \<Rightarrow> False) \<and> pid_matches pid c"

definition sys_waitpid :: "int \<Rightarrow> nat \<Rightarrow> kernel \<Rightarrow> (int \<times> kernel) option" where
  "sys_waitpid pid exit_code_ptr k = do {
     (me, p) \<leftarrow> current_pcb k;
     if \<not> (\<exists>c\<in>set (children p). pid_matches pid c) then Some (-1, k)
     else case position (zombie_child pid k) (children p) of
       None \<Rightarrow> Some (-2, k)
     | Some idx \<Rightarrow> do {
         let c = children p ! idx;
         let k1 = upd_proc me (\<lambda>p. p\<lparr>children := take idx (children p) @ drop (Suc idx) (children p)\<rparr>) k;
         assert_opt (pcb_strong_refs c k1 = 0);
         q \<leftarrow> k_procs k1 c;
         pa \<leftarrow> translated_mut_ref (ms_token (memory_set p)) exit_code_ptr (k_mem k1);
         let k2 = k1\<lparr>k_mem := mem_write pa (le_bytes 4 (nat (exit_code q mod 2 ^ 32))) (k_mem k1)\<rparr>;
         k3 \<leftarrow> pcb_drop c k2;
         Some (int c, k3)
       }
   }"

definition sys_kill :: "nat \<Rightarrow> nat \<Rightarrow> kernel \<Rightarrow> int \<times> kernel" where
  "sys_kill pid sg k = (if pid \<in> k_pid2pcb k
     then (case signal_from_bits sg of
         Some fl \<Rightarrow> (0, upd_proc pid (\<lambda>p. p\<lparr>signals := signals p OR fl\<rparr>) k)
       | None \<Rightarrow> (-1, k))
     else (-1, k))"

section \<open>Thread system calls\<close>

text \<open>\<open>Vec::resize_with(n, || None)\<close> cuts a longer list.\<close>

definition resize_none :: "nat \<Rightarrow> 'a option list \<Rightarrow> 'a option list" where
  "resize_none n xs = take n xs @ replicate (n - length xs) None"

definition sys_thread_create :: "env \<Rightarrow> nat \<Rightarrow> nat \<Rightarrow> kernel \<Rightarrow> (int \<times> kernel) option" where
  "sys_thread_create e entry_va arg k = do {
     (t0, b0) \<leftarrow> current_tcb k;
     let pid = tcb_process b0;
     p0 \<leftarrow> k_procs k pid;
     r0 \<leftarrow> tcb_res b0;
     (t, k1) \<leftarrow> tcb_new e pid (tur_ustack_base r0) True k;
     let k2 = k1\<lparr>k_sched := manager_add t (k_sched k1)\<rparr>;
     b \<leftarrow> k_tasks k2 t;
     r \<leftarrow> tcb_res b;
     let tid = tur_tid r;
     p \<leftarrow> k_procs k2 pid;
     let k3 = upd_proc pid (\<lambda>p. p\<lparr>tasks := (resize_none (tid + 1) (tasks p))[tid := Some t]\<rparr>) k2;
     k4 \<leftarrow> fold_opt (tcb_release pid) (List.map_filter (\<lambda>x. x) (drop (tid + 1) (tasks p))) k3;
     let cx = app_init_context (e_sstatus e) entry_va (ustack_top r) (ms_token (k_space k4)) (kstack_top t) (e_user_handler e);
     Some (int tid, k4\<lparr>k_mem := trap_cx_put (tcb_trap_cx_ppn b) (cx\<lparr>tc_x := (tc_x cx)[10 := arg]\<rparr>) (k_mem k4)\<rparr>)
   }"

definition sys_gettid :: "kernel \<Rightarrow> (int \<times> kernel) option" where
  "sys_gettid k = do { (t, b) \<leftarrow> current_tcb k; r \<leftarrow> tcb_res b; Some (int (tur_tid r), k) }"

definition sys_waittid :: "nat \<Rightarrow> kernel \<Rightarrow> (int \<times> kernel) option" where
  "sys_waittid tid k = do {
     (t0, b0) \<leftarrow> current_tcb k;
     let pid = tcb_process b0;
     p \<leftarrow> k_procs k pid;
     r0 \<leftarrow> tcb_res b0;
     if tur_tid r0 = tid then Some (-1, k)
     else do {
       w \<leftarrow> nth_opt (tasks p) tid;
       case w of
         None \<Rightarrow> Some (-1, k)
       | Some t \<Rightarrow> do {
           b \<leftarrow> k_tasks k t;
           case tcb_exit_code b of
             None \<Rightarrow> Some (-2, k)
           | Some code \<Rightarrow> do {
               k1 \<leftarrow> tcb_release pid t (upd_proc pid (\<lambda>p. p\<lparr>tasks := (tasks p)[tid := None]\<rparr>) k);
               Some (code, k1)
             }
         }
     }
   }"

end
