(* ===== verification/Syscalls.thy ===== *)
theory Syscalls
  imports Process
begin

text \<open>
  The file and synchronisation system calls: \<open>kernel/src/syscall/fs.rs\<close>,
  \<open>kernel/src/syscall/sync.rs\<close>, \<open>kernel/src/fs/stdio.rs\<close> and the \<open>Stat\<close> record of
  \<open>kernel/src/fs/mod.rs\<close>. User pointers go through the page table of the running process.
\<close>

unbundle bit_operations_syntax

section \<open>Descriptors\<close>

definition sys_getcwd :: "nat \<Rightarrow> nat \<Rightarrow> kernel \<Rightarrow> (int \<times> kernel) option" where
  "sys_getcwd buf len k = do {
     token \<leftarrow> current_user_token k;
     (pid, p) \<leftarrow> current_pcb k;
     ub \<leftarrow> returned (translated_byte_buffer token buf len (k_mem k));
     if length (cwd p) > len then Some (-1, k)
     else Some (int (length (cwd p)), k\<lparr>k_mem := ub_fill ub (cwd p) (k_mem k)\<rparr>)
   }"

definition sys_dup :: "nat \<Rightarrow> kernel \<Rightarrow> (int \<times> kernel) option" where
  "sys_dup fd k = do {
     (pid, p) \<leftarrow> current_pcb k;
     case nth_opt (fd_table p) fd of
       Some (Some f) \<Rightarrow> (case alloc_fd p of (new_fd, p') \<Rightarrow>
         Some (int new_fd, upd_proc pid (\<lambda>_. p'\<lparr>fd_table := (fd_table p')[new_fd := Some f]\<rparr>) k))
     | _ \<Rightarrow> Some (-1, k)
   }"

definition sys_dup2 :: "nat \<Rightarrow> nat \<Rightarrow> kernel \<Rightarrow> (int \<times> kernel) option" where
  "sys_dup2 old_fd new_fd k = do {
     (pid, p) \<leftarrow> current_pcb k;
     if length (fd_table p) \<le> old_fd then Some (-1, k)
     else do {
       let tab = (if length (fd_table p) \<le> new_fd then resize_none ((new_fd + 1) mod 2 ^ 64) (fd_table p) else fd_table p);
       f \<leftarrow> nth_opt tab old_fd;
       assert_opt (new_fd < length tab);
       Some (0, upd_proc pid (\<lambda>p. p\<lparr>fd_table := tab[new_fd := f]\<rparr>) k)
     }
   }"

definition sys_close :: "nat \<Rightarrow> kernel \<Rightarrow> (int \<times> kernel) option" where
  "sys_close fd k = do {
     (pid, p) \<leftarrow> current_pcb k;
     if length (fd_table p) \<le> fd then Some (-1, k)
     else Some (if fd_table p ! fd = None then -1 else 0,
       upd_proc pid (\<lambda>p. p\<lparr>fd_table := (fd_table p)[fd := None]\<rparr>) k)
   }"

section \<open>Paths\<close>

text \<open>The path argument, resolved against the working directory.\<close>

definition user_path :: "nat \<Rightarrow> kernel \<Rightarrow> u8 list option" where
  "user_path path k = do {
     token \<leftarrow> current_user_token k;
     (pid, p) \<leftarrow> current_pcb k;
     str \<leftarrow> returned (translated_str token path (k_mem k));
     Some (get_full_path (cwd p) str)
   }"

definition sys_chdir :: "nat \<Rightarrow> kernel \<Rightarrow> (int \<times> kernel) option" where
  "sys_chdir path k = do {
     (pid, p) \<leftarrow> current_pcb k;
     full \<leftarrow> user_path path k;
     r \<leftarrow> inode_find (k_efs k) (k_root k) full (k_disk k);
     case r of
       None \<Rightarrow> Some (-1, k)
     | Some i \<Rightarrow> do {
         d \<leftarrow> is_dir i (k_disk k);
         if d then Some (0, upd_proc pid (\<lambda>p. p\<lparr>cwd := full\<rparr>) k) else Some (-2, k)
       }
   }"

definition sys_mkdir :: "nat \<Rightarrow> kernel \<Rightarrow> (int \<times> kernel) option" where
  "sys_mkdir path k = do {
     full \<leftarrow> user_path path k;
     (parent_path, target) \<leftarrow> rsplit_once full;
     r \<leftarrow> inode_find (k_efs k) (k_root k) parent_path (k_disk k);
     case r of
       None \<Rightarrow> Some (-1, k)
     | Some par \<Rightarrow> do {
         (c, s) \<leftarrow> vfs_create_dir (k_efs k) target par (k_disk k);
         Some (if c = None then -2 else 0, k\<lparr>k_disk := s\<rparr>)
       }
   }"

definition AT_REMOVEDIR :: nat where "AT_REMOVEDIR = 1"

definition unlink_target :: "u8 list \<Rightarrow> inode \<Rightarrow> inode \<Rightarrow> kernel \<Rightarrow> (int \<times> kernel) option" where
  "unlink_target target par i k = do {
     s1 \<leftarrow> vfs_clear (k_efs k) i (k_disk k);
     s2 \<leftarrow> vfs_delete (k_efs k) target par s1;
     Some (0, k\<lparr>k_disk := s2\<rparr>)
   }"

definition sys_unlink :: "nat \<Rightarrow> nat \<Rightarrow> kernel \<Rightarrow> (int \<times> kernel) option" where
  "sys_unlink path flags k = do {
     full \<leftarrow> user_path path k;
     (parent_path, target) \<leftarrow> rsplit_once full;
     r \<leftarrow> inode_find (k_efs k) (k_root k) parent_path (k_disk k);
     case r of
       None \<Rightarrow> Some (-1, k)
     | Some par \<Rightarrow> do {
         c \<leftarrow> vfs_find (k_efs k) target par (k_disk k);
         case c of
           None \<Rightarrow> Some (-1, k)
         | Some i \<Rightarrow> do {
             d \<leftarrow> is_dir i (k_disk k);
             let remove_dir = (flags AND AT_REMOVEDIR = AT_REMOVEDIR);
             if \<not> remove_dir \<and> \<not> d then unlink_target target par i k
             else if remove_dir \<and> d then do {
               sz \<leftarrow> file_size i (k_disk k);
               if sz = DIRENT_SIZE * 2 then unlink_target target par i k else Some (-3, k)
             } else Some (-2, k)
           }
       }
   }"

definition install_fd :: "nat \<Rightarrow> nat \<Rightarrow> kernel \<Rightarrow> (nat \<times> kernel) option" where
  "install_fd pid f k = do {
     p \<leftarrow> k_procs k pid;
     let (fd, p') = alloc_fd p;
     Some (fd, upd_proc pid (\<lambda>_. p'\<lparr>fd_table := (fd_table p')[fd := Some f]\<rparr>) k)
   }"

definition sys_open :: "nat \<Rightarrow> nat \<Rightarrow> kernel \<Rightarrow> (int \<times> kernel) option" where
  "sys_open path flags k = do {
     (pid, p) \<leftarrow> current_pcb k;
     full \<leftarrow> user_path path k;
     fl \<leftarrow> open_flags_from_bits flags;
     (r, s) \<leftarrow> open_file (k_efs k) (k_root k) full fl (k_disk k);
     let k1 = k\<lparr>k_disk := s\<rparr>;
     case r of
       None \<Rightarrow> Some (-1, k1)
     | Some osi \<Rightarrow> do {
         let (f, k2) = file_new (FInode osi) k1;
         (fd, k3) \<leftarrow> install_fd pid f k2;
         Some (int fd, k3)
       }
   }"

section \<open>Reading and writing\<close>

text \<open>\<open>Done n\<close>: the call returned. \<open>Waiting\<close>: it gave up the processor and goes on later. The byte that
  the console delivers to a read of the standard input is an argument.\<close>

datatype io_result = Done int | Waiting

definition file_readable :: "file_obj \<Rightarrow> bool" where
  "file_readable f = (case f of FStdin \<Rightarrow> True | FStdout \<Rightarrow> False | FInode i \<Rightarrow> osi_readable i | FPipe p r \<Rightarrow> pipe_readable p)"

definition file_writable :: "file_obj \<Rightarrow> bool" where
  "file_writable f = (case f of FStdin \<Rightarrow> False | FStdout \<Rightarrow> True | FInode i \<Rightarrow> osi_writable i | FPipe p r \<Rightarrow> pipe_writable p)"

text \<open>Whether a file object is still referred to by a descriptor of some process.\<close>

definition file_alive :: "kernel \<Rightarrow> nat \<Rightarrow> bool" where
  "file_alive k w \<longleftrightarrow> (\<exists>q\<in>set [0..<ra_current (k_pid_allocator k)].
     case k_procs k q of Some p \<Rightarrow> Some w \<in> set (fd_table p) | None \<Rightarrow> False)"

text \<open>Passes of the loops of a pipe until the call returns or gives up the processor: after a pass that
  goes on, the buffer is empty, or full, and the next pass decides.\<close>

definition pipe_read_run :: "(nat \<Rightarrow> bool) \<Rightarrow> nat \<Rightarrow> ring \<Rightarrow> (bool \<times> u8 list \<times> ring) option" where
  "pipe_read_run alive want rb = do {
     (r, got, rb1) \<leftarrow> pipe_read_pass alive want [] rb;
     (r', got', rb2) \<leftarrow> (if r = pass.Again then pipe_read_pass alive want got rb1 else Some (r, got, rb1));
     Some (r' = pass.Return, got', rb2)
   }"

definition pipe_write_run :: "u8 list \<Rightarrow> ring \<Rightarrow> bool \<times> nat \<times> ring" where
  "pipe_write_run buf rb = (case pipe_write_pass buf 0 rb of (r, n, rb1) \<Rightarrow>
     case (if r = pass.Again then pipe_write_pass buf n rb1 else (r, n, rb1)) of (r', n', rb2) \<Rightarrow>
       (r' = pass.Return, n', rb2))"

definition suspend_unless :: "bool \<Rightarrow> nat \<Rightarrow> kernel \<Rightarrow> (io_result \<times> kernel) option" where
  "suspend_unless ret n k = (if ret then Some (Done (int n), k)
     else do { s \<leftarrow> suspend_current (k_sched k); Some (Waiting, k\<lparr>k_sched := s\<rparr>) })"

definition file_read :: "u8 \<Rightarrow> nat \<Rightarrow> file_obj \<Rightarrow> frame_slice list \<Rightarrow> kernel \<Rightarrow> (io_result \<times> kernel) option" where
  "file_read ch f obj ub k = (case obj of
     FStdin \<Rightarrow> do {
       assert_opt (ub_len ub = 1);
       (ppn, lo, hi) \<leftarrow> nth_opt ub 0;
       Some (Done 1, k\<lparr>k_mem := mem_set_byte (ppn * 4096 + lo) ch (k_mem k)\<rparr>)
     }
   | FStdout \<Rightarrow> None
   | FInode osi \<Rightarrow> do {
       (n, osi', m) \<leftarrow> osi_read ub osi (k_disk k) (k_mem k);
       Some (Done (int n), k\<lparr>k_mem := m, k_files := (k_files k)(f \<mapsto> FInode osi')\<rparr>)
     }
   | FPipe p r \<Rightarrow> do {
       assert_opt (pipe_readable p);
       rb \<leftarrow> k_rings k r;
       (ret, got, rb') \<leftarrow> pipe_read_run (file_alive k) (ub_len ub) rb;
       suspend_unless ret (length got) (k\<lparr>k_rings := (k_rings k)(r \<mapsto> rb'), k_mem := ub_fill ub got (k_mem k)\<rparr>)
     })"

definition file_write :: "nat \<Rightarrow> file_obj \<Rightarrow> frame_slice list \<Rightarrow> kernel \<Rightarrow> (io_result \<times> kernel) option" where
  "file_write f obj ub k = (case obj of
     FStdin \<Rightarrow> None
   | FStdout \<Rightarrow> do {
       assert_opt (\<forall>sl\<in>set ub. utf8_valid (ub_bytes (k_mem k) [sl]));
       Some (Done (int (ub_len ub)), k\<lparr>k_console := k_console k @ ub_bytes (k_mem k) ub\<rparr>)
     }
   | FInode osi \<Rightarrow> do {
       (n, osi', s) \<leftarrow> osi_write (k_efs k) ub osi (k_mem k) (k_disk k);
       Some (Done (int n), k\<lparr>k_disk := s, k_files := (k_files k)(f \<mapsto> FInode osi')\<rparr>)
     }
   | FPipe p r \<Rightarrow> do {
       assert_opt (pipe_writable p);
       rb \<leftarrow> k_rings k r;
       let (ret, n, rb') = pipe_write_run (ub_bytes (k_mem k) ub) rb;
       suspend_unless ret n (k\<lparr>k_rings := (k_rings k)(r \<mapsto> rb')\<rparr>)
     })"

definition sys_read :: "u8 \<Rightarrow> nat \<Rightarrow> nat \<Rightarrow> nat \<Rightarrow> kernel \<Rightarrow> (io_result \<times> kernel) option" where
  "sys_read ch fd buf len k = do {
     token \<leftarrow> current_user_token k;
     (pid, p) \<leftarrow> current_pcb k;
     case nth_opt (fd_table p) fd of
       Some (Some f) \<Rightarrow> do {
         obj \<leftarrow> k_files k f;
         if \<not> file_readable obj then Some (Done (-1), k)
         else do {
           ub \<leftarrow> returned (translated_byte_buffer token buf len (k_mem k));
           file_read ch f obj ub k
         }
       }
     | _ \<Rightarrow> Some (Done (-1), k)
   }"

definition sys_write :: "nat \<Rightarrow> nat \<Rightarrow> nat \<Rightarrow> kernel \<Rightarrow> (io_result \<times> kernel) option" where
  "sys_write fd buf len k = do {
     token \<leftarrow> current_user_token k;
     (pid, p) \<leftarrow> current_pcb k;
     case nth_opt (fd_table p) fd of
       Some (Some f) \<Rightarrow> do {
         obj \<leftarrow> k_files k f;
         if \<not> file_writable obj then Some (Done (-1), k)
         else do {
           ub \<leftarrow> returned (translated_byte_buffer token buf len (k_mem k));
           file_write f obj ub k
         }
       }
     | _ \<Rightarrow> Some (Done (-1), k)
   }"

record stat =
  st_dev :: nat
  st_ino :: nat
  st_mode :: nat
  st_off :: nat
  st_size :: nat

definition stat_from :: "file_obj \<Rightarrow> kernel \<Rightarrow> stat option" where
  "stat_from obj k = (case obj of
     FInode osi \<Rightarrow> do {
       md \<leftarrow> osi_mode osi (k_disk k);
       sz \<leftarrow> file_size (osi_inode osi) (k_disk k);
       Some \<lparr>st_dev = 0, st_ino = inode_id (k_efs k) (osi_inode osi), st_mode = md, st_off = osi_offset osi, st_size = sz\<rparr>
     }
   | _ \<Rightarrow> Some \<lparr>st_dev = 0, st_ino = 0, st_mode = STAT_NULL, st_off = 0, st_size = 0\<rparr>)"

text \<open>The 32 bytes of \<open>repr(C)\<close>; the padding bytes, which are not initialised, are an argument.\<close>

definition stat_bytes :: "u8 list \<Rightarrow> stat \<Rightarrow> u8 list" where
  "stat_bytes pad st = le_bytes 4 (st_dev st) @ le_bytes 4 (st_ino st) @ le_bytes 4 (st_mode st) @ take 4 pad @
     le_bytes 8 (st_off st) @ le_bytes 4 (st_size st) @ drop 4 pad"

definition sys_fstat :: "u8 list \<Rightarrow> nat \<Rightarrow> nat \<Rightarrow> kernel \<Rightarrow> (int \<times> kernel) option" where
  "sys_fstat pad fd stat_ptr k = do {
     token \<leftarrow> current_user_token k;
     (pid, p) \<leftarrow> current_pcb k;
     ub \<leftarrow> returned (translated_byte_buffer token stat_ptr 32 (k_mem k));
     case nth_opt (fd_table p) fd of
       Some (Some f) \<Rightarrow> do {
         obj \<leftarrow> k_files k f;
         st \<leftarrow> stat_from obj k;
         Some (0, k\<lparr>k_mem := ub_fill ub (stat_bytes pad st) (k_mem k)\<rparr>)
       }
     | _ \<Rightarrow> Some (-1, k)
   }"

definition sys_pipe :: "nat \<Rightarrow> kernel \<Rightarrow> (int \<times> kernel) option" where
  "sys_pipe ptr k = do {
     token \<leftarrow> current_user_token k;
     (pid, p) \<leftarrow> current_pcb k;
     let r = k_next_file k;
     let (pr, pw, rb) = pipe_make (r + 1);
     let (fr, k1) = file_new (FPipe pr r) k;
     let (fw, k2) = file_new (FPipe pw r) k1;
     let k3 = k2\<lparr>k_rings := (k_rings k2)(r \<mapsto> rb)\<rparr>;
     (read_fd, k4) \<leftarrow> install_fd pid fr k3;
     (write_fd, k5) \<leftarrow> install_fd pid fw k4;
     pa \<leftarrow> translated_mut_ref token ptr (k_mem k5);
     let m1 = mem_write pa (le_bytes 8 read_fd) (k_mem k5);
     pb \<leftarrow> translated_mut_ref token ((ptr + 8) mod 2 ^ 64) m1;
     Some (0, k5\<lparr>k_mem := mem_write pb (le_bytes 8 write_fd) m1\<rparr>)
   }"

section \<open>Synchronisation\<close>

definition sys_sleep :: "nat \<Rightarrow> nat \<Rightarrow> kernel \<Rightarrow> (int \<times> kernel) option" where
  "sys_sleep mtime ms k = do {
     let expire = (get_time_ms mtime + ms) mod 2 ^ 64;
     (t, b) \<leftarrow> current_tcb k;
     s \<leftarrow> block_current (k_sched k);
     Some (0, k\<lparr>k_timers := add_timer expire t (k_timers k), k_sched := s\<rparr>)
   }"

text \<open>The first empty slot takes the object, or a new one at the end.\<close>

definition insert_slot :: "'a \<Rightarrow> 'a option list \<Rightarrow> nat \<times> 'a option list" where
  "insert_slot x xs = (case alloc_slot xs of (idx, xs') \<Rightarrow> (idx, xs'[idx := Some x]))"

definition sys_mutex_create :: "bool \<Rightarrow> kernel \<Rightarrow> (int \<times> kernel) option" where
  "sys_mutex_create blocking k = do {
     (pid, p) \<leftarrow> current_pcb k;
     let (idx, l) = insert_slot (if blocking then blocking_new else spin_new) (mutex_list p);
     Some (int idx, upd_proc pid (\<lambda>p. p\<lparr>mutex_list := l\<rparr>) k)
   }"

text \<open>The outcome tells whether the call has returned, as for the operations of the objects.\<close>

definition sys_mutex_lock :: "nat \<Rightarrow> kernel \<Rightarrow> (int \<times> lock_outcome \<times> kernel) option" where
  "sys_mutex_lock mutex_id k = do {
     (pid, p) \<leftarrow> current_pcb k;
     case nth_opt (mutex_list p) mutex_id of
       Some (Some mtx) \<Rightarrow> do {
         (out, mtx', s) \<leftarrow> mutex_lock mtx (k_sched k);
         Some (0, out, (upd_proc pid (\<lambda>p. p\<lparr>mutex_list := (mutex_list p)[mutex_id := Some mtx']\<rparr>) k)\<lparr>k_sched := s\<rparr>)
       }
     | _ \<Rightarrow> Some (-1, Locked, k)
   }"

definition sys_mutex_unlock :: "nat \<Rightarrow> kernel \<Rightarrow> (int \<times> kernel) option" where
  "sys_mutex_unlock mutex_id k = do {
     (pid, p) \<leftarrow> current_pcb k;
     case nth_opt (mutex_list p) mutex_id of
       Some (Some mtx) \<Rightarrow> do {
         (mtx', s) \<leftarrow> mutex_unlock mtx (k_sched k);
         Some (0, (upd_proc pid (\<lambda>p. p\<lparr>mutex_list := (mutex_list p)[mutex_id := Some mtx']\<rparr>) k)\<lparr>k_sched := s\<rparr>)
       }
     | _ \<Rightarrow> Some (-1, k)
   }"

definition sys_semaphore_create :: "nat \<Rightarrow> kernel \<Rightarrow> (int \<times> kernel) option" where
  "sys_semaphore_create res_count k = do {
     (pid, p) \<leftarrow> current_pcb k;
     let (idx, l) = insert_slot (sem_new res_count) (semaphore_list p);
     Some (int idx, upd_proc pid (\<lambda>p. p\<lparr>semaphore_list := l\<rparr>) k)
   }"

definition sys_semaphore_up :: "nat \<Rightarrow> kernel \<Rightarrow> (int \<times> kernel) option" where
  "sys_semaphore_up sem_id k = do {
     (pid, p) \<leftarrow> current_pcb k;
     case nth_opt (semaphore_list p) sem_id of
       Some (Some sem) \<Rightarrow> (case sem_up sem (k_sched k) of (sem', s) \<Rightarrow>
         Some (0, (upd_proc pid (\<lambda>p. p\<lparr>semaphore_list := (semaphore_list p)[sem_id := Some sem']\<rparr>) k)\<lparr>k_sched := s\<rparr>))
     | _ \<Rightarrow> Some (-1, k)
   }"

definition sys_semaphore_down :: "nat \<Rightarrow> kernel \<Rightarrow> (int \<times> lock_outcome \<times> kernel) option" where
  "sys_semaphore_down sem_id k = do {
     (pid, p) \<leftarrow> current_pcb k;
     case nth_opt (semaphore_list p) sem_id of
       Some (Some sem) \<Rightarrow> do {
         (out, sem', s) \<leftarrow> sem_down sem (k_sched k);
         Some (0, out, (upd_proc pid (\<lambda>p. p\<lparr>semaphore_list := (semaphore_list p)[sem_id := Some sem']\<rparr>) k)\<lparr>k_sched := s\<rparr>)
       }
     | _ \<Rightarrow> Some (-1, Locked, k)
   }"

definition sys_condvar_create :: "kernel \<Rightarrow> (int \<times> kernel) option" where
  "sys_condvar_create k = do {
     (pid, p) \<leftarrow> current_pcb k;
     let (idx, l) = insert_slot condvar_new (condvar_list p);
     Some (int idx, upd_proc pid (\<lambda>p. p\<lparr>condvar_list := l\<rparr>) k)
   }"

definition sys_condvar_signal :: "nat \<Rightarrow> kernel \<Rightarrow> (int \<times> kernel) option" where
  "sys_condvar_signal condvar_id k = do {
     (pid, p) \<leftarrow> current_pcb k;
     case nth_opt (condvar_list p) condvar_id of
       Some (Some cv) \<Rightarrow> (case condvar_signal cv (k_sched k) of (cv', s) \<Rightarrow>
         Some (0, (upd_proc pid (\<lambda>p. p\<lparr>condvar_list := (condvar_list p)[condvar_id := Some cv']\<rparr>) k)\<lparr>k_sched := s\<rparr>))
     | _ \<Rightarrow> Some (-1, k)
   }"

text \<open>The part up to the wait; the thread goes on with \<open>sys_mutex_lock\<close> when it is woken.\<close>

definition sys_condvar_wait :: "nat \<Rightarrow> nat \<Rightarrow> kernel \<Rightarrow> (int \<times> kernel) option" where
  "sys_condvar_wait condvar_id mutex_id k = do {
     (pid, p) \<leftarrow> current_pcb k;
     case nth_opt (condvar_list p) condvar_id of
       Some (Some cv) \<Rightarrow> (case nth_opt (mutex_list p) mutex_id of
         Some (Some mtx) \<Rightarrow> do {
           (cv', mtx', s) \<leftarrow> wait_with_mutex cv mtx (k_sched k);
           Some (0, (upd_proc pid (\<lambda>p. p\<lparr>condvar_list := (condvar_list p)[condvar_id := Some cv'],
             mutex_list := (mutex_list p)[mutex_id := Some mtx']\<rparr>) k)\<lparr>k_sched := s\<rparr>)
         }
       | _ \<Rightarrow> Some (-1, k))
     | _ \<Rightarrow> Some (-1, k)
   }"

end
