(* ===== verification/Dispatch.thy ===== *)
theory Dispatch
  imports Syscalls
begin

text \<open>
  From the \<open>ecall\<close> of a user program to the handler and back: the numbers and register conventions
  of \<open>user/src/syscall.rs\<close> and \<open>kernel/src/syscall/mod.rs\<close>, and the trap handlers of
  \<open>kernel/src/trap/mod.rs\<close>. Devices are arguments.
\<close>

unbundle bit_operations_syntax

section \<open>Calls and their registers\<close>

datatype call =
    CGetcwd nat nat | CDup nat | CDup2 nat nat | CMkdir nat | CUnlink nat nat | CChdir nat
  | COpen nat nat | CClose nat | CPipe nat | CRead nat nat nat | CWrite nat nat nat | CFstat nat nat
  | CExit int | CSleep nat | CYield | CKill nat nat | CGetTime | CGetpid | CFork | CExec nat nat
  | CWaitpid int nat | CThreadCreate nat nat | CGettid | CWaittid nat
  | CMutexCreate bool | CMutexLock nat | CMutexUnlock nat
  | CSemaphoreCreate nat | CSemaphoreUp nat | CSemaphoreDown nat
  | CCondvarCreate | CCondvarSignal nat | CCondvarWait nat nat
  | CFramebuffer | CFramebufferFlush | CEventGet | CKeyPressed

text \<open>The stubs of the user library: the number in \<open>x17\<close> and the arguments in \<open>x10\<close> to \<open>x12\<close>.\<close>

fun user_call :: "call \<Rightarrow> nat \<times> nat list" where
  "user_call (CGetcwd buf len) = (17, [buf, len, 0])"
| "user_call (CDup fd) = (23, [fd, 0, 0])"
| "user_call (CDup2 old_fd new_fd) = (24, [old_fd, new_fd, 0])"
| "user_call (CMkdir path) = (34, [path, 0, 0])"
| "user_call (CUnlink path flags) = (35, [path, flags, 0])"
| "user_call (CChdir path) = (49, [path, 0, 0])"
| "user_call (COpen path flags) = (56, [path, flags, 0])"
| "user_call (CClose fd) = (57, [fd, 0, 0])"
| "user_call (CPipe ptr) = (59, [ptr, 0, 0])"
| "user_call (CRead fd buf len) = (63, [fd, buf, len])"
| "user_call (CWrite fd buf len) = (64, [fd, buf, len])"
| "user_call (CFstat fd ptr) = (80, [fd, ptr, 0])"
| "user_call (CExit code) = (93, [as_usize code, 0, 0])"
| "user_call (CSleep ms) = (101, [ms, 0, 0])"
| "user_call CYield = (124, [0, 0, 0])"
| "user_call (CKill pid sg) = (129, [pid, as_usize (int sg), 0])"
| "user_call CGetTime = (169, [0, 0, 0])"
| "user_call CGetpid = (172, [0, 0, 0])"
| "user_call CFork = (220, [0, 0, 0])"
| "user_call (CExec path args) = (221, [path, args, 0])"
| "user_call (CWaitpid pid ptr) = (260, [as_usize pid, ptr, 0])"
| "user_call (CThreadCreate entry_va arg) = (1000, [entry_va, arg, 0])"
| "user_call CGettid = (1001, [0, 0, 0])"
| "user_call (CWaittid tid) = (1002, [tid, 0, 0])"
| "user_call (CMutexCreate blocking) = (1010, [if blocking then 1 else 0, 0, 0])"
| "user_call (CMutexLock m) = (1011, [m, 0, 0])"
| "user_call (CMutexUnlock m) = (1012, [m, 0, 0])"
| "user_call (CSemaphoreCreate n) = (1020, [n, 0, 0])"
| "user_call (CSemaphoreUp s) = (1021, [s, 0, 0])"
| "user_call (CSemaphoreDown s) = (1022, [s, 0, 0])"
| "user_call CCondvarCreate = (1030, [0, 0, 0])"
| "user_call (CCondvarSignal c) = (1031, [c, 0, 0])"
| "user_call (CCondvarWait c m) = (1032, [c, m, 0])"
| "user_call CFramebuffer = (2000, [0, 0, 0])"
| "user_call CFramebufferFlush = (2001, [0, 0, 0])"
| "user_call CEventGet = (3000, [0, 0, 0])"
| "user_call CKeyPressed = (3001, [0, 0, 0])"

text \<open>\<open>as isize\<close> and \<open>as i32\<close> of a register.\<close>

definition as_isize :: "nat \<Rightarrow> int" where
  "as_isize x = wrap_isize (int x)"

definition as_i32 :: "nat \<Rightarrow> int" where
  "as_i32 x = (int x + 2 ^ 31) mod 2 ^ 32 - 2 ^ 31"

text \<open>The match of the kernel's \<open>syscall\<close>; an unknown number panics.\<close>

definition syscall_decode :: "nat \<Rightarrow> nat list \<Rightarrow> call option" where
  "syscall_decode n args = (let a0 = args ! 0; a1 = args ! 1; a2 = args ! 2 in
     if n = 17 then Some (CGetcwd a0 a1)
     else if n = 23 then Some (CDup a0)
     else if n = 24 then Some (CDup2 a0 a1)
     else if n = 34 then Some (CMkdir a0)
     else if n = 35 then Some (CUnlink a0 (as_u32 a1))
     else if n = 49 then Some (CChdir a0)
     else if n = 56 then Some (COpen a0 (as_u32 a1))
     else if n = 57 then Some (CClose a0)
     else if n = 59 then Some (CPipe a0)
     else if n = 63 then Some (CRead a0 a1 a2)
     else if n = 64 then Some (CWrite a0 a1 a2)
     else if n = 80 then Some (CFstat a0 a1)
     else if n = 93 then Some (CExit (as_i32 a0))
     else if n = 101 then Some (CSleep a0)
     else if n = 124 then Some CYield
     else if n = 129 then Some (CKill a0 (as_u32 a1))
     else if n = 169 then Some CGetTime
     else if n = 172 then Some CGetpid
     else if n = 220 then Some CFork
     else if n = 221 then Some (CExec a0 a1)
     else if n = 260 then Some (CWaitpid (as_isize a0) a1)
     else if n = 1000 then Some (CThreadCreate a0 a1)
     else if n = 1001 then Some CGettid
     else if n = 1002 then Some (CWaittid a0)
     else if n = 1010 then Some (CMutexCreate (a0 = 1))
     else if n = 1011 then Some (CMutexLock a0)
     else if n = 1012 then Some (CMutexUnlock a0)
     else if n = 1020 then Some (CSemaphoreCreate a0)
     else if n = 1021 then Some (CSemaphoreUp a0)
     else if n = 1022 then Some (CSemaphoreDown a0)
     else if n = 1030 then Some CCondvarCreate
     else if n = 1031 then Some (CCondvarSignal a0)
     else if n = 1032 then Some (CCondvarWait a0 a1)
     else if n = 2000 then Some CFramebuffer
     else if n = 2001 then Some CFramebufferFlush
     else if n = 3000 then Some CEventGet
     else if n = 3001 then Some CKeyPressed
     else None)"

section \<open>Running a call\<close>

text \<open>
  What the machine provides to one call: the clock, the byte that a read of the standard input gets,
  the padding of \<open>Stat\<close>, the framebuffer (address and length), the next events of keyboard and
  mouse if any, and whether the console has input.
\<close>

record machine =
  mc_time :: nat
  mc_char :: u8
  mc_pad :: "u8 list"
  mc_fb :: "nat \<times> nat"
  mc_keyboard :: "nat option"
  mc_mouse :: "nat option"
  mc_uart_ready :: bool

definition FB_VADDR :: nat where "FB_VADDR = 0x10000000"

definition sys_framebuffer :: "nat \<times> nat \<Rightarrow> kernel \<Rightarrow> (int \<times> kernel) option" where
  "sys_framebuffer fb k = (case fb of (fb_start_pa, fb_len) \<Rightarrow> do {
     assert_opt (is_aligned (phys_addr_from fb_start_pa));
     let pn_offset = int (as_pn_by_floor (phys_addr_from fb_start_pa)) - int (as_pn_by_floor (virt_addr_from FB_VADDR));
     (pid, p) \<leftarrow> current_pcb k;
     a \<leftarrow> map_area_new (virt_addr_from FB_VADDR) (virt_addr_from (FB_VADDR + fb_len)) (Linear pn_offset) (PERM_R OR PERM_W OR PERM_U);
     (ms, m) \<leftarrow> ms_push a None (memory_set p, k_mem k);
     Some (int FB_VADDR, (upd_proc pid (\<lambda>p. p\<lparr>memory_set := ms\<rparr>) k)\<lparr>k_mem := m\<rparr>)
   })"

definition sys_event_get :: "nat option \<Rightarrow> nat option \<Rightarrow> int" where
  "sys_event_get kb mouse = (case kb of Some ev \<Rightarrow> as_isize ev
     | None \<Rightarrow> (case mouse of Some ev \<Rightarrow> as_isize ev | None \<Rightarrow> 0))"

definition sys_key_pressed :: "bool \<Rightarrow> int" where
  "sys_key_pressed ready = (if ready then 1 else 0)"

text \<open>\<open>Ret r k\<close>: the call returned \<open>r\<close>. \<open>Away k\<close>: the thread gave up the processor inside the call.
  \<open>Off b\<close>: the machine was shut down.\<close>

datatype sys_result = Ret int kernel | Away kernel | Off bool

definition ret :: "(int \<times> kernel) option \<Rightarrow> sys_result option" where
  "ret x = map_option (\<lambda>(r, k). Ret r k) x"

definition away :: "(int \<times> kernel) option \<Rightarrow> sys_result option" where
  "away x = map_option (\<lambda>(r, k). Away k) x"

definition ret_io :: "(io_result \<times> kernel) option \<Rightarrow> sys_result option" where
  "ret_io x = map_option (\<lambda>(r, k). case r of Done n \<Rightarrow> Ret n k | Waiting \<Rightarrow> Away k) x"

definition ret_lock :: "(int \<times> lock_outcome \<times> kernel) option \<Rightarrow> sys_result option" where
  "ret_lock x = map_option (\<lambda>(r, out, k). if out = Locked then Ret r k else Away k) x"

definition ret_exit :: "exit_result option \<Rightarrow> sys_result option" where
  "ret_exit x = map_option (\<lambda>r. case r of Shutdown b \<Rightarrow> Off b | Scheduled k \<Rightarrow> Away k) x"

fun run_call :: "env \<Rightarrow> machine \<Rightarrow> call \<Rightarrow> kernel \<Rightarrow> sys_result option" where
  "run_call e mc (CGetcwd buf len) k = ret (sys_getcwd buf len k)"
| "run_call e mc (CDup fd) k = ret (sys_dup fd k)"
| "run_call e mc (CDup2 a b) k = ret (sys_dup2 a b k)"
| "run_call e mc (CMkdir path) k = ret (sys_mkdir path k)"
| "run_call e mc (CUnlink path fl) k = ret (sys_unlink path fl k)"
| "run_call e mc (CChdir path) k = ret (sys_chdir path k)"
| "run_call e mc (COpen path fl) k = ret (sys_open path fl k)"
| "run_call e mc (CClose fd) k = ret (sys_close fd k)"
| "run_call e mc (CPipe ptr) k = ret (sys_pipe ptr k)"
| "run_call e mc (CRead fd buf len) k = ret_io (sys_read (mc_char mc) fd buf len k)"
| "run_call e mc (CWrite fd buf len) k = ret_io (sys_write fd buf len k)"
| "run_call e mc (CFstat fd ptr) k = ret (sys_fstat (mc_pad mc) fd ptr k)"
| "run_call e mc (CExit code) k = ret_exit (sys_exit code k)"
| "run_call e mc (CSleep ms) k = away (sys_sleep (mc_time mc) ms k)"
| "run_call e mc CYield k = away (sys_yield k)"
| "run_call e mc (CKill pid sg) k = Some (case sys_kill pid sg k of (r, k') \<Rightarrow> Ret r k')"
| "run_call e mc CGetTime k = Some (Ret (sys_get_time (mc_time mc)) k)"
| "run_call e mc CGetpid k = ret (sys_getpid k)"
| "run_call e mc CFork k = ret (sys_fork e k)"
| "run_call e mc (CExec path args) k = ret (sys_exec e path args k)"
| "run_call e mc (CWaitpid pid ptr) k = ret (sys_waitpid pid ptr k)"
| "run_call e mc (CThreadCreate entry_va arg) k = ret (sys_thread_create e entry_va arg k)"
| "run_call e mc CGettid k = ret (sys_gettid k)"
| "run_call e mc (CWaittid tid) k = ret (sys_waittid tid k)"
| "run_call e mc (CMutexCreate b) k = ret (sys_mutex_create b k)"
| "run_call e mc (CMutexLock i) k = ret_lock (sys_mutex_lock i k)"
| "run_call e mc (CMutexUnlock i) k = ret (sys_mutex_unlock i k)"
| "run_call e mc (CSemaphoreCreate n) k = ret (sys_semaphore_create n k)"
| "run_call e mc (CSemaphoreUp i) k = ret (sys_semaphore_up i k)"
| "run_call e mc (CSemaphoreDown i) k = ret_lock (sys_semaphore_down i k)"
| "run_call e mc CCondvarCreate k = ret (sys_condvar_create k)"
| "run_call e mc (CCondvarSignal i) k = ret (sys_condvar_signal i k)"
| "run_call e mc (CCondvarWait c i) k = (case sys_condvar_wait c i k of
     None \<Rightarrow> None | Some (r, k') \<Rightarrow> Some (if r = 0 then Away k' else Ret r k'))"
| "run_call e mc CFramebuffer k = ret (sys_framebuffer (mc_fb mc) k)"
| "run_call e mc CFramebufferFlush k = Some (Ret 0 k)"
| "run_call e mc CEventGet k = Some (Ret (sys_event_get (mc_keyboard mc) (mc_mouse mc)) k)"
| "run_call e mc CKeyPressed k = Some (Ret (sys_key_pressed (mc_uart_ready mc)) k)"

definition syscall :: "env \<Rightarrow> machine \<Rightarrow> nat \<Rightarrow> nat list \<Rightarrow> kernel \<Rightarrow> sys_result option" where
  "syscall e mc n args k = do { c \<leftarrow> syscall_decode n args; run_call e mc c k }"

section \<open>Traps\<close>

datatype trap_cause = UserEnvCall | StoreFault | StorePageFault | InstructionFault | InstructionPageFault
  | LoadFault | LoadPageFault | IllegalInstruction | SupervisorTimer | SupervisorExternal | OtherCause

definition set_current_trap_cx :: "(trap_context \<Rightarrow> trap_context) \<Rightarrow> kernel \<Rightarrow> kernel option" where
  "set_current_trap_cx f k = do {
     (t, b) \<leftarrow> current_tcb k;
     Some (k\<lparr>k_mem := trap_cx_put (tcb_trap_cx_ppn b) (f (trap_cx_get (tcb_trap_cx_ppn b) (k_mem k))) (k_mem k)\<rparr>)
   }"

text \<open>The end of \<open>user_handler\<close>: pending signals, then \<open>leave\<close>, which needs the address of the trap
  context and the token of the running thread.\<close>

definition trap_end :: "kernel \<Rightarrow> sys_result option" where
  "trap_end k = do {
     sg \<leftarrow> check_signals_error_of_current k;
     case sg of
       Some errno \<Rightarrow> ret_exit (exit_current errno k)
     | None \<Rightarrow> do {
         va \<leftarrow> current_trap_cx_user_va k;
         token \<leftarrow> current_user_token k;
         Some (Ret 0 k)
       }
   }"

definition env_call :: "env \<Rightarrow> machine \<Rightarrow> kernel \<Rightarrow> sys_result option" where
  "env_call e mc k = do {
     k1 \<leftarrow> set_current_trap_cx (\<lambda>cx. cx\<lparr>tc_sepc := (tc_sepc cx + 4) mod 2 ^ 64\<rparr>) k;
     cx \<leftarrow> current_trap_cx k1;
     r \<leftarrow> syscall e mc (tc_x cx ! 17) [tc_x cx ! 10, tc_x cx ! 11, tc_x cx ! 12] k1;
     case r of
       Ret result k2 \<Rightarrow> do {
         k3 \<leftarrow> set_current_trap_cx (\<lambda>cx. cx\<lparr>tc_x := (tc_x cx)[10 := as_usize result]\<rparr>) k2;
         trap_end k3
       }
     | _ \<Rightarrow> Some r
   }"

definition timer_tick :: "nat \<Rightarrow> kernel \<Rightarrow> kernel" where
  "timer_tick mtime k = (case check_timer (get_time_ms mtime) (k_timers k) (k_sched k) of (ts, s) \<Rightarrow>
     k\<lparr>k_timers := ts, k_sched := s\<rparr>)"

text \<open>The handler of device interrupts is an argument.\<close>

fun user_handler :: "env \<Rightarrow> machine \<Rightarrow> (kernel \<Rightarrow> kernel option) \<Rightarrow> trap_cause \<Rightarrow> kernel \<Rightarrow> sys_result option" where
  "user_handler e mc irq UserEnvCall k = env_call e mc k"
| "user_handler e mc irq IllegalInstruction k = do { k1 \<leftarrow> add_signal_to_current SIGILL k; trap_end k1 }"
| "user_handler e mc irq SupervisorTimer k = do {
     s \<leftarrow> suspend_current (k_sched (timer_tick (mc_time mc) k));
     Some (Away ((timer_tick (mc_time mc) k)\<lparr>k_sched := s\<rparr>))
   }"
| "user_handler e mc irq SupervisorExternal k = do { k1 \<leftarrow> irq k; trap_end k1 }"
| "user_handler e mc irq OtherCause k = None"
| "user_handler e mc irq fault k = do { k1 \<leftarrow> add_signal_to_current SIGSEGV k; trap_end k1 }"

fun kernel_handler :: "machine \<Rightarrow> (kernel \<Rightarrow> kernel option) \<Rightarrow> trap_cause \<Rightarrow> kernel \<Rightarrow> kernel option" where
  "kernel_handler mc irq SupervisorExternal k = irq k"
| "kernel_handler mc irq SupervisorTimer k = Some (timer_tick (mc_time mc) k)"
| "kernel_handler mc irq cause k = None"

section \<open>The interface between programs and kernel\<close>

text \<open>Arguments that fit the types of the user library.\<close>

fun call_ok :: "call \<Rightarrow> bool" where
  "call_ok (CUnlink path flags) \<longleftrightarrow> flags < 2 ^ 32"
| "call_ok (COpen path flags) \<longleftrightarrow> flags < 2 ^ 32"
| "call_ok (CExit code) \<longleftrightarrow> - (2 ^ 31) \<le> code \<and> code < 2 ^ 31"
| "call_ok (CKill pid sg) \<longleftrightarrow> sg < 2 ^ 31"
| "call_ok (CWaitpid pid ptr) \<longleftrightarrow> - (2 ^ 63) \<le> pid \<and> pid < 2 ^ 63"
| "call_ok c \<longleftrightarrow> True"

lemma as_isize_as_usize: "- (2 ^ 63) \<le> x \<Longrightarrow> x < 2 ^ 63 \<Longrightarrow> as_isize (as_usize x) = x"
  by (simp add: as_isize_def as_usize_def wrap_isize_def mod_simps)

lemma as_usize_int: "x < 2 ^ 64 \<Longrightarrow> as_usize (int x) = x"
  by (simp add: as_usize_def)

lemma as_i32_as_usize:
  assumes "- (2 ^ 31) \<le> x" "x < 2 ^ 31"
  shows "as_i32 (as_usize x) = x"
proof -
  have "x mod 2 ^ 64 mod 2 ^ 32 = x mod 2 ^ 32" by (rule mod_mod_cancel) simp
  then have "(x mod 2 ^ 64 + 2 ^ 31) mod 2 ^ 32 = (x + 2 ^ 31) mod 2 ^ 32" by (metis mod_add_left_eq)
  then show ?thesis using assms by (simp add: as_i32_def as_usize_def)
qed

text \<open>C21: The stubs of the user library and the kernel agree: every call with arguments of the right
  type reaches its own handler, with the same arguments, through number and registers, and the
  kernel runs exactly this call.\<close>

theorem user_kernel_agree:
  assumes "call_ok c"
  shows "syscall_decode (fst (user_call c)) (snd (user_call c)) = Some c \<and>
    syscall e mc (fst (user_call c)) (snd (user_call c)) k = run_call e mc c k"
proof -
  have "syscall_decode (fst (user_call c)) (snd (user_call c)) = Some c"
    using assms by (cases c) (simp_all add: syscall_decode_def as_i32_as_usize as_isize_as_usize as_usize_int)
  then show ?thesis by (simp add: syscall_def)
qed

theorem user_kernel_agree_witness:
  "syscall_decode (fst (user_call (CWaitpid (-1) 0x5000))) (snd (user_call (CWaitpid (-1) 0x5000))) = Some (CWaitpid (-1) 0x5000)"
  using user_kernel_agree [of "CWaitpid (-1) 0x5000"] by simp

end
