(* ===== verification/ProcessProps.thy ===== *)
theory ProcessProps
  imports Dispatch
begin

text \<open>
  Exit: which parts of the kernel the release of a thread leaves alone, and what the exit of the main
  thread of a process does to its other threads.
\<close>

section \<open>What the resource operations leave alone\<close>

lemma upd_proc_sel [simp]:
  "k_tasks (upd_proc pid f k) = k_tasks k" "k_sched (upd_proc pid f k) = k_sched k"
  "k_mem (upd_proc pid f k) = k_mem k" "k_timers (upd_proc pid f k) = k_timers k"
  "k_files (upd_proc pid f k) = k_files k" "k_next_file (upd_proc pid f k) = k_next_file k"
  "k_pid2pcb (upd_proc pid f k) = k_pid2pcb k" "k_disk (upd_proc pid f k) = k_disk k"
  "k_procs (upd_proc pid f k) q = (if q = pid then map_option f (k_procs k pid) else k_procs k q)"
  "k_pid_allocator (upd_proc pid f k) = k_pid_allocator k" "k_kstack_allocator (upd_proc pid f k) = k_kstack_allocator k"
  by (simp_all add: upd_proc_def)

lemma upd_task_sel [simp]:
  "k_procs (upd_task t f k) = k_procs k" "k_sched (upd_task t f k) = k_sched k"
  "k_mem (upd_task t f k) = k_mem k" "k_timers (upd_task t f k) = k_timers k"
  "k_files (upd_task t f k) = k_files k" "k_next_file (upd_task t f k) = k_next_file k"
  "k_tasks (upd_task t f k) u = (if u = t then map_option f (k_tasks k t) else k_tasks k u)"
  "k_pid2pcb (upd_task t f k) = k_pid2pcb k" "k_pid_allocator (upd_task t f k) = k_pid_allocator k"
  by (simp_all add: upd_task_def)

text \<open>The threads and the scheduler.\<close>

definition same_threads :: "kernel \<Rightarrow> kernel \<Rightarrow> bool" where
  "same_threads k k' \<longleftrightarrow> k_tasks k' = k_tasks k \<and> k_sched k' = k_sched k \<and> k_timers k' = k_timers k"

lemma same_threads_trans: "same_threads k k1 \<Longrightarrow> same_threads k1 k2 \<Longrightarrow> same_threads k k2"
  by (simp add: same_threads_def)

lemma tur_drop_threads: "tur_drop r k = Some k' \<Longrightarrow> same_threads k k'"
  by (auto simp: tur_drop_def dealloc_user_res_def same_threads_def bind_eq_Some_conv)

lemma kstack_drop_threads: "kstack_drop t k = Some k' \<Longrightarrow> same_threads k k'"
  by (auto simp: kstack_drop_def same_threads_def bind_eq_Some_conv split: prod.splits)

lemma fold_tur_drop_threads: "fold_opt tur_drop rs k = Some k' \<Longrightarrow> same_threads k k'"
proof (induction rs arbitrary: k)
  case Nil
  then show ?case by (simp add: same_threads_def)
next
  case (Cons r rs)
  then obtain k1 where "tur_drop r k = Some k1" "fold_opt tur_drop rs k1 = Some k'" by (auto simp: bind_eq_Some_conv)
  then show ?case using Cons.IH tur_drop_threads same_threads_trans by blast
qed

lemma reparent_threads: "same_threads k (reparent cs k)"
proof (induction cs arbitrary: k)
  case (Cons c cs)
  then show ?case by (simp add: reparent_def same_threads_def)
qed (simp add: reparent_def same_threads_def)

lemma tcb_release_other:
  assumes "tcb_release pid t k = Some k'" "u \<in> set (ready_queue (k_sched k))"
  shows "k_tasks k' u = k_tasks k u \<and> k_sched k' = k_sched k"
proof (cases "tcb_referenced pid t k")
  case True
  then show ?thesis using assms(1) by (simp add: tcb_release_def)
next
  case False
  then have "u \<noteq> t" using assms(2) by (auto simp: tcb_referenced_def)
  obtain k1 where r: "kstack_drop t k = Some k1" "k' = k1\<lparr>k_tasks := (k_tasks k1)(t := None)\<rparr>"
    using assms(1) False by (auto simp: tcb_release_def bind_eq_Some_conv split: if_splits)
  then show ?thesis using kstack_drop_threads [OF r(1)] \<open>u \<noteq> t\<close> by (simp add: same_threads_def)
qed

lemma fold_tcb_release_other:
  "fold_opt (tcb_release pid) ts k = Some k' \<Longrightarrow> u \<in> set (ready_queue (k_sched k)) \<Longrightarrow>
   k_tasks k' u = k_tasks k u \<and> k_sched k' = k_sched k"
proof (induction ts arbitrary: k)
  case (Cons t ts)
  then obtain k1 where "tcb_release pid t k = Some k1" "fold_opt (tcb_release pid) ts k1 = Some k'"
    by (auto simp: bind_eq_Some_conv)
  then show ?case using Cons.IH [of k1] tcb_release_other [of pid t k k1 u] Cons.prems(2) by auto
qed simp

lemma take_res_frame:
  assumes "take_res ts k = Some (rs, k')"
  shows "k_sched k' = k_sched k" "Some t \<in> set ts \<Longrightarrow> \<exists>b. k_tasks k' t = Some b \<and> tcb_res b = None"
    "k_tasks k t = Some b \<Longrightarrow> tcb_res b = None \<Longrightarrow> \<exists>b'. k_tasks k' t = Some b' \<and> tcb_res b' = None"
proof -
  have "k_sched k' = k_sched k \<and> (Some t \<in> set ts \<longrightarrow> (\<exists>b. k_tasks k' t = Some b \<and> tcb_res b = None)) \<and>
    (\<forall>b. k_tasks k t = Some b \<longrightarrow> tcb_res b = None \<longrightarrow> (\<exists>b'. k_tasks k' t = Some b' \<and> tcb_res b' = None))"
    using assms
  proof (induction ts k arbitrary: rs rule: take_res.induct)
    case (3 u ts k)
    obtain b rs' where u: "k_tasks k u = Some b" "take_res ts (upd_task u (\<lambda>b. b\<lparr>tcb_res := None\<rparr>) k) = Some (rs', k')"
      using "3.prems" by (auto simp: bind_eq_Some_conv)
    show ?case using "3.IH" [OF u(1) u(2)] u(1) by (cases "t = u") auto
  qed auto
  then show "k_sched k' = k_sched k" "Some t \<in> set ts \<Longrightarrow> \<exists>b. k_tasks k' t = Some b \<and> tcb_res b = None"
    "k_tasks k t = Some b \<Longrightarrow> tcb_res b = None \<Longrightarrow> \<exists>b'. k_tasks k' t = Some b' \<and> tcb_res b' = None" by blast+
qed

section \<open>Exit\<close>

lemma dealloc_user_res_proc:
  assumes "dealloc_user_res r k = Some k'" "k_procs k pid = Some p"
  shows "\<exists>p'. k_procs k' pid = Some p' \<and> tasks p' = tasks p \<and> fd_table p' = fd_table p"
  using assms by (auto simp: dealloc_user_res_def bind_eq_Some_conv)

lemma tur_drop_proc:
  assumes "tur_drop r k = Some k'" "k_procs k pid = Some p"
  shows "\<exists>p'. k_procs k' pid = Some p' \<and> tasks p' = tasks p \<and> fd_table p' = fd_table p"
proof -
  obtain q q' where q: "k_procs k (tur_process r) = Some q" "dealloc_tid (tur_tid r) q = Some q'"
    "dealloc_user_res r (upd_proc (tur_process r) (\<lambda>_. q') k) = Some k'" using assms(1) by (auto simp: tur_drop_def bind_eq_Some_conv)
  have "tasks q' = tasks q" "fd_table q' = fd_table q" using q(2) by (auto simp: dealloc_tid_def bind_eq_Some_conv)
  then show ?thesis using dealloc_user_res_proc [OF q(3), of pid] q(1) assms(2) by (cases "pid = tur_process r") auto
qed

lemma exit_process_ready:
  assumes "exit_process pid code k = Some k'" "k_procs k pid = Some p" "Some t \<in> set (tasks p)" "t \<in> set (ready_queue (k_sched k))"
  shows "k_sched k' = k_sched k \<and> (\<exists>b. k_tasks k' t = Some b \<and> tcb_res b = None)"
proof -
  define k2 where "k2 = upd_proc pid (\<lambda>p. p\<lparr>is_zombie := True, exit_code := code\<rparr>) (k\<lparr>k_pid2pcb := k_pid2pcb k - {pid}\<rparr>)"
  obtain rs k4 k5 where e: "take_res (tasks p) (reparent (children p) k2) = Some (rs, k4)" "fold_opt tur_drop rs k4 = Some k5"
    "fold_opt (tcb_release pid) (List.map_filter (\<lambda>x. x) (drop 1 (tasks p)))
      (upd_proc pid (\<lambda>p. p\<lparr>children := [], memory_set := ms_recycle_data_pages (memory_set p), fd_table := [],
         tasks := take 1 (tasks p)\<rparr>) k5) = Some k'"
    using assms(1,2) by (auto simp: exit_process_def remove_from_pid2process_def bind_eq_Some_conv Let_def k2_def split: if_splits)
  have s4: "k_sched k4 = k_sched k"
    using take_res_frame(1) [OF e(1)] reparent_threads [of k2 "children p"] by (simp add: same_threads_def k2_def)
  have s5: "same_threads k4 k5" by (rule fold_tur_drop_threads [OF e(2)])
  have "\<exists>b. k_tasks k4 t = Some b \<and> tcb_res b = None" by (rule take_res_frame(2) [OF e(1) assms(3)])
  then show ?thesis using fold_tcb_release_other [OF e(3), of t] s4 s5 assms(4) by (simp add: same_threads_def)
qed

lemma trap_end_no_res:
  assumes "k_tasks k t = Some b" "tcb_res b = None" "current (k_sched k) = Some t"
  shows "trap_end k = None"
  using assms by (auto simp: trap_end_def check_signals_error_of_current_def current_pcb_def current_tcb_def
      current_trap_cx_user_va_def exit_current_def ret_exit_def bind_eq_None_conv split: option.splits)

text \<open>C22: When the main thread of a process exits while another thread of the process is in the ready
  queue, the other thread stays in the queue although its resources are gone: as soon as it runs
  and is to return to user mode, the kernel panics.\<close>

theorem exit_leaves_ready_threads:
  assumes "exit_current code k = Some (Scheduled k')" "current_tcb k = Some (t0, b0)" "tcb_res b0 = Some r0" "tur_tid r0 = 0"
    and "k_procs k (tcb_process b0) = Some p" "Some t \<in> set (tasks p)" "t \<in> set (ready_queue (k_sched k))"
  shows "t \<in> set (ready_queue (k_sched k')) \<and>
    (\<forall>k2. k_tasks k2 t = k_tasks k' t \<longrightarrow> current (k_sched k2) = Some t \<longrightarrow> trap_end k2 = None)"
proof -
  let ?k2 = "upd_task t0 (\<lambda>b. b\<lparr>tcb_exit_code := Some code, tcb_res := None\<rparr>) (k\<lparr>k_sched := (k_sched k)\<lparr>current := None\<rparr>\<rparr>)"
  obtain k3 where k3: "tur_drop r0 ?k2 = Some k3" "exit_process (tcb_process b0) code k3 = Some k'"
    using assms(1-4) by (auto simp: exit_current_def bind_eq_Some_conv Let_def split: if_splits)
  obtain p3 where "k_procs k3 (tcb_process b0) = Some p3" "tasks p3 = tasks p"
    using tur_drop_proc [OF k3(1), of "tcb_process b0" p] assms(5) by auto
  moreover have "ready_queue (k_sched k3) = ready_queue (k_sched k)"
    using tur_drop_threads [OF k3(1)] by (simp add: same_threads_def)
  ultimately have "k_sched k' = k_sched k3" "\<exists>b. k_tasks k' t = Some b \<and> tcb_res b = None"
    using exit_process_ready [OF k3(2), of p3 t] assms(6,7) by auto
  then show ?thesis using trap_end_no_res [of _ t] assms(7) \<open>ready_queue (k_sched k3) = _\<close> by auto
qed

text \<open>A small machine for examples: process 1 with the threads 1, which runs, and 2, which is ready.\<close>

definition bare_space :: memory_set where
  "bare_space = \<lparr>ms_page_table = \<lparr>pt_root_ppn = 16, pt_data_frames = [], pt_metadata_frames = []\<rparr>, ms_areas = []\<rparr>"

definition sample_tcb :: "nat \<Rightarrow> tcb" where
  "sample_tcb tid = \<lparr>tcb_process = 1, tcb_res = Some \<lparr>tur_tid = tid, tur_ustack_base = 0x10000, tur_process = 1\<rparr>,
     tcb_trap_cx_ppn = 20, tcb_task_cx = zero_init, tcb_exit_code = None\<rparr>"

definition two_threads :: kernel where
  "two_threads = \<lparr>k_mem = boot_mem, k_space = bare_space, k_pid_allocator = \<lparr>ra_current = 2, ra_recycled = []\<rparr>,
     k_kstack_allocator = \<lparr>ra_current = 3, ra_recycled = []\<rparr>, k_tasks = [1 \<mapsto> sample_tcb 0, 2 \<mapsto> sample_tcb 1],
     k_procs = [1 \<mapsto> (process_new bare_space None [slash] [None, Some 0])
       \<lparr>tasks := [Some 1, Some 2], task_res_allocator := \<lparr>ra_current = 2, ra_recycled = []\<rparr>\<rparr>],
     k_pid2pcb = {1}, k_sched = \<lparr>ready_queue = [2], current = Some 1, task_status = \<lambda>_. Ready\<rparr>,
     k_timers = [], k_files = [0 \<mapsto> FStdout], k_next_file = 1, k_rings = Map.empty, k_efs = small_fs, k_disk = [],
     k_root = small_file, k_proc_inode = small_file, k_console = []\<rparr>"

lemma remove_area_bare: "ms_remove_area_with_start_vpn vpn (bare_space, m) = Some (bare_space, m)"
  by (simp add: ms_remove_area_with_start_vpn_def bare_space_def)

lemma two_threads_sel:
  "current_tcb two_threads = Some (1, sample_tcb 0)" "ready_queue (k_sched two_threads) = [2]"
  "\<exists>p. k_procs two_threads 1 = Some p \<and> tasks p = [Some 1, Some 2] \<and> fd_table p = [None, Some 0] \<and> memory_set p = bare_space"
  by (simp_all add: two_threads_def current_tcb_def process_new_def)

lemma tur_drop_bare:
  assumes "k_procs k 1 = Some p" "memory_set p = bare_space" "ra_dealloc tid (task_res_allocator p) = Some al" "tid < 2"
  obtains k' p' where "tur_drop \<lparr>tur_tid = tid, tur_ustack_base = 0x10000, tur_process = 1\<rparr> k = Some k'"
    "k_procs k' 1 = Some p'" "memory_set p' = bare_space" "task_res_allocator p' = al" "tasks p' = tasks p"
    "children p' = children p" "same_threads k k'" "k_pid2pcb k' = k_pid2pcb k"
proof -
  have "\<exists>v. pn_from_addr (virt_addr_from (ustack_bottom_from_tid 0x10000 tid)) = Some v"
    "\<exists>v. pn_from_addr (virt_addr_from (trap_cx_bottom_from_tid tid)) = Some v"
    using assms(4) by (auto simp: less_2_cases_iff pn_from_addr_def is_aligned_def page_offset_mod conv_mod ustack_bottom_eq trap_cx_bottom_eq)
  then show ?thesis using assms that by (auto simp: tur_drop_def dealloc_tid_def dealloc_user_res_def remove_area_bare same_threads_def)
qed

lemma two_threads_exit: "\<exists>k'. exit_current 0 two_threads = Some (Scheduled k')"
proof -
  let ?k2 = "upd_task 1 (\<lambda>b. b\<lparr>tcb_exit_code := Some 0, tcb_res := None\<rparr>)
    (two_threads\<lparr>k_sched := (k_sched two_threads)\<lparr>current := None\<rparr>\<rparr>)"
  let ?p = "(process_new bare_space None [slash] [None, Some 0])
       \<lparr>tasks := [Some 1, Some 2], task_res_allocator := \<lparr>ra_current = 2, ra_recycled = []\<rparr>\<rparr>"
  have p: "k_procs ?k2 1 = Some ?p" "memory_set ?p = bare_space" "tasks ?p = [Some 1, Some 2]" "children ?p = []"
    "ra_dealloc 0 (task_res_allocator ?p) = Some \<lparr>ra_current = 2, ra_recycled = [0]\<rparr>"
    by (simp_all add: two_threads_def process_new_def ra_dealloc_def)
  obtain k3 p3 where k3: "tur_drop \<lparr>tur_tid = 0, tur_ustack_base = 0x10000, tur_process = 1\<rparr> ?k2 = Some k3"
    "k_procs k3 1 = Some p3" "memory_set p3 = bare_space" "task_res_allocator p3 = \<lparr>ra_current = 2, ra_recycled = [0]\<rparr>"
    "tasks p3 = tasks ?p" "children p3 = children ?p" "same_threads ?k2 k3" "k_pid2pcb k3 = k_pid2pcb ?k2"
    by (rule tur_drop_bare [OF p(1,2,5)]) simp
  define k5 where "k5 = upd_task 2 (\<lambda>b. b\<lparr>tcb_res := None\<rparr>) (upd_task 1 (\<lambda>b. b\<lparr>tcb_res := None\<rparr>)
    (upd_proc 1 (\<lambda>p. p\<lparr>is_zombie := True, exit_code := 0\<rparr>) (k3\<lparr>k_pid2pcb := k_pid2pcb k3 - {1}\<rparr>)))"
  have th: "k_tasks k3 1 = Some ((sample_tcb 0)\<lparr>tcb_exit_code := Some 0, tcb_res := None\<rparr>)" "k_tasks k3 2 = Some (sample_tcb 1)"
    "ready_queue (k_sched k3) = [2]"
    using k3(7) by (simp_all add: same_threads_def two_threads_def)
  have r: "ra_dealloc 1 \<lparr>ra_current = 2, ra_recycled = [0]\<rparr> = Some \<lparr>ra_current = 2, ra_recycled = [1, 0]\<rparr>" by (simp add: ra_dealloc_def)
  have less_2: "1 < (2 :: nat)" by simp
  have k5: "k_procs k5 1 = Some (p3\<lparr>is_zombie := True, exit_code := 0\<rparr>)" using k3(2) by (simp add: k5_def)
  obtain k6 where k6: "tur_drop \<lparr>tur_tid = 1, tur_ustack_base = 0x10000, tur_process = 1\<rparr> k5 = Some k6" "same_threads k5 k6"
    by (rule tur_drop_bare [OF k5 _ _ less_2]) (use k3(3,4) r in simp_all)
  have "exit_process 1 0 k3 \<noteq> None"
    using k3(2,5,6,8) th k6 p(3,4) by (simp add: exit_process_def remove_from_pid2process_def reparent_def two_threads_def k5_def
        sample_tcb_def List.map_filter_def tcb_release_def tcb_referenced_def same_threads_def)
  then show ?thesis using k3(1) by (auto simp: exit_current_def two_threads_sel sample_tcb_def IDLE_PID_def)
qed

theorem exit_leaves_ready_threads_witness:
  "\<exists>k'. exit_current 0 two_threads = Some (Scheduled k') \<and> 2 \<in> set (ready_queue (k_sched k')) \<and>
    (\<forall>k2. k_tasks k2 2 = k_tasks k' 2 \<longrightarrow> current (k_sched k2) = Some 2 \<longrightarrow> trap_end k2 = None)"
proof -
  obtain k' where k': "exit_current 0 two_threads = Some (Scheduled k')" using two_threads_exit by blast
  obtain p where p: "k_procs two_threads 1 = Some p" "tasks p = [Some 1, Some 2]" using two_threads_sel(3) by blast
  have "tcb_res (sample_tcb 0) = Some \<lparr>tur_tid = 0, tur_ustack_base = 0x10000, tur_process = 1\<rparr>" "tcb_process (sample_tcb 0) = 1"
    by (simp_all add: sample_tcb_def)
  from exit_leaves_ready_threads [OF k' two_threads_sel(1) this(1), of p 2] this(2) p show ?thesis
    using k' two_threads_sel(2) by auto
qed

end
