(* ===== verification/FdInv.thy ===== *)
theory FdInv
  imports ProcessProps
begin

text \<open>
  The type invariant of file descriptors: every descriptor of every process names a file object, and
  every pipe end names a ring buffer. Every system call keeps it, whether it returns or gives up
  the processor, so that the lookups of \<open>sys_read\<close>, \<open>sys_write\<close> and \<open>sys_fstat\<close> never fail.
\<close>

definition fds_ok :: "kernel \<Rightarrow> bool" where
  "fds_ok k \<longleftrightarrow> (\<forall>pid p f. k_procs k pid = Some p \<longrightarrow> Some f \<in> set (fd_table p) \<longrightarrow> k_files k f \<noteq> None) \<and>
     (\<forall>f. k_files k f \<noteq> None \<longrightarrow> f < k_next_file k) \<and>
     (\<forall>f p r. k_files k f = Some (FPipe p r) \<longrightarrow> k_rings k r \<noteq> None)"

text \<open>No new file object and no new descriptor, except copies from another process.\<close>

definition fds_frame :: "kernel \<Rightarrow> kernel \<Rightarrow> bool" where
  "fds_frame k k' \<longleftrightarrow> k_files k' = k_files k \<and> k_next_file k' = k_next_file k \<and> k_rings k' = k_rings k \<and>
     (\<forall>pid p' f. k_procs k' pid = Some p' \<longrightarrow> Some f \<in> set (fd_table p') \<longrightarrow>
        (\<exists>q p. k_procs k q = Some p \<and> Some f \<in> set (fd_table p)))"

lemma fds_frame_ok: "fds_ok k \<Longrightarrow> fds_frame k k' \<Longrightarrow> fds_ok k'"
  by (auto simp: fds_ok_def fds_frame_def) blast

lemma fds_refl [simp]: "fds_frame k k"
  by (auto simp: fds_frame_def)

lemma fds_trans: "fds_frame k k1 \<Longrightarrow> fds_frame k1 k2 \<Longrightarrow> fds_frame k k2"
  by (auto simp: fds_frame_def) blast

lemma fds_eqI: "k_files k' = k_files k \<Longrightarrow> k_next_file k' = k_next_file k \<Longrightarrow> k_rings k' = k_rings k \<Longrightarrow>
    k_procs k' = k_procs k \<Longrightarrow> fds_frame k k'"
  by (auto simp: fds_frame_def)

lemma k_rings_upd [simp]: "k_rings (upd_proc pid f k) = k_rings k" "k_rings (upd_task t g k) = k_rings k"
  by (simp_all add: upd_proc_def upd_task_def)

lemma fds_upd_proc:
  assumes "\<And>p. k_procs k pid = Some p \<Longrightarrow> set (fd_table (f p)) \<subseteq> insert None (set (fd_table p))"
  shows "fds_frame k (upd_proc pid f k)"
  using assms by (auto simp: fds_frame_def split: if_splits)

lemma fds_upd_task [simp]: "fds_frame k (upd_task t f k)"
  by (rule fds_eqI) simp_all

lemma fds_fields [simp]:
  "fds_frame k (k1\<lparr>k_mem := m\<rparr>) = fds_frame k k1" "fds_frame k (k1\<lparr>k_sched := s\<rparr>) = fds_frame k k1"
  "fds_frame k (k1\<lparr>k_disk := d\<rparr>) = fds_frame k k1" "fds_frame k (k1\<lparr>k_timers := ts\<rparr>) = fds_frame k k1"
  "fds_frame k (k1\<lparr>k_tasks := tk\<rparr>) = fds_frame k k1" "fds_frame k (k1\<lparr>k_space := sp\<rparr>) = fds_frame k k1"
  "fds_frame k (k1\<lparr>k_pid_allocator := a\<rparr>) = fds_frame k k1" "fds_frame k (k1\<lparr>k_kstack_allocator := a\<rparr>) = fds_frame k k1"
  "fds_frame k (k1\<lparr>k_pid2pcb := ps\<rparr>) = fds_frame k k1" "fds_frame k (k1\<lparr>k_console := c\<rparr>) = fds_frame k k1"
  by (simp_all add: fds_frame_def)

lemma fds_proc_field:
  "(\<And>p. fd_table (f p) = fd_table p) \<Longrightarrow> fds_frame k (upd_proc pid f k)"
  by (rule fds_upd_proc) auto

section \<open>Threads and their resources\<close>

lemma fds_fold:
  assumes "\<And>x k k'. g x k = Some k' \<Longrightarrow> fds_frame k k'"
  shows "fold_opt g xs k = Some k' \<Longrightarrow> fds_frame k k'"
proof (induction xs arbitrary: k)
  case (Cons x xs)
  then obtain k1 where "g x k = Some k1" "fold_opt g xs k1 = Some k'" by (auto simp: bind_eq_Some_conv)
  then show ?case using Cons.IH assms fds_trans by blast
qed simp

lemma fds_kstack_alloc: "kstack_alloc k = Some (t, k') \<Longrightarrow> fds_frame k k'"
  by (auto simp: kstack_alloc_def bind_eq_Some_conv split: prod.splits)

lemma fds_kstack_drop: "kstack_drop t k = Some k' \<Longrightarrow> fds_frame k k'"
  by (auto simp: kstack_drop_def bind_eq_Some_conv split: prod.splits)

lemma fds_alloc_user_res: "alloc_user_res r k = Some k' \<Longrightarrow> fds_frame k k'"
  by (auto simp: alloc_user_res_def bind_eq_Some_conv Let_def intro!: fds_proc_field)

lemma fds_dealloc_user_res: "dealloc_user_res r k = Some k' \<Longrightarrow> fds_frame k k'"
  by (auto simp: dealloc_user_res_def bind_eq_Some_conv intro!: fds_proc_field)

lemma fds_tur_drop: "tur_drop r k = Some k' \<Longrightarrow> fds_frame k k'"
proof -
  assume "tur_drop r k = Some k'"
  then obtain p p' where p: "k_procs k (tur_process r) = Some p" "dealloc_tid (tur_tid r) p = Some p'"
    "dealloc_user_res r (upd_proc (tur_process r) (\<lambda>_. p') k) = Some k'" by (auto simp: tur_drop_def bind_eq_Some_conv)
  have "fds_frame k (upd_proc (tur_process r) (\<lambda>_. p') k)"
    using p(1,2) by (intro fds_upd_proc) (auto simp: dealloc_tid_def bind_eq_Some_conv)
  then show ?thesis using fds_dealloc_user_res [OF p(3)] fds_trans by blast
qed

lemma fds_tur_new: "tur_new pid base al k = Some (r, k') \<Longrightarrow> fds_frame k k'"
proof -
  assume a: "tur_new pid base al k = Some (r, k')"
  then obtain p where "k_procs k pid = Some p" by (auto simp: tur_new_def bind_eq_Some_conv)
  moreover obtain tid p' where "alloc_tid p = (tid, p')" by fastforce
  ultimately have p: "k_procs k pid = Some p" "alloc_tid p = (tid, p')" .
  have "fds_frame k (upd_proc pid (\<lambda>_. p') k)"
    using p by (intro fds_upd_proc) (auto simp: alloc_tid_def split: prod.splits)
  then show ?thesis using a p
    by (auto simp: tur_new_def Let_def bind_eq_Some_conv split: if_splits dest: fds_alloc_user_res fds_trans)
qed

lemma fds_tcb_new: "tcb_new e pid base al k = Some (t, k') \<Longrightarrow> fds_frame k k'"
  by (auto simp: tcb_new_def bind_eq_Some_conv dest!: fds_tur_new fds_kstack_alloc dest: fds_trans)

lemma fds_tcb_release: "tcb_release pid t k = Some k' \<Longrightarrow> fds_frame k k'"
  by (auto simp: tcb_release_def bind_eq_Some_conv split: if_splits dest!: fds_kstack_drop)

lemma fds_take_res: "take_res ts k = Some (rs, k') \<Longrightarrow> fds_frame k k'"
proof (induction ts k arbitrary: rs rule: take_res.induct)
  case (3 t ts k)
  then obtain b rs' where "k_tasks k t = Some b" "take_res ts (upd_task t (\<lambda>b. b\<lparr>tcb_res := None\<rparr>) k) = Some (rs', k')"
    by (auto simp: bind_eq_Some_conv)
  from "3.IH" [OF this] show ?case by (rule fds_trans [OF fds_upd_task])
qed auto

lemma fds_reparent: "fds_frame k (reparent cs k)"
proof (induction cs arbitrary: k)
  case (Cons c cs)
  let ?k1 = "upd_proc IDLE_PID (\<lambda>d. d\<lparr>children := children d @ [c]\<rparr>) (upd_proc c (\<lambda>q. q\<lparr>parent := Some IDLE_PID\<rparr>) k)"
  have "fds_frame k ?k1" by (rule fds_trans; rule fds_proc_field; simp)
  from fds_trans [OF this Cons.IH] show ?case by (simp add: reparent_def)
qed (simp add: reparent_def)

section \<open>Processes\<close>

lemma fds_exit_process: "exit_process pid code k = Some k' \<Longrightarrow> fds_frame k k'"
proof -
  assume "exit_process pid code k = Some k'"
  then obtain p rs k4 k5 where p: "k_procs k pid = Some p"
    "take_res (tasks p) (reparent (children p) (upd_proc pid (\<lambda>p. p\<lparr>is_zombie := True, exit_code := code\<rparr>)
       (k\<lparr>k_pid2pcb := k_pid2pcb k - {pid}\<rparr>))) = Some (rs, k4)" "fold_opt tur_drop rs k4 = Some k5"
    "fold_opt (tcb_release pid) (List.map_filter (\<lambda>x. x) (drop 1 (tasks p)))
      (upd_proc pid (\<lambda>p. p\<lparr>children := [], memory_set := ms_recycle_data_pages (memory_set p), fd_table := [],
         tasks := take 1 (tasks p)\<rparr>) k5) = Some k'"
    by (auto simp: exit_process_def remove_from_pid2process_def bind_eq_Some_conv Let_def split: if_splits)
  have "fds_frame k (upd_proc pid (\<lambda>p. p\<lparr>is_zombie := True, exit_code := code\<rparr>) (k\<lparr>k_pid2pcb := k_pid2pcb k - {pid}\<rparr>))"
    by (rule fds_trans [OF _ fds_proc_field]) simp_all
  from fds_trans [OF this fds_trans [OF fds_reparent fds_take_res [OF p(2)]]] have 4: "fds_frame k k4" .
  have 5: "fds_frame k4 k5" using fds_fold [of tur_drop, OF fds_tur_drop p(3)] .
  have "fds_frame k5 (upd_proc pid (\<lambda>p. p\<lparr>children := [], memory_set := ms_recycle_data_pages (memory_set p),
      fd_table := [], tasks := take 1 (tasks p)\<rparr>) k5)" by (rule fds_upd_proc) simp
  from fds_trans [OF fds_trans [OF 4 5] fds_trans [OF this fds_fold [of "tcb_release pid", OF fds_tcb_release p(4)]]] show ?thesis .
qed

lemma fds_exit_current: "exit_current code k = Some (Scheduled k') \<Longrightarrow> fds_frame k k'"
proof -
  assume "exit_current code k = Some (Scheduled k')"
  then obtain t pid r k3 where r: "tur_drop r (upd_task t (\<lambda>b. b\<lparr>tcb_exit_code := Some code, tcb_res := None\<rparr>)
      (k\<lparr>k_sched := (k_sched k)\<lparr>current := None\<rparr>\<rparr>)) = Some k3" "k' = k3 \<or> exit_process pid code k3 = Some k'"
    by (auto simp: exit_current_def bind_eq_Some_conv Let_def split: if_splits)
  have "fds_frame k (upd_task t (\<lambda>b. b\<lparr>tcb_exit_code := Some code, tcb_res := None\<rparr>) (k\<lparr>k_sched := (k_sched k)\<lparr>current := None\<rparr>\<rparr>))"
    by (rule fds_eqI) simp_all
  from fds_trans [OF this fds_tur_drop [OF r(1)]] show ?thesis using r(2) by (auto elim: fds_trans dest: fds_exit_process)
qed

lemma fds_write_cmdline: "write_cmdline pid args k = Some k' \<Longrightarrow> fds_frame k k'"
  by (auto simp: write_cmdline_def bind_eq_Some_conv)

lemma fds_proc_entry: "proc_entry ppid pid k = Some k' \<Longrightarrow> fds_frame k k'"
  by (auto simp: proc_entry_def bind_eq_Some_conv Let_def)

lemma fds_proc_entry_drop: "proc_entry_drop pid k = Some k' \<Longrightarrow> fds_frame k k'"
  by (auto simp: proc_entry_drop_def bind_eq_Some_conv Let_def split: option.splits)

lemma fds_pid_drop: "pid_drop pid k = Some k' \<Longrightarrow> fds_frame k k'"
  by (auto simp: pid_drop_def bind_eq_Some_conv)

lemma fds_proc_remove: "fds_frame k (k\<lparr>k_procs := (k_procs k)(pid := None)\<rparr>)"
  by (auto simp: fds_frame_def split: if_splits)

lemma fds_pcb_drop: "pcb_drop pid k = Some k' \<Longrightarrow> fds_frame k k'"
proof -
  assume "pcb_drop pid k = Some k'"
  then obtain ts k1 k2 m where p: "proc_entry_drop pid k = Some k1" "pid_drop pid k1 = Some k2"
    "fold_opt (tcb_release pid) ts (k2\<lparr>k_mem := m, k_procs := (k_procs k2)(pid := None)\<rparr>) = Some k'"
    by (auto simp: pcb_drop_def bind_eq_Some_conv Let_def)
  have "fds_frame k2 (k2\<lparr>k_mem := m, k_procs := (k_procs k2)(pid := None)\<rparr>)"
    using fds_proc_remove [of "k2\<lparr>k_mem := m\<rparr>" pid] by (auto simp: fds_frame_def)
  from fds_trans [OF fds_trans [OF fds_proc_entry_drop [OF p(1)] fds_pid_drop [OF p(2)]]
      fds_trans [OF this fds_fold [of "tcb_release pid", OF fds_tcb_release p(3)]]] show ?thesis .
qed

lemma fds_exec: "exec e pid elf args k = Some k' \<Longrightarrow> fds_frame k k'"
proof -
  assume "exec e pid elf args k = Some k'"
  then obtain ms m' r k2 t ppn m2 k4 cx m3 where x: "alloc_user_res r ((upd_proc pid (\<lambda>p. p\<lparr>memory_set := ms\<rparr>) k)\<lparr>k_mem := m'\<rparr>) = Some k2"
    "write_cmdline pid args ((upd_task t (\<lambda>b. b\<lparr>tcb_res := Some r, tcb_trap_cx_ppn := ppn\<rparr>) k2)\<lparr>k_mem := m2\<rparr>) = Some k4"
    "k' = k4\<lparr>k_mem := m3\<rparr>"
    by (auto simp: exec_def bind_eq_Some_conv Let_def split: if_splits)
  have 1: "fds_frame k ((upd_proc pid (\<lambda>p. p\<lparr>memory_set := ms\<rparr>) k)\<lparr>k_mem := m'\<rparr>)" by (simp add: fds_proc_field)
  have 2: "fds_frame k2 ((upd_task t (\<lambda>b. b\<lparr>tcb_res := Some r, tcb_trap_cx_ppn := ppn\<rparr>) k2)\<lparr>k_mem := m2\<rparr>)" by simp
  from fds_trans [OF fds_trans [OF 1 fds_alloc_user_res [OF x(1)]] fds_trans [OF 2 fds_write_cmdline [OF x(2)]]]
  show ?thesis by (simp add: x(3))
qed

lemma fds_fork: "fork e ppid k = Some (pid, k') \<Longrightarrow> fds_frame k k'"
proof -
  assume "fork e ppid k = Some (pid, k')"
  moreover obtain c al where "ra_alloc (k_pid_allocator k) = (c, al)" by fastforce
  ultimately obtain p ms m t k4 k6 base where p: "k_procs k ppid = Some p"
    "tcb_new e c base False (upd_proc ppid (\<lambda>p. p\<lparr>children := children p @ [c]\<rparr>)
       (k\<lparr>k_mem := m, k_pid_allocator := al, k_procs := (k_procs k)(c \<mapsto> process_new ms (Some ppid) (cwd p) (fd_table p))\<rparr>)) = Some (t, k4)"
    "proc_entry ppid c k6 = Some k'" "fds_frame (upd_proc c (\<lambda>p. p\<lparr>tasks := tasks p @ [Some t]\<rparr>) k4) k6"
    by (auto simp: fork_def pid_alloc_def bind_eq_Some_conv Let_def split: if_splits)
  let ?k2 = "k\<lparr>k_mem := m, k_pid_allocator := al, k_procs := (k_procs k)(c \<mapsto> process_new ms (Some ppid) (cwd p) (fd_table p))\<rparr>"
  have 2: "fds_frame k ?k2" using p(1) by (auto simp: fds_frame_def process_new_def split: if_splits)
  have 3: "fds_frame ?k2 (upd_proc ppid (\<lambda>p. p\<lparr>children := children p @ [c]\<rparr>) ?k2)" by (rule fds_proc_field) simp
  have 5: "fds_frame k4 (upd_proc c (\<lambda>p. p\<lparr>tasks := tasks p @ [Some t]\<rparr>) k4)" by (rule fds_proc_field) simp
  from fds_trans [OF fds_trans [OF fds_trans [OF 2 3] fds_tcb_new [OF p(2)]] fds_trans [OF fds_trans [OF 5 p(4)] fds_proc_entry [OF p(3)]]]
  show ?thesis .
qed

section \<open>System calls that make no file\<close>

lemmas bind_defs = bind_eq_Some_conv Let_def

lemma fds_sys_fork: "sys_fork e k = Some (r, k') \<Longrightarrow> fds_frame k k'"
  by (auto simp: sys_fork_def bind_defs dest: fds_fork)

lemma fds_sys_exec: "sys_exec e path args k = Some (r, k') \<Longrightarrow> fds_frame k k'"
  by (auto simp: sys_exec_def bind_defs split: option.splits dest!: fds_exec) (auto simp: fds_frame_def)

lemma fds_sys_waitpid: "sys_waitpid pid ptr k = Some (r, k') \<Longrightarrow> fds_frame k k'"
proof -
  assume "sys_waitpid pid ptr k = Some (r, k')"
  then consider "k' = k" | me f m c where "pcb_drop c ((upd_proc me f k)\<lparr>k_mem := m\<rparr>) = Some k'" "\<And>p. fd_table (f p) = fd_table p"
    by (fastforce simp: sys_waitpid_def bind_defs split: if_splits option.splits)
  then show ?thesis
  proof cases
    case 2
    then show ?thesis using fds_trans [OF _ fds_pcb_drop [OF 2(1)], of k] by (simp add: fds_proc_field)
  qed simp
qed

lemma fds_sys_kill: "fds_frame k (snd (sys_kill pid sg k))"
  by (auto simp: sys_kill_def split: option.splits intro!: fds_proc_field)

lemma fds_sys_thread_create: "sys_thread_create e en arg k = Some (r, k') \<Longrightarrow> fds_frame k k'"
proof -
  assume "sys_thread_create e en arg k = Some (r, k')"
  then obtain pid base t k1 s n ts k4 where p: "tcb_new e pid base True k = Some (t, k1)"
    "fold_opt (tcb_release pid) ts (upd_proc pid (\<lambda>p. p\<lparr>tasks := (resize_none (Suc n) (tasks p))[n := Some t]\<rparr>) (k1\<lparr>k_sched := s\<rparr>)) = Some k4"
    "fds_frame k4 k'"
    by (auto simp: sys_thread_create_def bind_defs)
  have "fds_frame k1 (upd_proc pid (\<lambda>p. p\<lparr>tasks := (resize_none (Suc n) (tasks p))[n := Some t]\<rparr>) (k1\<lparr>k_sched := s\<rparr>))"
    by (rule fds_trans [OF _ fds_proc_field]) simp_all
  from fds_trans [OF fds_trans [OF fds_tcb_new [OF p(1)] this]
      fds_trans [OF fds_fold [of "tcb_release pid", OF fds_tcb_release p(2)] p(3)]]
  show ?thesis .
qed

lemma fds_sys_waittid: "sys_waittid tid k = Some (r, k') \<Longrightarrow> fds_frame k k'"
proof -
  assume "sys_waittid tid k = Some (r, k')"
  then consider "k' = k" | pid t f where "tcb_release pid t (upd_proc pid f k) = Some k'" "\<And>p. fd_table (f p) = fd_table p"
    by (fastforce simp: sys_waittid_def bind_defs split: if_splits option.splits)
  then show ?thesis
  proof cases
    case 2
    then show ?thesis using fds_trans [OF fds_proc_field fds_tcb_release [OF 2(1)]] by blast
  qed simp
qed

lemma current_pcb_proc: "current_pcb k = Some (pid, p) \<Longrightarrow> k_procs k pid = Some p"
  by (auto simp: current_pcb_def bind_eq_Some_conv)

lemma fds_sys_plain:
  "sys_getcwd buf len k = Some (r, k') \<Longrightarrow> fds_frame k k'" "sys_mkdir path k = Some (r, k') \<Longrightarrow> fds_frame k k'"
  "sys_fstat pad fd ptr k = Some (r, k') \<Longrightarrow> fds_frame k k'" "sys_sleep mt ms k = Some (r, k') \<Longrightarrow> fds_frame k k'"
  "sys_yield k = Some (r, k') \<Longrightarrow> fds_frame k k'" "sys_getpid k = Some (r, k') \<Longrightarrow> fds_frame k k'"
  "sys_gettid k = Some (r, k') \<Longrightarrow> fds_frame k k'" "sys_framebuffer fb k = Some (r, k') \<Longrightarrow> fds_frame k k'"
  by (auto simp: sys_getcwd_def sys_mkdir_def sys_fstat_def sys_sleep_def sys_yield_def sys_getpid_def sys_gettid_def
      sys_framebuffer_def bind_defs split: option.splits if_splits prod.splits intro!: fds_proc_field)

lemma fds_sys_chdir: "sys_chdir path k = Some (r, k') \<Longrightarrow> fds_frame k k'"
  by (auto simp: sys_chdir_def bind_defs split: option.splits if_splits intro!: fds_proc_field)

lemma fds_unlink_target: "unlink_target target par i k = Some (r, k') \<Longrightarrow> fds_frame k k'"
  by (auto simp: unlink_target_def bind_eq_Some_conv)

lemma fds_sys_unlink: "sys_unlink path fl k = Some (r, k') \<Longrightarrow> fds_frame k k'"
proof -
  assume a: "sys_unlink path fl k = Some (r, k')"
  then obtain full pp target c where 1: "user_path path k = Some full" "rsplit_once full = Some (pp, target)"
    "inode_find (k_efs k) (k_root k) pp (k_disk k) = Some c" by (auto simp: sys_unlink_def bind_eq_Some_conv)
  show ?thesis
  proof (cases c)
    case (Some par)
    then obtain i where 2: "vfs_find (k_efs k) target par (k_disk k) = Some i" using a 1 by (auto simp: sys_unlink_def bind_eq_Some_conv)
    show ?thesis
    proof (cases i)
      case (Some j)
      then obtain d where "is_dir j (k_disk k) = Some d" using a 1 2 \<open>c = Some par\<close> by (auto simp: sys_unlink_def bind_eq_Some_conv)
      then have "unlink_target target par j k = Some (r, k') \<or> k' = k"
        using a 1 2 \<open>c = Some par\<close> Some by (cases "file_size j (k_disk k)") (auto simp: sys_unlink_def Let_def split: if_splits)
      then show ?thesis using fds_unlink_target by auto
    qed (use a 1 2 Some in \<open>simp add: sys_unlink_def\<close>)
  qed (use a 1 in \<open>simp add: sys_unlink_def\<close>)
qed

lemma fds_sys_create:
  "sys_mutex_create b k = Some (r, k') \<Longrightarrow> fds_frame k k'" "sys_semaphore_create n k = Some (r, k') \<Longrightarrow> fds_frame k k'"
  "sys_condvar_create k = Some (r, k') \<Longrightarrow> fds_frame k k'"
  by (auto simp: sys_mutex_create_def sys_semaphore_create_def sys_condvar_create_def bind_defs case_prod_beta
      intro!: fds_proc_field)

lemma fds_sys_sync:
  "sys_mutex_lock i k = Some (r, out, k') \<Longrightarrow> fds_frame k k'" "sys_mutex_unlock i k = Some (r, k') \<Longrightarrow> fds_frame k k'"
  "sys_semaphore_up i k = Some (r, k') \<Longrightarrow> fds_frame k k'" "sys_semaphore_down i k = Some (r, out, k') \<Longrightarrow> fds_frame k k'"
  "sys_condvar_signal i k = Some (r, k') \<Longrightarrow> fds_frame k k'" "sys_condvar_wait i j k = Some (r, k') \<Longrightarrow> fds_frame k k'"
  by (auto simp: sys_mutex_lock_def sys_mutex_unlock_def sys_semaphore_up_def sys_semaphore_down_def sys_condvar_signal_def
      sys_condvar_wait_def bind_defs case_prod_beta split: option.split_asm intro!: fds_proc_field)

lemma fds_set_entry:
  assumes "current_pcb k = Some (pid, p)" "\<And>f. Some f \<in> set tab \<Longrightarrow> Some f \<in> set (fd_table p)"
  shows "fds_frame k (upd_proc pid (\<lambda>q. (g q)\<lparr>fd_table := tab\<rparr>) k)"
  using assms current_pcb_proc [OF assms(1)] by (auto simp: fds_frame_def split: if_splits)

lemma set_update_mem: "x \<in> set (xs[i := y]) \<Longrightarrow> x = y \<or> x \<in> set xs"
  using set_update_subset_insert [of xs i y] by auto

lemma alloc_fd_set: "alloc_fd p = (fd, p') \<Longrightarrow> Some f \<in> set (fd_table p') \<Longrightarrow> Some f \<in> set (fd_table p)"
  by (auto simp: alloc_fd_def alloc_slot_def split: option.splits prod.splits)

lemma fds_sys_dup: "sys_dup fd k = Some (r, k') \<Longrightarrow> fds_frame k k'"
proof -
  assume a: "sys_dup fd k = Some (r, k')"
  then obtain pid p where p: "current_pcb k = Some (pid, p)" by (auto simp: sys_dup_def bind_defs)
  obtain nfd p' where n: "alloc_fd p = (nfd, p')" by fastforce
  show ?thesis
  proof (cases "nth_opt (fd_table p) fd")
    case (Some x)
    then show ?thesis
    proof (cases x)
      case (Some f)
      have "Some f \<in> set (fd_table p)" using Some \<open>nth_opt (fd_table p) fd = Some x\<close> by (auto simp: in_set_conv_nth)
      then have "fds_frame k (upd_proc pid (\<lambda>q. (\<lambda>_. p') q\<lparr>fd_table := (fd_table p')[nfd := Some f]\<rparr>) k)"
        by (intro fds_set_entry [OF p])
          (auto dest!: set_update_mem alloc_fd_set [OF n])
      then show ?thesis using a p n Some \<open>nth_opt (fd_table p) fd = Some x\<close> by (auto simp: sys_dup_def)
    qed (use a p \<open>nth_opt (fd_table p) fd = Some x\<close> in \<open>auto simp: sys_dup_def\<close>)
  qed (use a p in \<open>auto simp: sys_dup_def\<close>)
qed

lemma fds_sys_dup2: "sys_dup2 a b k = Some (r, k') \<Longrightarrow> fds_frame k k'"
proof -
  assume a: "sys_dup2 a b k = Some (r, k')"
  then obtain pid p where p: "current_pcb k = Some (pid, p)" by (auto simp: sys_dup2_def bind_defs)
  define tab where "tab = (if length (fd_table p) \<le> b then resize_none ((b + 1) mod 2 ^ 64) (fd_table p) else fd_table p)"
  have m: "Some f \<in> set tab \<Longrightarrow> Some f \<in> set (fd_table p)" for f
    by (auto simp: tab_def resize_none_def dest: in_set_takeD split: if_splits)
  show ?thesis
  proof (cases "length (fd_table p) \<le> a")
    case False
    then obtain f where f: "nth_opt tab a = Some f" "k' = upd_proc pid (\<lambda>q. q\<lparr>fd_table := tab[b := f]\<rparr>) k"
      using a p by (auto simp: sys_dup2_def bind_defs tab_def [symmetric] simp del: nth_opt_Some split: if_splits)
    then have "f \<in> set tab" by (auto simp: in_set_conv_nth)
    then have "fds_frame k (upd_proc pid (\<lambda>q. q\<lparr>fd_table := tab[b := f]\<rparr>) k)"
      by (intro fds_set_entry [OF p]) (metis m set_update_mem)
    then show ?thesis by (simp add: f(2))
  qed (use a p in \<open>simp add: sys_dup2_def\<close>)
qed

lemma fds_sys_close: "sys_close fd k = Some (r, k') \<Longrightarrow> fds_frame k k'"
  by (auto simp: sys_close_def bind_defs split: if_splits intro!: fds_upd_proc dest!: set_update_mem)

section \<open>System calls that make or change files\<close>

lemma install_fd_ok:
  assumes "fds_ok k" "k_files k f \<noteq> None" "install_fd pid f k = Some (fd, k')"
  shows "fds_ok k'" "k_files k' = k_files k" "k_procs k' q \<noteq> None \<longleftrightarrow> k_procs k q \<noteq> None"
proof -
  obtain p where p: "k_procs k pid = Some p" using assms(3) by (auto simp: install_fd_def bind_defs)
  obtain nfd p' where n: "alloc_fd p = (nfd, p')" by fastforce
  have k': "k' = upd_proc pid (\<lambda>_. p'\<lparr>fd_table := (fd_table p')[nfd := Some f]\<rparr>) k"
    using assms(3) p n by (auto simp: install_fd_def)
  have "Some g \<in> set ((fd_table p')[nfd := Some f]) \<Longrightarrow> k_files k g \<noteq> None" for g
    using assms(1,2) p by (auto simp: fds_ok_def dest!: set_update_mem alloc_fd_set [OF n])
  then show "fds_ok k'" using assms(1) p by (auto simp: fds_ok_def k' split: if_splits)
  show "k_files k' = k_files k" "k_procs k' q \<noteq> None \<longleftrightarrow> k_procs k q \<noteq> None" using p by (simp_all add: k')
qed

lemma fds_ok_disk [simp]: "fds_ok (k\<lparr>k_disk := s\<rparr>) = fds_ok k" "fds_ok (k\<lparr>k_mem := m\<rparr>) = fds_ok k"
  "fds_ok (k\<lparr>k_sched := sc\<rparr>) = fds_ok k" "fds_ok (k\<lparr>k_console := c\<rparr>) = fds_ok k"
  by (simp_all add: fds_ok_def)

lemma file_new_ok:
  assumes "fds_ok k" "\<And>p r. obj = FPipe p r \<Longrightarrow> k_rings k r \<noteq> None" "file_new obj k = (f, k')"
  shows "fds_ok k'" "k_files k' f \<noteq> None"
  using assms by (auto simp: fds_ok_def file_new_def less_Suc_eq split: if_splits)

lemma sys_open_ok:
  assumes "fds_ok k" "sys_open path fl k = Some (r, k')"
  shows "fds_ok k'"
proof -
  obtain pid p full f0 x s where 1: "current_pcb k = Some (pid, p)" "user_path path k = Some full" "open_flags_from_bits fl = Some f0"
    "open_file (k_efs k) (k_root k) full f0 (k_disk k) = Some (x, s)" using assms(2) by (auto simp: sys_open_def bind_eq_Some_conv)
  show ?thesis
  proof (cases x)
    case (Some osi)
    obtain f k2 where n: "file_new (FInode osi) (k\<lparr>k_disk := s\<rparr>) = (f, k2)" by fastforce
    have k2: "fds_ok k2" "k_files k2 f \<noteq> None" by (rule file_new_ok [OF _ _ n]; simp add: assms(1))+
    obtain fd where "install_fd pid f k2 = Some (fd, k')" using assms(2) 1 Some n by (auto simp: sys_open_def bind_defs)
    then show ?thesis using install_fd_ok(1) [OF k2] by blast
  qed (use assms 1 in \<open>auto simp: sys_open_def Let_def\<close>)
qed

lemma sys_pipe_ok:
  assumes "fds_ok k" "sys_pipe ptr k = Some (r, k')"
  shows "fds_ok k'"
proof -
  define rid where "rid = k_next_file k"
  obtain pr pw rb where m: "pipe_make (rid + 1) = (pr, pw, rb)" by (metis prod_cases3)
  define k3 where "k3 = k\<lparr>k_files := (k_files k)(rid \<mapsto> FPipe pr rid, Suc rid \<mapsto> FPipe pw rid), k_next_file := rid + 2,
    k_rings := (k_rings k)(rid \<mapsto> rb)\<rparr>"
  have k3: "fds_ok k3" "k_files k3 rid \<noteq> None" "k_files k3 (Suc rid) \<noteq> None"
    using assms(1) by (auto simp: fds_ok_def k3_def rid_def split: if_splits)
  obtain pid a k4 b k5 m' where i: "install_fd pid rid k3 = Some (a, k4)" "install_fd pid (Suc rid) k4 = Some (b, k5)" "k' = k5\<lparr>k_mem := m'\<rparr>"
    using assms(2) m by (auto simp: sys_pipe_def bind_defs file_new_def k3_def rid_def)
  have "fds_ok k5" using install_fd_ok [OF k3(1,2) i(1)] install_fd_ok(1) [OF _ _ i(2)] k3(3) by simp
  then show ?thesis by (simp add: i(3))
qed

lemma suspend_unless_ok: "fds_ok k \<Longrightarrow> suspend_unless b n k = Some (r, k') \<Longrightarrow> fds_ok k'"
  by (auto simp: suspend_unless_def bind_eq_Some_conv split: if_splits)

lemma fds_ok_inode: "fds_ok k \<Longrightarrow> k_files k f \<noteq> None \<Longrightarrow> fds_ok (k\<lparr>k_files := (k_files k)(f \<mapsto> FInode osi)\<rparr>)"
  by (auto simp: fds_ok_def split: if_splits)

lemma fds_ok_ring: "fds_ok k \<Longrightarrow> fds_ok (k\<lparr>k_rings := (k_rings k)(r \<mapsto> rb)\<rparr>)"
  by (auto simp: fds_ok_def)

lemma file_read_ok:
  assumes "fds_ok k" "k_files k f = Some obj" "file_read ch f obj ub k = Some (r, k')"
  shows "fds_ok k'"
proof (cases obj)
  case (FInode osi)
  then show ?thesis using assms by (auto simp: file_read_def bind_eq_Some_conv fds_ok_def split: if_splits)
next
  case (FPipe p rid)
  then show ?thesis using assms(3) fds_ok_ring [OF assms(1), of rid]
    by (auto simp: file_read_def bind_eq_Some_conv split: if_splits elim!: suspend_unless_ok [rotated])
qed (use assms in \<open>auto simp: file_read_def bind_eq_Some_conv split: if_splits prod.splits\<close>)

lemma file_write_ok:
  assumes "fds_ok k" "k_files k f = Some obj" "file_write f obj ub k = Some (r, k')"
  shows "fds_ok k'"
proof (cases obj)
  case (FInode osi)
  then show ?thesis using assms by (auto simp: file_write_def bind_eq_Some_conv fds_ok_def split: if_splits)
next
  case (FPipe p rid)
  then show ?thesis using assms(3) fds_ok_ring [OF assms(1), of rid]
    by (auto simp: file_write_def bind_eq_Some_conv case_prod_beta Let_def split: if_splits elim!: suspend_unless_ok [rotated])
qed (use assms in \<open>auto simp: file_write_def bind_eq_Some_conv split: if_splits\<close>)

lemma sys_read_ok: "fds_ok k \<Longrightarrow> sys_read ch fd buf len k = Some (r, k') \<Longrightarrow> fds_ok k'"
  by (auto simp: sys_read_def bind_eq_Some_conv split: option.splits if_splits elim: file_read_ok)

lemma sys_write_ok: "fds_ok k \<Longrightarrow> sys_write fd buf len k = Some (r, k') \<Longrightarrow> fds_ok k'"
  by (auto simp: sys_write_def bind_eq_Some_conv split: option.splits if_splits elim: file_write_ok)

section \<open>Every system call\<close>

text \<open>The kernel a call leaves behind, if it does not shut the machine down.\<close>

fun kernel_after :: "sys_result \<Rightarrow> kernel option" where
  "kernel_after (Ret r k) = Some k"
| "kernel_after (Away k) = Some k"
| "kernel_after (Off b) = None"

lemma ret_SomeD:
  "ret x = Some r \<Longrightarrow> kernel_after r = Some k' \<Longrightarrow> \<exists>v. x = Some (v, k')"
  "away x = Some r \<Longrightarrow> kernel_after r = Some k' \<Longrightarrow> \<exists>v. x = Some (v, k')"
  "ret_lock z = Some r \<Longrightarrow> kernel_after r = Some k' \<Longrightarrow> \<exists>v out. z = Some (v, out, k')"
  by (auto simp: ret_def away_def ret_lock_def split: if_splits)

lemma ret_io_SomeD: "ret_io y = Some r \<Longrightarrow> kernel_after r = Some k' \<Longrightarrow> \<exists>v. y = Some (v, k')"
  by (cases y) (auto simp: ret_io_def split: io_result.split_asm)

lemma ret_exit_SomeD: "ret_exit w = Some r \<Longrightarrow> kernel_after r = Some k' \<Longrightarrow> w = Some (Scheduled k')"
  by (cases w) (auto simp: ret_exit_def split: exit_result.split_asm)

lemmas call_frames = fds_sys_plain fds_sys_chdir fds_sys_unlink fds_sys_create fds_sys_sync fds_sys_dup fds_sys_dup2
  fds_sys_close fds_sys_fork fds_sys_exec fds_sys_waitpid fds_sys_thread_create fds_sys_waittid

lemmas call_keeps = call_frames [THEN fds_frame_ok [rotated]]

lemma run_call_ok:
  assumes "fds_ok k" "run_call e mc c k = Some r" "kernel_after r = Some k'"
  shows "fds_ok k'"
proof (cases c)
  case (COpen path fl)
  then show ?thesis using assms by (auto dest!: ret_SomeD elim: sys_open_ok)
next
  case (CPipe ptr)
  then show ?thesis using assms by (auto dest!: ret_SomeD elim: sys_pipe_ok)
next
  case (CRead fd buf len)
  then show ?thesis using assms by (auto dest!: ret_io_SomeD elim: sys_read_ok)
next
  case (CWrite fd buf len)
  then show ?thesis using assms by (auto dest!: ret_io_SomeD elim: sys_write_ok)
next
  case (CKill pid sg)
  then show ?thesis using assms fds_sys_kill [of k pid sg] by (auto split: prod.splits intro: fds_frame_ok)
next
  case (CExit code)
  then show ?thesis using assms by (auto simp: sys_exit_def dest!: ret_exit_SomeD fds_exit_current intro: fds_frame_ok)
next
  case (CCondvarWait i j)
  then show ?thesis using assms by (auto split: option.splits if_splits elim: call_keeps)
qed (use assms in \<open>auto dest!: ret_SomeD elim: call_keeps\<close>)

text \<open>Whatever system call a program makes, with whatever arguments: if before it every descriptor
  of every process points to a file object and every pipe end to a ring buffer, then so it does
  afterwards, whether the call returned or gave up the processor.\<close>

theorem system_calls_keep_descriptors:
  assumes "fds_ok k" "syscall e mc n args k = Some r" "kernel_after r = Some k'"
  shows "fds_ok k'"
proof -
  obtain c where "run_call e mc c k = Some r" using assms(2) by (auto simp: syscall_def bind_eq_Some_conv)
  then show ?thesis by (rule run_call_ok [OF assms(1) _ assms(3)])
qed

lemma two_threads_fds: "fds_ok two_threads"
  by (auto simp: fds_ok_def two_threads_def process_new_def split: if_splits)

lemma two_threads_dup: "\<exists>k' p. syscall e mc 23 [1, 0, 0] two_threads = Some (Ret 0 k') \<and>
    k_procs k' 1 = Some p \<and> fd_table p = [Some 0, Some 0]"
proof -
  obtain p where p: "current_pcb two_threads = Some (1, p)" "fd_table p = [None, Some 0]"
    using two_threads_sel by (auto simp: current_pcb_def sample_tcb_def)
  have "alloc_fd p = (0, p)" using p(2) by (simp add: alloc_fd_def alloc_slot_def)
  then show ?thesis using p two_threads_sel(3)
    by (auto simp: syscall_def syscall_decode_def ret_def sys_dup_def nth_opt_def)
qed

theorem system_calls_keep_descriptors_witness:
  "\<forall>e mc. \<exists>k' p. syscall e mc 23 [1, 0, 0] two_threads = Some (Ret 0 k') \<and> k_procs k' 1 = Some p \<and>
     fd_table p = [Some 0, Some 0] \<and> fds_ok k'"
proof (intro allI)
  fix e mc
  obtain k' p where "syscall e mc 23 [1, 0, 0] two_threads = Some (Ret 0 k')" "k_procs k' 1 = Some p" "fd_table p = [Some 0, Some 0]"
    using two_threads_dup by blast
  with system_calls_keep_descriptors [OF two_threads_fds this(1)]
  show "\<exists>k' p. syscall e mc 23 [1, 0, 0] two_threads = Some (Ret 0 k') \<and> k_procs k' 1 = Some p \<and>
     fd_table p = [Some 0, Some 0] \<and> fds_ok k'" by auto
qed

end
