(* ===== verification/Trampoline.thy ===== *)
theory Trampoline
  imports Task
begin

text \<open>
  The assembly of the kernel: the trap entry and exit of \<open>kernel/src/trap/trap.S\<close> and the context
  switch of \<open>kernel/src/task/switch.S\<close>, as lists of instructions with their macros expanded, over a
  hart with the general registers, the control registers the code uses, the privilege mode and
  physical memory in double words. Addresses go through \<open>tr\<close>, the translation of the memory
  management unit under the current \<open>satp\<close>, which is an argument. Instruction fetch and the length
  of instructions are left out: a list of instructions runs to its final jump.
\<close>

section \<open>The hart\<close>

datatype csr = Sstatus | Sepc | Sscratch | Satp | Stvec

record cpu =
  c_pc :: u64
  c_x :: "nat \<Rightarrow> u64"
  c_csr :: "csr \<Rightarrow> u64"
  c_user :: bool
  c_pm :: "u64 \<Rightarrow> u64"

type_synonym mmu = "u64 \<Rightarrow> u64 \<Rightarrow> u64"

datatype instr = SD nat u64 nat | LD nat u64 nat | CSRRW nat csr nat | CSRR nat csr | CSRW csr nat
  | ADDI nat nat u64 | MV nat nat | SFENCE | JR nat | JALR nat u64 | SRET

definition set_x :: "nat \<Rightarrow> u64 \<Rightarrow> cpu \<Rightarrow> cpu" where
  "set_x r v s = (if r = 0 then s else s\<lparr>c_x := (c_x s)(r := v)\<rparr>)"

definition set_csr :: "csr \<Rightarrow> u64 \<Rightarrow> cpu \<Rightarrow> cpu" where
  "set_csr c v s = s\<lparr>c_csr := (c_csr s)(c := v)\<rparr>"

text \<open>The bits SIE, SPIE and SPP of \<open>sstatus\<close>: a trap saves the interrupt enable and the mode, \<open>sret\<close>
  brings them back.\<close>

definition put_bit :: "nat \<Rightarrow> bool \<Rightarrow> u64 \<Rightarrow> u64" where
  "put_bit n b w = (if b then set_bit n w else unset_bit n w)"

definition take_trap :: "cpu \<Rightarrow> cpu" where
  "take_trap s = (let st = c_csr s Sstatus in
     s\<lparr>c_csr := (c_csr s)(Sepc := c_pc s,
         Sstatus := put_bit 8 (\<not> c_user s) (put_bit 1 False (put_bit 5 (bit st 1) st))),
       c_pc := c_csr s Stvec, c_user := False\<rparr>)"

fun exec1 :: "mmu \<Rightarrow> instr \<Rightarrow> cpu \<Rightarrow> cpu" where
  "exec1 tr (SD rs off b) s = s\<lparr>c_pm := (c_pm s)(tr (c_csr s Satp) (c_x s b + off) := c_x s rs)\<rparr>"
| "exec1 tr (LD rd off b) s = set_x rd (c_pm s (tr (c_csr s Satp) (c_x s b + off))) s"
| "exec1 tr (CSRRW rd c rs) s = set_x rd (c_csr s c) (set_csr c (c_x s rs) s)"
| "exec1 tr (CSRR rd c) s = set_x rd (c_csr s c) s"
| "exec1 tr (CSRW c rs) s = set_csr c (c_x s rs) s"
| "exec1 tr (ADDI rd rs imm) s = set_x rd (c_x s rs + imm) s"
| "exec1 tr (MV rd rs) s = set_x rd (c_x s rs) s"
| "exec1 tr SFENCE s = s"
| "exec1 tr (JR rs) s = s\<lparr>c_pc := c_x s rs\<rparr>"
| "exec1 tr (JALR rs link) s = set_x 1 link (s\<lparr>c_pc := c_x s rs\<rparr>)"
| "exec1 tr SRET s = (let st = c_csr s Sstatus in
     s\<lparr>c_pc := c_csr s Sepc, c_user := \<not> bit st 8,
       c_csr := (c_csr s)(Sstatus := put_bit 8 False (put_bit 5 True (put_bit 1 (bit st 5) st)))\<rparr>)"

definition run_code :: "mmu \<Rightarrow> instr list \<Rightarrow> cpu \<Rightarrow> cpu" where
  "run_code tr code s = fold (exec1 tr) code s"

section \<open>The code\<close>

text \<open>The offset \<open>n*8\<close>.\<close>

definition slot :: "nat \<Rightarrow> u64" where
  "slot n = 8 * of_nat n"

definition SAVE_GP :: "nat \<Rightarrow> instr" where
  "SAVE_GP n = SD n (slot n) 2"

definition LOAD_GP :: "nat \<Rightarrow> instr" where
  "LOAD_GP n = LD n (slot n) 2"

text \<open>Registers by their ABI names: \<open>ra\<close> is 1, \<open>sp\<close> 2, \<open>t0\<close> to \<open>t2\<close> 5 to 7, \<open>a0\<close> 10, \<open>a1\<close> 11.\<close>

definition alltraps :: "instr list" where
  "alltraps = [CSRRW 2 Sscratch 2, SD 1 (slot 1) 2, SD 3 (slot 3) 2] @ map SAVE_GP [5..<32] @
     [CSRR 5 Sstatus, CSRR 6 Sepc, SD 5 (slot 32) 2, SD 6 (slot 33) 2, CSRR 7 Sscratch, SD 7 (slot 2) 2,
      LD 5 (slot 34) 2, LD 6 (slot 36) 2, LD 2 (slot 35) 2, CSRW Satp 5, SFENCE, JR 6]"

definition restore :: "instr list" where
  "restore = [CSRW Satp 11, SFENCE, CSRW Sscratch 10, MV 2 10, LD 5 (slot 32) 2, LD 6 (slot 33) 2,
      CSRW Sstatus 5, CSRW Sepc 6, LD 1 (slot 1) 2, LD 3 (slot 3) 2] @ map LOAD_GP [5..<32] @ [LD 2 (slot 2) 2, SRET]"

definition alltraps_k :: "u64 \<Rightarrow> instr list" where
  "alltraps_k restore_k_va = [ADDI 2 2 (- slot 34), SD 1 (slot 1) 2, SD 3 (slot 3) 2] @ map SAVE_GP [5..<32] @
     [CSRR 5 Sstatus, CSRR 6 Sepc, SD 5 (slot 32) 2, SD 6 (slot 33) 2, MV 10 2, CSRR 7 Sscratch, JALR 7 restore_k_va]"

definition restore_k :: "instr list" where
  "restore_k = [LD 5 (slot 32) 2, LD 6 (slot 33) 2, CSRW Sstatus 5, CSRW Sepc 6, LD 1 (slot 1) 2, LD 3 (slot 3) 2] @
     map LOAD_GP [5..<32] @ [ADDI 2 2 (slot 34), SRET]"

text \<open>The registers \<open>s0\<close>, \<open>s1\<close> are 8, 9 and \<open>s2\<close> to \<open>s11\<close> are 18 to 27.\<close>

definition sreg :: "nat \<Rightarrow> nat" where
  "sreg n = (if n < 2 then 8 + n else 16 + n)"

definition SAVE_SN :: "nat \<Rightarrow> instr" where
  "SAVE_SN n = SD (sreg n) (slot (n + 2)) 10"

definition LOAD_SN :: "nat \<Rightarrow> instr" where
  "LOAD_SN n = LD (sreg n) (slot (n + 2)) 11"

definition switch :: "instr list" where
  "switch = [SD 2 (slot 1) 10, SD 1 (slot 0) 10] @ map SAVE_SN [0..<12] @
     [LD 1 (slot 0) 11] @ map LOAD_SN [0..<12] @ [LD 2 (slot 1) 11, JR 1]"

section \<open>Runs of saves and loads\<close>

lemma run_code_simps [simp]:
  "run_code tr [] s = s" "run_code tr (i # is) s = run_code tr is (exec1 tr i s)"
  "run_code tr (is @ js) s = run_code tr js (run_code tr is s)"
  by (simp_all add: run_code_def)

text \<open>Writing the words \<open>f n\<close> to the addresses \<open>ad n\<close>.\<close>

definition store_all :: "(nat \<Rightarrow> u64) \<Rightarrow> (nat \<Rightarrow> u64) \<Rightarrow> nat list \<Rightarrow> (u64 \<Rightarrow> u64) \<Rightarrow> u64 \<Rightarrow> u64" where
  "store_all ad f ns m = fold (\<lambda>n m. m(ad n := f n)) ns m"

lemma store_all_simps [simp]:
  "store_all ad f [] m = m" "store_all ad f (n # ns) m = store_all ad f ns (m(ad n := f n))"
  by (simp_all add: store_all_def)

lemma run_saves:
  "run_code tr (map (\<lambda>n. SD (g n) (off n) b) ns) s =
   s\<lparr>c_pm := store_all (\<lambda>n. tr (c_csr s Satp) (c_x s b + off n)) (\<lambda>n. c_x s (g n)) ns (c_pm s)\<rparr>"
proof (induction ns arbitrary: s)
  case (Cons n ns)
  then show ?case by (simp add: fun_upd_def)
qed simp

lemma store_all_at:
  assumes "inj_on ad (insert i (set ns))"
  shows "store_all ad f ns m (ad i) = (if i \<in> set ns then f i else m (ad i))"
  using assms
proof (induction ns arbitrary: m)
  case (Cons n ns)
  have "inj_on ad (insert i (set ns))" using Cons.prems by (auto intro: inj_on_subset)
  then have "store_all ad f (n # ns) m (ad i) = (if i \<in> set ns then f i else (m(ad n := f n)) (ad i))"
    unfolding store_all_simps by (rule Cons.IH)
  moreover have "ad i = ad n \<longleftrightarrow> i = n" using Cons.prems by (auto simp: inj_on_def)
  ultimately show ?case by auto
qed simp

lemma store_all_other: "(\<And>n. n \<in> set ns \<Longrightarrow> a \<noteq> ad n) \<Longrightarrow> store_all ad f ns m a = m a"
proof (induction ns arbitrary: m)
  case (Cons n ns)
  then show ?case by simp
qed simp

lemma run_loads:
  assumes "b \<notin> g ` set ns" "0 \<notin> g ` set ns" "inj_on g (set ns)"
  shows "run_code tr (map (\<lambda>n. LD (g n) (off n) b) ns) s =
    s\<lparr>c_x := \<lambda>r. if r \<in> g ` set ns then c_pm s (tr (c_csr s Satp) (c_x s b + off (the_inv_into (set ns) g r))) else c_x s r\<rparr>"
  using assms
proof (induction ns arbitrary: s)
  case (Cons n ns)
  have IH: "run_code tr (map (\<lambda>n. LD (g n) (off n) b) ns) s =
    s\<lparr>c_x := \<lambda>r. if r \<in> g ` set ns then c_pm s (tr (c_csr s Satp) (c_x s b + off (the_inv_into (set ns) g r))) else c_x s r\<rparr>" for s
    using Cons by (simp add: inj_on_def)
  have inv: "the_inv_into (set (n # ns)) g (g k) = k" if "k \<in> set (n # ns)" for k
    using Cons.prems(3) that by (intro the_inv_into_f_f) auto
  have inv': "the_inv_into (set ns) g (g k) = k" if "k \<in> set ns" for k
    using Cons.prems(3) that by (intro the_inv_into_f_f) (auto simp: inj_on_def)
  have inj: "k = n" if "g n = g k" "k \<in> set ns" for k
    using Cons.prems(3) that by (metis inj_onD list.set_intros(1,2))
  show ?case using Cons.prems inv inv' by (auto simp: IH set_x_def dest!: inj intro!: cpu.equality ext)
qed simp

section \<open>Traps from user mode\<close>

text \<open>The double words of a context at the virtual address \<open>va\<close> are different places of memory.\<close>

definition mapped_slots :: "mmu \<Rightarrow> u64 \<Rightarrow> u64 \<Rightarrow> nat \<Rightarrow> bool" where
  "mapped_slots tr satp va n \<longleftrightarrow> inj_on (\<lambda>i. tr satp (va + slot i)) {..<n}"

definition cx_at :: "mmu \<Rightarrow> u64 \<Rightarrow> u64 \<Rightarrow> cpu \<Rightarrow> trap_context \<Rightarrow> bool" where
  "cx_at tr satp va s cx \<longleftrightarrow> length (tc_x cx) = 32 \<and>
     (\<forall>i<37. c_pm s (tr satp (va + slot i)) = of_nat (tc_words cx ! i))"

lemma mapped_slotsD: "mapped_slots tr satp va n \<Longrightarrow> i < n \<Longrightarrow> j < n \<Longrightarrow>
    (tr satp (va + slot i) = tr satp (va + slot j)) = (i = j)"
  by (auto simp: mapped_slots_def inj_on_def)

definition gp_saved :: "nat list" where
  "gp_saved = 1 # 3 # [5..<32]"

lemma gp_saved_set [simp]: "i \<in> set gp_saved \<longleftrightarrow> i \<noteq> 0 \<and> i \<noteq> 2 \<and> i \<noteq> 4 \<and> i < 32"
  unfolding gp_saved_def list.set set_upt by auto

lemma save_gp_block: "[SD 1 (slot 1) 2, SD 3 (slot 3) 2] @ map SAVE_GP [5..<32] = map (\<lambda>n. SD n (slot n) 2) gp_saved"
  by (simp add: gp_saved_def SAVE_GP_def)

lemma load_gp_block: "[LD 1 (slot 1) 2, LD 3 (slot 3) 2] @ map LOAD_GP [5..<32] = map (\<lambda>n. LD n (slot n) 2) gp_saved"
  by (simp add: gp_saved_def LOAD_GP_def)

lemma run_save_gp:
  assumes "mapped_slots tr (c_csr s Satp) (c_x s 2) n" "i < n" "32 \<le> n"
  shows "c_pm (run_code tr (map (\<lambda>n. SD n (slot n) 2) gp_saved) s) (tr (c_csr s Satp) (c_x s 2 + slot i)) =
    (if i \<in> set gp_saved then c_x s i else c_pm s (tr (c_csr s Satp) (c_x s 2 + slot i)))"
proof -
  have "insert i (set gp_saved) \<subseteq> {..<n}" using assms(2,3) by auto
  then have "inj_on (\<lambda>i. tr (c_csr s Satp) (c_x s 2 + slot i)) (insert i (set gp_saved))"
    using assms(1) unfolding mapped_slots_def by (rule inj_on_subset [rotated])
  then show ?thesis using store_all_at [where ad="\<lambda>i. tr (c_csr s Satp) (c_x s 2 + slot i)" and i=i]
    by (simp add: run_saves [where g="\<lambda>n. n"])
qed

lemma run_load_gp:
  "run_code tr (map (\<lambda>n. LD n (slot n) 2) gp_saved) s =
   s\<lparr>c_x := \<lambda>r. if r \<in> set gp_saved then c_pm s (tr (c_csr s Satp) (c_x s 2 + slot r)) else c_x s r\<rparr>"
proof -
  have "the_inv_into (set gp_saved) (\<lambda>n. n) r = r" if "r \<in> set gp_saved" for r
    using the_inv_into_f_f [of "\<lambda>n. n" "set gp_saved" r] that by (simp add: inj_on_def)
  then show ?thesis by (subst run_loads [where g="\<lambda>n. n"]) (auto simp: inj_on_def intro!: cpu.equality ext)
qed

lemma run_save_gp_frame:
  "run_code tr (map (\<lambda>n. SD n (slot n) 2) gp_saved) s =
   s\<lparr>c_pm := c_pm (run_code tr (map (\<lambda>n. SD n (slot n) 2) gp_saved) s)\<rparr>"
  by (simp add: run_saves [where g="\<lambda>n. n"])

lemma alltraps_split: "alltraps = CSRRW 2 Sscratch 2 # map (\<lambda>n. SD n (slot n) 2) gp_saved @
    [CSRR 5 Sstatus, CSRR 6 Sepc, SD 5 (slot 32) 2, SD 6 (slot 33) 2, CSRR 7 Sscratch, SD 7 (slot 2) 2,
     LD 5 (slot 34) 2, LD 6 (slot 36) 2, LD 2 (slot 35) 2, CSRW Satp 5, SFENCE, JR 6]"
  unfolding alltraps_def save_gp_block [symmetric] by simp

lemma alltraps_run:
  fixes tr s
  defines "ad \<equiv> \<lambda>i. tr (c_csr s Satp) (c_csr s Sscratch + slot i)"
  assumes m: "mapped_slots tr (c_csr s Satp) (c_csr s Sscratch) 37"
  shows "i < 37 \<Longrightarrow> c_pm (run_code tr alltraps s) (ad i) =
      (if i = 32 then c_csr s Sstatus else if i = 33 then c_csr s Sepc
       else if i = 0 \<or> i = 4 \<or> 34 \<le> i then c_pm s (ad i) else c_x s i)" (is "_ \<Longrightarrow> ?mem")
    and "c_pc (run_code tr alltraps s) = c_pm s (ad 36)" "c_x (run_code tr alltraps s) 2 = c_pm s (ad 35)"
      "c_csr (run_code tr alltraps s) = (c_csr s)(Sscratch := c_x s 2, Satp := c_pm s (ad 34))"
      "c_user (run_code tr alltraps s) = c_user s"
proof -
  define s0 where "s0 = exec1 tr (CSRRW 2 Sscratch 2) s"
  have s0: "c_csr s0 = (c_csr s)(Sscratch := c_x s 2)" "c_x s0 = (c_x s)(2 := c_csr s Sscratch)" "c_pm s0 = c_pm s"
    "c_user s0 = c_user s" by (simp_all add: s0_def set_x_def set_csr_def)
  obtain M where M: "run_code tr (map (\<lambda>n. SD n (slot n) 2) gp_saved) s0 = s0\<lparr>c_pm := M\<rparr>" using run_save_gp_frame by blast
  have at: "M (ad j) = (if j \<in> set gp_saved then c_x s j else c_pm s (ad j))" if "j < 37" for j
    using run_save_gp [of tr s0 37 j] m M that by (auto simp: s0 ad_def)
  have ne: "(ad j = ad k) = (j = k)" if "j < 37" "k < 37" for j k
    unfolding ad_def by (rule mapped_slotsD [OF m that])
  have all: "run_code tr alltraps s = run_code tr
    [CSRR 5 Sstatus, CSRR 6 Sepc, SD 5 (slot 32) 2, SD 6 (slot 33) 2, CSRR 7 Sscratch, SD 7 (slot 2) 2,
     LD 5 (slot 34) 2, LD 6 (slot 36) 2, LD 2 (slot 35) 2, CSRW Satp 5, SFENCE, JR 6] (s0\<lparr>c_pm := M\<rparr>)"
    by (simp only: alltraps_split run_code_simps M s0_def [symmetric])
  have ad: "tr (c_csr s Satp) (c_csr s Sscratch + slot j) = ad j" for j by (simp add: ad_def)
  note run = all set_x_def set_csr_def s0 ad at ne
  show "c_pc (run_code tr alltraps s) = c_pm s (ad 36)" "c_x (run_code tr alltraps s) 2 = c_pm s (ad 35)"
    "c_csr (run_code tr alltraps s) = (c_csr s)(Sscratch := c_x s 2, Satp := c_pm s (ad 34))"
    "c_user (run_code tr alltraps s) = c_user s" by (simp_all add: run fun_upd_twist)
  show ?mem if "i < 37" using that by (auto simp: run)
qed

lemma restore_split: "restore = [CSRW Satp 11, SFENCE, CSRW Sscratch 10, MV 2 10, LD 5 (slot 32) 2, LD 6 (slot 33) 2,
      CSRW Sstatus 5, CSRW Sepc 6] @ map (\<lambda>n. LD n (slot n) 2) gp_saved @ [LD 2 (slot 2) 2, SRET]"
  unfolding restore_def load_gp_block [symmetric] by simp

lemma restore_run:
  fixes tr s
  defines "ad \<equiv> \<lambda>i. tr (c_x s 11) (c_x s 10 + slot i)"
  shows "c_x (run_code tr restore s) r = (if r \<in> set gp_saved \<or> r = 2 then c_pm s (ad r) else c_x s r)"
    "c_pc (run_code tr restore s) = c_pm s (ad 33)" "c_user (run_code tr restore s) = (\<not> bit (c_pm s (ad 32)) 8)"
    "c_csr (run_code tr restore s) = (c_csr s)(Satp := c_x s 11, Sscratch := c_x s 10, Sepc := c_pm s (ad 33),
       Sstatus := put_bit 8 False (put_bit 5 True (put_bit 1 (bit (c_pm s (ad 32)) 5) (c_pm s (ad 32)))))"
    "c_pm (run_code tr restore s) = c_pm s"
  by (simp_all add: restore_split set_x_def set_csr_def run_load_gp ad_def Let_def fun_upd_twist)

text \<open>The context as \<open>__alltraps\<close> leaves it.\<close>

definition saved_cx :: "cpu \<Rightarrow> trap_context \<Rightarrow> trap_context" where
  "saved_cx s cx = cx\<lparr>tc_x := map (\<lambda>r. if r = 0 \<or> r = 4 then tc_x cx ! r else unat (c_x s r)) [0..<32],
     tc_sstatus := unat (c_csr (take_trap s) Sstatus), tc_sepc := unat (c_pc s)\<rparr>"

lemma tc_words_nth:
  assumes "length (tc_x cx) = 32"
  shows "i < 32 \<Longrightarrow> tc_words cx ! i = tc_x cx ! i" "tc_words cx ! 32 = tc_sstatus cx" "tc_words cx ! 33 = tc_sepc cx"
    "tc_words cx ! 34 = tc_kernel_satp cx" "tc_words cx ! 35 = tc_kernel_sp cx" "tc_words cx ! 36 = tc_trap_handler cx"
  using assms by (simp_all add: tc_words_def nth_append)

lemma bit_put_bit [simp]: "m < 64 \<Longrightarrow> bit (put_bit n b w) m = (if m = n then b else bit w m)"
  by (auto simp: put_bit_def bit_simps)

lemma take_trap_simps [simp]:
  "c_x (take_trap s) = c_x s" "c_pm (take_trap s) = c_pm s" "c_csr (take_trap s) Satp = c_csr s Satp"
  "c_csr (take_trap s) Sscratch = c_csr s Sscratch" "c_csr (take_trap s) Sepc = c_pc s"
  "bit (c_csr (take_trap s) Sstatus) 8 = (\<not> c_user s)" "bit (c_csr (take_trap s) Sstatus) 5 = bit (c_csr s Sstatus) 1"
  by (simp_all add: take_trap_def Let_def)

lemma alltraps_saves:
  assumes m: "mapped_slots tr (c_csr s Satp) (c_csr s Sscratch) 37"
    and cx: "cx_at tr (c_csr s Satp) (c_csr s Sscratch) s cx"
  shows "cx_at tr (c_csr s Satp) (c_csr s Sscratch) (run_code tr alltraps (take_trap s)) (saved_cx s cx)"
proof -
  have l: "length (tc_x (saved_cx s cx)) = 32" "length (tc_x cx) = 32" using cx by (simp_all add: saved_cx_def cx_at_def)
  have "c_pm (run_code tr alltraps (take_trap s)) (tr (c_csr s Satp) (c_csr s Sscratch + slot i)) = of_nat (tc_words (saved_cx s cx) ! i)"
    if i: "i < 37" for i
  proof -
    consider "i < 32" | "i = 32" | "i = 33" | "i = 34" | "i = 35" | "i = 36" using i by linarith
    then show ?thesis using alltraps_run(1) [of tr "take_trap s" i] m cx i
      by cases (simp_all add: tc_words_nth [OF l(1)] tc_words_nth [OF l(2)] cx_at_def, auto simp: saved_cx_def)
  qed
  then show ?thesis using l(1) by (simp add: cx_at_def)
qed

text \<open>C6: A trap from user mode and the way back. With the trap context of the thread in place,
  \<open>__alltraps\<close> enters the handler on the kernel stack in the kernel address space, with the
  registers of the program, its \<open>pc\<close> and its status in the context. Whenever \<open>__restore\<close> is run later
  with the context the same but for \<open>sepc\<close> and \<open>a0\<close>, the program goes on in user mode at that \<open>sepc\<close>
  with that \<open>a0\<close>, with every other register but \<open>tp\<close>, and the interrupt enable, as they were.\<close>

theorem trap_round_trip:
  assumes "mapped_slots tr (c_csr s Satp) (c_csr s Sscratch) 37" "cx_at tr (c_csr s Satp) (c_csr s Sscratch) s cx" "c_user s"
    "cx_at tr (c_csr s Satp) (c_csr s Sscratch) s2
       ((saved_cx s cx)\<lparr>tc_sepc := pc', tc_x := (tc_x (saved_cx s cx))[10 := result]\<rparr>)"
    "c_x s2 10 = c_csr s Sscratch" "c_x s2 11 = c_csr s Satp"
  defines "s1 \<equiv> run_code tr alltraps (take_trap s)" and "s3 \<equiv> run_code tr restore s2"
  shows "c_pc s1 = of_nat (tc_trap_handler cx) \<and> c_x s1 2 = of_nat (tc_kernel_sp cx) \<and>
      c_csr s1 Satp = of_nat (tc_kernel_satp cx) \<and> cx_at tr (c_csr s Satp) (c_csr s Sscratch) s1 (saved_cx s cx) \<and>
    c_pc s3 = of_nat pc' \<and> c_x s3 10 = of_nat result \<and> c_user s3 \<and> c_csr s3 Satp = c_csr s Satp \<and>
      c_csr s3 Sscratch = c_csr s Sscratch \<and> bit (c_csr s3 Sstatus) 1 = bit (c_csr s Sstatus) 1 \<and>
    (\<forall>r<32. r \<noteq> 0 \<and> r \<noteq> 4 \<and> r \<noteq> 10 \<longrightarrow> c_x s3 r = c_x s r)"
proof -
  let ?cx2 = "(saved_cx s cx)\<lparr>tc_sepc := pc', tc_x := (tc_x (saved_cx s cx))[10 := result]\<rparr>"
  have l: "length (tc_x cx) = 32" "length (tc_x ?cx2) = 32" using assms(2) by (simp_all add: cx_at_def saved_cx_def)
  have w: "c_pm s (tr (c_csr s Satp) (c_csr s Sscratch + slot i)) = of_nat (tc_words cx ! i)" if "i < 37" for i
    using assms(2) that by (simp add: cx_at_def)
  have w2: "c_pm s2 (tr (c_csr s Satp) (c_csr s Sscratch + slot i)) = of_nat (tc_words ?cx2 ! i)" if "i < 37" for i
    using assms(4) that unfolding cx_at_def by blast
  have regs: "c_x s3 r = of_nat (tc_x ?cx2 ! r)" if "r < 32" "r \<noteq> 0" "r \<noteq> 4" for r
    using that w2 [of r] restore_run(1) [of tr s2 r] assms(5,6) tc_words_nth(1) [OF l(2)] by (simp add: s3_def)
  have st: "c_pm s2 (tr (c_csr s Satp) (c_csr s Sscratch + slot 32)) = c_csr (take_trap s) Sstatus"
    using w2 [of 32] tc_words_nth(2) [OF l(2)] by (simp add: saved_cx_def)
  have "c_pc s1 = of_nat (tc_trap_handler cx)" "c_x s1 2 = of_nat (tc_kernel_sp cx)" "c_csr s1 Satp = of_nat (tc_kernel_satp cx)"
    using alltraps_run(2-4) [of tr "take_trap s"] assms(1) by (simp_all add: s1_def w tc_words_nth [OF l(1)])
  moreover have "c_pc s3 = of_nat pc'" using w2 [of 33] tc_words_nth(3) [OF l(2)] by (simp add: s3_def restore_run assms(5,6))
  moreover have "c_user s3" "c_csr s3 Satp = c_csr s Satp" "c_csr s3 Sscratch = c_csr s Sscratch"
    "bit (c_csr s3 Sstatus) 1 = bit (c_csr s Sstatus) 1"
    using st assms(3) by (simp_all add: s3_def restore_run assms(5,6))
  moreover have "c_x s3 10 = of_nat result" "\<And>r. r < 32 \<Longrightarrow> r \<noteq> 0 \<Longrightarrow> r \<noteq> 4 \<Longrightarrow> r \<noteq> 10 \<Longrightarrow> c_x s3 r = c_x s r"
    using regs by (simp_all add: saved_cx_def)
  ultimately show ?thesis using alltraps_saves [OF assms(1,2)] by (simp add: s1_def)
qed

text \<open>A program in an address space without translation, stopped with its context in place.\<close>

lemma slot_inj [simp]: "i < 2 ^ 32 \<Longrightarrow> j < 2 ^ 32 \<Longrightarrow> slot i = slot j \<longleftrightarrow> i = j"
proof -
  have u: "unat (slot n) = 8 * n" if "n < 2 ^ 32" for n
  proof -
    have "slot n = of_nat (8 * n)" by (simp add: slot_def)
    then show ?thesis using that by (simp only: unat_of_nat) simp
  qed
  assume b: "i < 2 ^ 32" "j < 2 ^ 32"
  have "slot i = slot j \<Longrightarrow> 8 * i = 8 * j" by (simp only: u [OF b(1), symmetric] u [OF b(2), symmetric])
  then show ?thesis by (metis mult_cancel1 zero_neq_numeral)
qed

definition flat_mmu :: mmu where
  "flat_mmu = (\<lambda>satp va. va)"

definition sample_cx :: trap_context where
  "sample_cx = \<lparr>tc_x = replicate 32 0, tc_sstatus = 0, tc_sepc = 0, tc_kernel_satp = 0, tc_kernel_sp = 0, tc_trap_handler = 5\<rparr>"

definition sample_cpu :: cpu where
  "sample_cpu = \<lparr>c_pc = 0x10000, c_x = \<lambda>r. of_nat (100 + r),
     c_csr = (\<lambda>_. 0)(Sscratch := 0x1000, Satp := 1, Sstatus := 2), c_user = True,
     c_pm = (\<lambda>_. 0)(0x1000 + slot 36 := 5)\<rparr>"

lemma flat_mapped: "n \<le> 2 ^ 32 \<Longrightarrow> mapped_slots flat_mmu satp va n"
  by (auto simp: mapped_slots_def flat_mmu_def inj_on_def)

lemma sample_cx_at: "cx_at flat_mmu 1 0x1000 sample_cpu sample_cx"
proof -
  have "tc_words sample_cx ! i = (if i = 36 then 5 else 0)" if "i < 37" for i
    using that by (auto simp: tc_words_def sample_cx_def nth_append nth_Cons split: nat.splits)
  then show ?thesis by (simp add: cx_at_def sample_cx_def [symmetric])
      (auto simp: sample_cx_def sample_cpu_def flat_mmu_def)
qed

theorem trap_round_trip_witness:
  "\<exists>s2. c_pc (run_code flat_mmu alltraps (take_trap sample_cpu)) = 5 \<and> c_pc (run_code flat_mmu restore s2) = 0x10000 \<and>
     c_x (run_code flat_mmu restore s2) 17 = 117 \<and> c_user (run_code flat_mmu restore s2)"
proof -
  let ?s1 = "run_code flat_mmu alltraps (take_trap sample_cpu)"
  let ?s2 = "?s1\<lparr>c_x := (c_x ?s1)(10 := 0x1000, 11 := 1)\<rparr>"
  have sel: "c_csr sample_cpu Satp = 1" "c_csr sample_cpu Sscratch = 0x1000" "c_user sample_cpu" "c_pc sample_cpu = 0x10000"
    "c_x sample_cpu 17 = 117" "tc_trap_handler sample_cx = 5"
    by (simp_all add: sample_cpu_def sample_cx_def)
  have "(tc_x (saved_cx sample_cpu sample_cx))[10 := 110] = tc_x (saved_cx sample_cpu sample_cx)"
    by (rule list_update_same_conv [THEN iffD2]) (simp_all add: saved_cx_def sample_cpu_def)
  then have eq: "(saved_cx sample_cpu sample_cx)\<lparr>tc_sepc := 0x10000, tc_x := (tc_x (saved_cx sample_cpu sample_cx))[10 := 110]\<rparr> =
      saved_cx sample_cpu sample_cx"
    by (simp add: saved_cx_def sample_cpu_def)
  have "cx_at flat_mmu 1 0x1000 ?s1 (saved_cx sample_cpu sample_cx)"
    using alltraps_saves [of flat_mmu sample_cpu sample_cx] sample_cx_at by (simp add: sel flat_mapped)
  then have "cx_at flat_mmu (c_csr sample_cpu Satp) (c_csr sample_cpu Sscratch) ?s2
      ((saved_cx sample_cpu sample_cx)\<lparr>tc_sepc := 0x10000, tc_x := (tc_x (saved_cx sample_cpu sample_cx))[10 := 110]\<rparr>)"
    unfolding eq sel by (simp add: cx_at_def)
  note later = this
  have "cx_at flat_mmu (c_csr sample_cpu Satp) (c_csr sample_cpu Sscratch) sample_cpu sample_cx"
    unfolding sel by (rule sample_cx_at)
  from trap_round_trip [OF flat_mapped this sel(3) later] show ?thesis by (intro exI [of _ ?s2]) (simp add: sel)
qed

section \<open>Traps from the kernel\<close>

lemma alltraps_k_split: "alltraps_k ret_va = ADDI 2 2 (- slot 34) # map (\<lambda>n. SD n (slot n) 2) gp_saved @
    [CSRR 5 Sstatus, CSRR 6 Sepc, SD 5 (slot 32) 2, SD 6 (slot 33) 2, MV 10 2, CSRR 7 Sscratch, JALR 7 ret_va]"
  unfolding alltraps_k_def save_gp_block [symmetric] by simp

lemma restore_k_split: "restore_k = [LD 5 (slot 32) 2, LD 6 (slot 33) 2, CSRW Sstatus 5, CSRW Sepc 6] @
    map (\<lambda>n. LD n (slot n) 2) gp_saved @ [ADDI 2 2 (slot 34), SRET]"
  unfolding restore_k_def load_gp_block [symmetric] by simp

lemma alltraps_k_run:
  fixes tr s
  defines "ad \<equiv> \<lambda>i. tr (c_csr s Satp) (c_x s 2 - slot 34 + slot i)"
  assumes m: "mapped_slots tr (c_csr s Satp) (c_x s 2 - slot 34) 34"
  shows "i < 34 \<Longrightarrow> c_pm (run_code tr (alltraps_k ret_va) s) (ad i) =
      (if i = 32 then c_csr s Sstatus else if i = 33 then c_csr s Sepc else if i = 0 \<or> i = 2 \<or> i = 4 then c_pm s (ad i) else c_x s i)"
      (is "_ \<Longrightarrow> ?mem")
    and "c_pc (run_code tr (alltraps_k ret_va) s) = c_csr s Sscratch" "c_x (run_code tr (alltraps_k ret_va) s) 2 = c_x s 2 - slot 34"
      "c_x (run_code tr (alltraps_k ret_va) s) 1 = ret_va" "c_csr (run_code tr (alltraps_k ret_va) s) = c_csr s"
proof -
  define s0 where "s0 = exec1 tr (ADDI 2 2 (- slot 34)) s"
  have s0: "c_csr s0 = c_csr s" "c_x s0 = (c_x s)(2 := c_x s 2 - slot 34)" "c_pm s0 = c_pm s"
    by (simp_all add: s0_def set_x_def)
  obtain M where M: "run_code tr (map (\<lambda>n. SD n (slot n) 2) gp_saved) s0 = s0\<lparr>c_pm := M\<rparr>" using run_save_gp_frame by blast
  have at: "M (ad j) = (if j \<in> set gp_saved then c_x s j else c_pm s (ad j))" if "j < 34" for j
    using run_save_gp [of tr s0 34 j] m M that by (auto simp: s0 ad_def)
  have ne: "(ad j = ad k) = (j = k)" if "j < 34" "k < 34" for j k
    unfolding ad_def by (rule mapped_slotsD [OF m that])
  have all: "run_code tr (alltraps_k ret_va) s = run_code tr
    [CSRR 5 Sstatus, CSRR 6 Sepc, SD 5 (slot 32) 2, SD 6 (slot 33) 2, MV 10 2, CSRR 7 Sscratch, JALR 7 ret_va] (s0\<lparr>c_pm := M\<rparr>)"
    by (simp only: alltraps_k_split run_code_simps M s0_def [symmetric])
  have ad: "tr (c_csr s Satp) (c_x s 2 - slot 34 + slot j) = ad j" for j by (simp add: ad_def)
  note run = all set_x_def set_csr_def s0 ad at ne
  show "c_pc (run_code tr (alltraps_k ret_va) s) = c_csr s Sscratch" "c_x (run_code tr (alltraps_k ret_va) s) 2 = c_x s 2 - slot 34"
    "c_x (run_code tr (alltraps_k ret_va) s) 1 = ret_va" "c_csr (run_code tr (alltraps_k ret_va) s) = c_csr s"
    by (simp_all add: run)
  show ?mem if "i < 34" using that by (auto simp: run)
qed

lemma restore_k_run:
  fixes tr s
  defines "ad \<equiv> \<lambda>i. tr (c_csr s Satp) (c_x s 2 + slot i)"
  shows "c_x (run_code tr restore_k s) r = (if r \<in> set gp_saved then c_pm s (ad r) else if r = 2 then c_x s 2 + slot 34 else c_x s r)"
    "c_pc (run_code tr restore_k s) = c_pm s (ad 33)" "c_user (run_code tr restore_k s) = (\<not> bit (c_pm s (ad 32)) 8)"
    "c_csr (run_code tr restore_k s) Sstatus = put_bit 8 False (put_bit 5 True (put_bit 1 (bit (c_pm s (ad 32)) 5) (c_pm s (ad 32))))"
  by (simp_all add: restore_k_split set_x_def set_csr_def run_load_gp ad_def Let_def)

text \<open>An interrupt in the kernel: \<open>__alltraps_k\<close> calls the handler in \<open>sscratch\<close> on the stack of the
  interrupted code, and when the handler comes back with its stack pointer and frame as they were,
  \<open>__restore_k\<close> goes on with every register but \<open>tp\<close> as it was.\<close>

theorem kernel_trap_round_trip:
  assumes m: "mapped_slots tr (c_csr s Satp) (c_x s 2 - slot 34) 34" and "\<not> c_user s"
    and ret: "c_x s2 2 = c_x s 2 - slot 34" "c_csr s2 Satp = c_csr s Satp"
      "\<And>i. i < 34 \<Longrightarrow> c_pm s2 (tr (c_csr s Satp) (c_x s 2 - slot 34 + slot i)) =
        c_pm (run_code tr (alltraps_k ret_va) (take_trap s)) (tr (c_csr s Satp) (c_x s 2 - slot 34 + slot i))"
  shows "c_pc (run_code tr (alltraps_k ret_va) (take_trap s)) = c_csr s Sscratch"
    "c_x (run_code tr (alltraps_k ret_va) (take_trap s)) 1 = ret_va"
    "c_pc (run_code tr restore_k s2) = c_pc s" "\<not> c_user (run_code tr restore_k s2)"
    "bit (c_csr (run_code tr restore_k s2) Sstatus) 1 = bit (c_csr s Sstatus) 1"
    "r < 32 \<Longrightarrow> r \<noteq> 0 \<Longrightarrow> r \<noteq> 4 \<Longrightarrow> c_x (run_code tr restore_k s2) r = c_x s r"
proof -
  note run = alltraps_k_run [of tr "take_trap s", simplified, OF m]
  have w: "c_pm s2 (tr (c_csr s Satp) (c_x s 2 - slot 34 + slot i)) =
      (if i = 32 then c_csr (take_trap s) Sstatus else if i = 33 then c_pc s else if i = 0 \<or> i = 2 \<or> i = 4
       then c_pm s (tr (c_csr s Satp) (c_x s 2 - slot 34 + slot i)) else c_x s i)" if "i < 34" for i
    using run(1) [OF that] ret(3) [OF that] by simp
  show "c_pc (run_code tr (alltraps_k ret_va) (take_trap s)) = c_csr s Sscratch"
    "c_x (run_code tr (alltraps_k ret_va) (take_trap s)) 1 = ret_va" using run(2,4) by simp_all
  show "c_pc (run_code tr restore_k s2) = c_pc s" "\<not> c_user (run_code tr restore_k s2)"
    "bit (c_csr (run_code tr restore_k s2) Sstatus) 1 = bit (c_csr s Sstatus) 1"
    using assms(2) by (simp_all add: restore_k_run ret(1,2) w)
  show "c_x (run_code tr restore_k s2) r = c_x s r" if "r < 32" "r \<noteq> 0" "r \<noteq> 4"
    using that by (auto simp: restore_k_run ret(1,2) w)
qed

section \<open>The context switch\<close>

definition tcx_words :: "task_context \<Rightarrow> nat list" where
  "tcx_words cx = [cx_ra cx, cx_sp cx] @ cx_s cx"

definition tcx_at :: "mmu \<Rightarrow> u64 \<Rightarrow> u64 \<Rightarrow> cpu \<Rightarrow> task_context \<Rightarrow> bool" where
  "tcx_at tr satp va s cx \<longleftrightarrow> length (cx_s cx) = 12 \<and>
     (\<forall>i<14. c_pm s (tr satp (va + slot i)) = of_nat (tcx_words cx ! i))"

definition tcx_of :: "cpu \<Rightarrow> task_context" where
  "tcx_of s = \<lparr>cx_ra = unat (c_x s 1), cx_sp = unat (c_x s 2), cx_s = map (\<lambda>n. unat (c_x s (sreg n))) [0..<12]\<rparr>"

text \<open>The register kept in double word \<open>i\<close> of a context.\<close>

definition kept :: "nat \<Rightarrow> nat" where
  "kept i = (if i = 0 then 1 else if i = 1 then 2 else sreg (i - 2))"

lemma kept_inj: "inj_on kept {..<14}" "kept i \<noteq> 0" "kept i \<noteq> 11"
  by (auto simp: inj_on_def kept_def sreg_def split: if_splits)

lemma upt_12: "[0..<12] = [0, 1, 2, 3, 4, 5, 6, 7, 8, 9, 10, 11 :: nat]"
  by (simp add: upt_rec)

lemma switch_split: "switch = map (\<lambda>i. SD (kept i) (slot i) 10) (1 # 0 # [2..<14]) @
    map (\<lambda>i. LD (kept i) (slot i) 11) (0 # [2..<14] @ [1]) @ [JR 1]"
  by (simp add: switch_def SAVE_SN_def LOAD_SN_def kept_def upt_12)

lemma switch_slots: "set (1 # 0 # [2..<14]) = {..<14}" "set (0 # [2..<14] @ [1]) = {..<14::nat}"
  unfolding list.set set_append set_upt by auto

definition apart :: "mmu \<Rightarrow> u64 \<Rightarrow> u64 \<Rightarrow> u64 \<Rightarrow> bool" where
  "apart tr satp va wa \<longleftrightarrow> (\<forall>i<14. \<forall>j<14. tr satp (va + slot i) \<noteq> tr satp (wa + slot j))"

lemma switch_run:
  fixes tr s
  defines "cur \<equiv> \<lambda>i. tr (c_csr s Satp) (c_x s 10 + slot i)" and "nxt \<equiv> \<lambda>i. tr (c_csr s Satp) (c_x s 11 + slot i)"
  assumes m: "mapped_slots tr (c_csr s Satp) (c_x s 10) 14" and d: "apart tr (c_csr s Satp) (c_x s 10) (c_x s 11)"
  shows "i < 14 \<Longrightarrow> c_pm (run_code tr switch s) (cur i) = c_x s (kept i)"
    "i < 14 \<Longrightarrow> c_x (run_code tr switch s) (kept i) = c_pm s (nxt i)"
    "c_pc (run_code tr switch s) = c_pm s (nxt 0)"
proof -
  define M where "M = store_all cur (\<lambda>i. c_x s (kept i)) (1 # 0 # [2..<14]) (c_pm s)"
  have cur: "M (cur i) = c_x s (kept i)" if "i < 14" for i
  proof -
    have "insert i (set (1 # 0 # [2..<14])) \<subseteq> {..<14}" using that unfolding switch_slots by auto
    then have "inj_on cur (insert i (set (1 # 0 # [2..<14])))"
      using m inj_on_subset unfolding mapped_slots_def cur_def by blast
    then show ?thesis using store_all_at [of cur i "1 # 0 # [2..<14]" "\<lambda>i. c_x s (kept i)" "c_pm s"] that
      unfolding M_def switch_slots by simp
  qed
  have "cur n \<noteq> nxt i" if "n < 14" "i < 14" for n i using d that unfolding apart_def cur_def nxt_def by blast
  then have nxt: "M (nxt i) = c_pm s (nxt i)" if "i < 14" for i unfolding M_def
    using that switch_slots(1) by (intro store_all_other) (metis lessThan_iff)
  have inv: "the_inv_into {..<14} kept (kept i) = i" if "i < 14" for i
    using that kept_inj(1) by (intro the_inv_into_f_f) auto
  have "11 \<notin> kept ` {..<14}" "0 \<notin> kept ` {..<14}" using kept_inj(2,3) by (metis imageE)+
  note loads = run_loads [where g=kept and b=11 and ns="0 # [2..<14] @ [1]", unfolded switch_slots(2), OF this kept_inj(1)]
  have saves: "run_code tr (map (\<lambda>i. SD (kept i) (slot i) 10) (1 # 0 # [2..<14])) s = s\<lparr>c_pm := M\<rparr>"
    unfolding run_saves M_def cur_def ..
  have all: "run_code tr switch s = exec1 tr (JR 1) (s\<lparr>c_pm := M, c_x := \<lambda>r. if r \<in> kept ` {..<14}
      then M (nxt (the_inv_into {..<14} kept r)) else c_x s r\<rparr>)"
    unfolding switch_split run_code_simps(3) saves loads nxt_def by (simp cong: if_cong)
  show "c_pm (run_code tr switch s) (cur i) = c_x s (kept i)" if "i < 14" using cur [OF that] by (simp add: all)
  show x: "c_x (run_code tr switch s) (kept i) = c_pm s (nxt i)" if "i < 14" for i using nxt inv that by (simp add: all)
  have "kept 0 = 1" by (simp add: kept_def)
  then show "c_pc (run_code tr switch s) = c_pm s (nxt 0)" using x [of 0] by (simp add: all)
qed

lemma tcx_of_words: "i < 14 \<Longrightarrow> of_nat (tcx_words (tcx_of s) ! i) = c_x s (kept i)"
  by (auto simp: tcx_words_def tcx_of_def kept_def nth_Cons' nth_append numeral_2_eq_2)

lemma switch_saves:
  assumes "mapped_slots tr (c_csr s Satp) (c_x s 10) 14" "apart tr (c_csr s Satp) (c_x s 10) (c_x s 11)"
  shows "tcx_at tr (c_csr s Satp) (c_x s 10) (run_code tr switch s) (tcx_of s)"
  using switch_run(1) [OF assms] by (simp add: tcx_at_def tcx_of_words) (simp add: tcx_of_def)

lemma switch_loads:
  assumes "mapped_slots tr (c_csr s Satp) (c_x s 10) 14" "apart tr (c_csr s Satp) (c_x s 10) (c_x s 11)"
    "tcx_at tr (c_csr s Satp) (c_x s 11) s cx"
  shows "c_pc (run_code tr switch s) = of_nat (cx_ra cx)" "c_x (run_code tr switch s) 2 = of_nat (cx_sp cx)"
    "n < 12 \<Longrightarrow> c_x (run_code tr switch s) (sreg n) = of_nat (cx_s cx ! n)"
proof -
  have w: "c_x (run_code tr switch s) (kept i) = of_nat (tcx_words cx ! i)" if "i < 14" for i
    using switch_run(2) [OF assms(1,2) that] assms(3) that by (simp add: tcx_at_def)
  show "c_pc (run_code tr switch s) = of_nat (cx_ra cx)"
    using switch_run(3) [OF assms(1,2)] assms(3) by (simp add: tcx_at_def tcx_words_def)
  show "c_x (run_code tr switch s) 2 = of_nat (cx_sp cx)" using w [of 1] by (simp add: kept_def tcx_words_def)
  show "c_x (run_code tr switch s) (sreg n) = of_nat (cx_s cx ! n)" if "n < 12"
    using w [of "n + 2"] that by (simp add: kept_def tcx_words_def)
qed

text \<open>C11: The context switch. \<open>__switch\<close> leaves the return address, the stack pointer and \<open>s0\<close> to
  \<open>s11\<close> of the caller in its task context and goes on with those of the next context. Whenever
  another call later switches to the saved context, the first caller goes on behind its call with its
  stack and its callee-saved registers as they were.\<close>

theorem switch_round_trip:
  assumes "mapped_slots tr (c_csr s Satp) (c_x s 10) 14" "apart tr (c_csr s Satp) (c_x s 10) (c_x s 11)"
    "tcx_at tr (c_csr s Satp) (c_x s 11) s nxt"
    "tcx_at tr (c_csr s Satp) (c_x s 10) s2 (tcx_of s)" "c_x s2 11 = c_x s 10" "c_csr s2 Satp = c_csr s Satp"
    "mapped_slots tr (c_csr s2 Satp) (c_x s2 10) 14" "apart tr (c_csr s2 Satp) (c_x s2 10) (c_x s2 11)"
  shows "tcx_at tr (c_csr s Satp) (c_x s 10) (run_code tr switch s) (tcx_of s) \<and>
    c_pc (run_code tr switch s) = of_nat (cx_ra nxt) \<and> c_x (run_code tr switch s) 2 = of_nat (cx_sp nxt) \<and>
    (\<forall>n<12. c_x (run_code tr switch s) (sreg n) = of_nat (cx_s nxt ! n)) \<and>
    c_pc (run_code tr switch s2) = c_x s 1 \<and> c_x (run_code tr switch s2) 2 = c_x s 2 \<and>
    (\<forall>n<12. c_x (run_code tr switch s2) (sreg n) = c_x s (sreg n))"
proof -
  have "tcx_at tr (c_csr s2 Satp) (c_x s2 11) s2 (tcx_of s)" using assms(4-6) by simp
  note again = switch_loads [OF assms(7,8) this]
  have "c_pc (run_code tr switch s2) = c_x s 1" "c_x (run_code tr switch s2) 2 = c_x s 2"
    "\<forall>n<12. c_x (run_code tr switch s2) (sreg n) = c_x s (sreg n)" using again by (simp_all add: tcx_of_def)
  then show ?thesis using switch_saves [OF assms(1,2)] switch_loads [OF assms(1-3)] by simp
qed

text \<open>Two threads in a flat address space with their contexts at \<open>0x1000\<close> and \<open>0x2000\<close>.\<close>

definition sample_caller :: cpu where
  "sample_caller = \<lparr>c_pc = 0x8000, c_x = (\<lambda>r. of_nat (100 + r))(10 := 0x1000, 11 := 0x2000),
     c_csr = \<lambda>_. 0, c_user = False, c_pm = \<lambda>_. 0\<rparr>"

lemma flat_apart: "apart flat_mmu satp 0x1000 0x2000" "apart flat_mmu satp 0x2000 0x1000"
proof -
  have "0x1000 + slot i \<noteq> 0x2000 + slot j" if "i < 14" "j < 14" for i j
  proof -
    have "0x1000 + slot i = of_nat (0x1000 + 8 * i)" "0x2000 + slot j = of_nat (0x2000 + 8 * j)" by (simp_all add: slot_def)
    then show ?thesis using that by (simp only: word_of_nat_eq_iff) (simp add: take_bit_nat_eq_self)
  qed
  then show "apart flat_mmu satp 0x1000 0x2000" "apart flat_mmu satp 0x2000 0x1000"
    unfolding apart_def flat_mmu_def by metis+
qed

theorem switch_round_trip_witness:
  "\<exists>s2. c_pc (run_code flat_mmu switch sample_caller) = 0 \<and> c_pc (run_code flat_mmu switch s2) = 101 \<and>
     c_x (run_code flat_mmu switch s2) 2 = 102 \<and> c_x (run_code flat_mmu switch s2) (sreg 3) = 119"
proof -
  let ?s1 = "run_code flat_mmu switch sample_caller"
  let ?s2 = "?s1\<lparr>c_x := (c_x ?s1)(10 := 0x2000, 11 := 0x1000), c_csr := \<lambda>_. 0\<rparr>"
  have sel: "c_x sample_caller 10 = 0x1000" "c_x sample_caller 11 = 0x2000" "c_csr sample_caller Satp = 0"
    "c_x sample_caller 1 = 101" "c_x sample_caller 2 = 102" "c_x sample_caller (sreg 3) = 119"
    by (simp_all add: sample_caller_def sreg_def)
  have z: "tcx_words zero_init ! i = 0" if "i < 14" for i
    using that by (auto simp: tcx_words_def zero_init_def nth_Cons' nth_append)
  have n: "tcx_at flat_mmu (c_csr sample_caller Satp) (c_x sample_caller 11) sample_caller zero_init"
    by (simp add: tcx_at_def z) (simp add: zero_init_def sample_caller_def)
  have m: "mapped_slots flat_mmu satp va 14" for satp va by (rule flat_mapped) simp
  have a: "apart flat_mmu (c_csr sample_caller Satp) (c_x sample_caller 10) (c_x sample_caller 11)"
    unfolding sel by (rule flat_apart)
  have s: "tcx_at flat_mmu (c_csr sample_caller Satp) (c_x sample_caller 10) ?s2 (tcx_of sample_caller)"
    using switch_saves [OF m a] by (simp add: tcx_at_def)
  have a2: "apart flat_mmu (c_csr ?s2 Satp) (c_x ?s2 10) (c_x ?s2 11)" using flat_apart(2) by simp
  from switch_round_trip [OF m a n s _ _ m a2] show ?thesis by (intro exI [of _ ?s2]) (simp add: sel sel(4) [simplified] zero_init_def)
qed

end
