(* ===== verification/Drivers.thy ===== *)
theory Drivers
  imports Dispatch
begin

text \<open>
  Device drivers: the interrupt controller (\<open>kernel/src/drivers/plic.rs\<close>), the board
  (\<open>kernel/src/boards/qemu.rs\<close>), the serial port (\<open>kernel/src/drivers/chardev/ns16550a.rs\<close>),
  keyboard and mouse (\<open>kernel/src/drivers/input/mod.rs\<close>), the block device
  (\<open>kernel/src/drivers/block/virtio_blk.rs\<close>) and the memory of the virtio queues
  (\<open>kernel/src/drivers/bus/virtio.rs\<close>). The devices themselves, and the crate \<open>virtio_drivers\<close> that
  talks to them, are arguments: functions on a device state of any type. The registers of the
  interrupt controller are a map from addresses to 32-bit values.
\<close>

unbundle bit_operations_syntax

section \<open>The interrupt controller\<close>

type_synonym mmio = "nat \<Rightarrow> 32 word"

datatype intr_target_priority = Machine | Supervisor

definition priority_num :: "intr_target_priority \<Rightarrow> nat" where
  "priority_num tp = (case tp of Machine \<Rightarrow> 0 | Supervisor \<Rightarrow> 1)"

definition supported_number :: nat where "supported_number = 2"

definition priority_ptr :: "nat \<Rightarrow> nat \<Rightarrow> nat option" where
  "priority_ptr base_addr intr_source_id = do {
     assert_opt (intr_source_id > 0 \<and> intr_source_id \<le> 132);
     Some (base_addr + intr_source_id * 4)
   }"

definition hart_id_with_priority :: "nat \<Rightarrow> intr_target_priority \<Rightarrow> nat" where
  "hart_id_with_priority hart_id tp = hart_id * supported_number + priority_num tp"

definition enable_ptr :: "nat \<Rightarrow> nat \<Rightarrow> intr_target_priority \<Rightarrow> nat \<Rightarrow> nat \<times> nat" where
  "enable_ptr base_addr hart_id tp intr_source_id = (
     let ctx = hart_id_with_priority hart_id tp;
         (reg_id, reg_shift) = (intr_source_id div 32, intr_source_id mod 32)
     in (base_addr + 0x2000 + 0x80 * ctx + 0x4 * reg_id, reg_shift))"

definition threshold_ptr :: "nat \<Rightarrow> nat \<Rightarrow> intr_target_priority \<Rightarrow> nat" where
  "threshold_ptr base_addr hart_id tp = base_addr + 0x200000 + 0x1000 * hart_id_with_priority hart_id tp"

definition claim_comp_ptr :: "nat \<Rightarrow> nat \<Rightarrow> intr_target_priority \<Rightarrow> nat" where
  "claim_comp_ptr base_addr hart_id tp = base_addr + 0x200004 + 0x1000 * hart_id_with_priority hart_id tp"

definition set_priority :: "nat \<Rightarrow> nat \<Rightarrow> nat \<Rightarrow> mmio \<Rightarrow> mmio option" where
  "set_priority base_addr intr_source_id prio m = do {
     assert_opt (prio < 8);
     ptr \<leftarrow> priority_ptr base_addr intr_source_id;
     Some (m(ptr := of_nat prio))
   }"

definition priority :: "nat \<Rightarrow> nat \<Rightarrow> mmio \<Rightarrow> 32 word option" where
  "priority base_addr intr_source_id m = do { ptr \<leftarrow> priority_ptr base_addr intr_source_id; Some (m ptr AND 7) }"

definition enable :: "nat \<Rightarrow> nat \<Rightarrow> intr_target_priority \<Rightarrow> nat \<Rightarrow> mmio \<Rightarrow> mmio" where
  "enable base_addr hart_id tp intr_source_id m = (case enable_ptr base_addr hart_id tp intr_source_id of (reg_ptr, shift) \<Rightarrow>
     m(reg_ptr := m reg_ptr OR push_bit shift 1))"

definition disable :: "nat \<Rightarrow> nat \<Rightarrow> intr_target_priority \<Rightarrow> nat \<Rightarrow> mmio \<Rightarrow> mmio" where
  "disable base_addr hart_id tp intr_source_id m = (case enable_ptr base_addr hart_id tp intr_source_id of (reg_ptr, shift) \<Rightarrow>
     m(reg_ptr := m reg_ptr AND NOT (push_bit shift 1)))"

definition set_threshold :: "nat \<Rightarrow> nat \<Rightarrow> intr_target_priority \<Rightarrow> nat \<Rightarrow> mmio \<Rightarrow> mmio option" where
  "set_threshold base_addr hart_id tp threshold m = do {
     assert_opt (threshold < 8);
     Some (m(threshold_ptr base_addr hart_id tp := of_nat threshold))
   }"

definition threshold :: "nat \<Rightarrow> nat \<Rightarrow> intr_target_priority \<Rightarrow> mmio \<Rightarrow> 32 word" where
  "threshold base_addr hart_id tp m = m (threshold_ptr base_addr hart_id tp) AND 7"

definition plic_claim :: "nat \<Rightarrow> nat \<Rightarrow> intr_target_priority \<Rightarrow> mmio \<Rightarrow> 32 word" where
  "plic_claim base_addr hart_id tp m = m (claim_comp_ptr base_addr hart_id tp)"

definition plic_complete :: "nat \<Rightarrow> nat \<Rightarrow> intr_target_priority \<Rightarrow> 32 word \<Rightarrow> mmio \<Rightarrow> mmio" where
  "plic_complete base_addr hart_id tp completion m = m(claim_comp_ptr base_addr hart_id tp := completion)"

section \<open>The board\<close>

definition VIRT_PLIC :: nat where "VIRT_PLIC = 0x0C000000"
definition VIRT_UART :: nat where "VIRT_UART = 0x10000000"

definition MMIO :: "(nat \<times> nat) list" where
  "MMIO = [(0x00100000, 0x000200), (0x0C000000, 0x210000), (0x10000000, 0x009000)]"

definition board_init :: "mmio \<Rightarrow> mmio option" where
  "board_init m = do {
     m1 \<leftarrow> set_threshold VIRT_PLIC 0 Supervisor 0 m;
     m2 \<leftarrow> set_threshold VIRT_PLIC 0 Machine 1 m1;
     fold_opt (\<lambda>intr_src_id m. set_priority VIRT_PLIC intr_src_id 1 (enable VIRT_PLIC 0 Supervisor intr_src_id m)) [5, 6, 8, 10] m2
   }"

section \<open>The serial port\<close>

definition RX_AVAILABLE :: u8 where "RX_AVAILABLE = push_bit 0 1"
definition DATA_AVAILABLE :: u8 where "DATA_AVAILABLE = push_bit 0 1"
definition THR_EMPTY :: u8 where "THR_EMPTY = push_bit 5 1"
definition DATA_TERMINAL_READY :: u8 where "DATA_TERMINAL_READY = push_bit 0 1"
definition REQUEST_TO_SEND :: u8 where "REQUEST_TO_SEND = push_bit 1 1"
definition AUX_OUTPUT2 :: u8 where "AUX_OUTPUT2 = push_bit 3 1"

record read_without_dlab =
  rd_rbr :: nat
  rd_ier :: nat
  rd_iir :: nat
  rd_lcr :: nat
  rd_mcr :: nat
  rd_lsr :: nat

record write_without_dlab =
  wr_thr :: nat
  wr_ier :: nat
  wr_lcr :: nat
  wr_mcr :: nat
  wr_lsr :: nat

record ns16550a_raw =
  read_end :: read_without_dlab
  write_end :: write_without_dlab

text \<open>\<open>NonNull::new(..).expect(..)\<close> on every register address; addition wraps.\<close>

definition reg_addr :: "nat \<Rightarrow> nat \<Rightarrow> nat option" where
  "reg_addr base_addr n = (let a = (base_addr + n) mod 2 ^ 64 in if a = 0 then None else Some a)"

definition raw_new :: "nat \<Rightarrow> ns16550a_raw option" where
  "raw_new base_addr = do {
     a0 \<leftarrow> reg_addr base_addr 0; a1 \<leftarrow> reg_addr base_addr 1; a2 \<leftarrow> reg_addr base_addr 2; a3 \<leftarrow> reg_addr base_addr 3;
     a4 \<leftarrow> reg_addr base_addr 4; a5 \<leftarrow> reg_addr base_addr 5; a6 \<leftarrow> reg_addr base_addr 6; a7 \<leftarrow> reg_addr base_addr 7;
     Some \<lparr>read_end = \<lparr>rd_rbr = a0, rd_ier = a1, rd_iir = a2, rd_lcr = a3, rd_mcr = a4, rd_lsr = a5\<rparr>,
       write_end = \<lparr>wr_thr = a0, wr_ier = a1, wr_lcr = a3, wr_mcr = a4, wr_lsr = a5\<rparr>\<rparr>
   }"

text \<open>A volatile read gives a byte and may change the device; so does a write.\<close>

type_synonym 'd reg_read = "nat \<Rightarrow> 'd \<Rightarrow> u8 \<times> 'd"
type_synonym 'd reg_write = "nat \<Rightarrow> u8 \<Rightarrow> 'd \<Rightarrow> 'd"

definition contains_flag :: "u8 \<Rightarrow> u8 \<Rightarrow> bool" where
  "contains_flag x f \<longleftrightarrow> x AND f = f"

definition raw_init :: "'d reg_write \<Rightarrow> ns16550a_raw \<Rightarrow> 'd \<Rightarrow> 'd" where
  "raw_init wr raw d = wr (rd_ier (read_end raw)) RX_AVAILABLE
     (wr (rd_mcr (read_end raw)) (DATA_TERMINAL_READY OR REQUEST_TO_SEND OR AUX_OUTPUT2) d)"

definition raw_read :: "'d reg_read \<Rightarrow> ns16550a_raw \<Rightarrow> 'd \<Rightarrow> u8 option \<times> 'd" where
  "raw_read rd raw d = (case rd (rd_lsr (read_end raw)) d of (lsr, d1) \<Rightarrow>
     if contains_flag lsr DATA_AVAILABLE
     then (case rd (rd_rbr (read_end raw)) d1 of (ch, d2) \<Rightarrow> (Some ch, d2))
     else (None, d1))"

partial_function (option) raw_write :: "'d reg_read \<Rightarrow> 'd reg_write \<Rightarrow> ns16550a_raw \<Rightarrow> u8 \<Rightarrow> 'd \<Rightarrow> 'd option" where
  "raw_write rd wr raw ch d = (case rd (wr_lsr (write_end raw)) d of (lsr, d1) \<Rightarrow>
     if contains_flag lsr THR_EMPTY then Some (wr (wr_thr (write_end raw)) ch d1)
     else raw_write rd wr raw ch d1)"

record 'd ns16550a =
  u_raw :: ns16550a_raw
  u_dev :: 'd
  read_buffer :: "u8 list"
  u_condvar :: condvar

definition uart_new :: "nat \<Rightarrow> 'd \<Rightarrow> 'd ns16550a option" where
  "uart_new base_addr d = do {
     raw \<leftarrow> raw_new base_addr;
     Some \<lparr>u_raw = raw, u_dev = d, read_buffer = [], u_condvar = condvar_new\<rparr>
   }"

definition is_read_buffer_empty :: "'d ns16550a \<Rightarrow> bool" where
  "is_read_buffer_empty u \<longleftrightarrow> read_buffer u = []"

definition uart_init :: "'d reg_write \<Rightarrow> 'd ns16550a \<Rightarrow> 'd ns16550a" where
  "uart_init wr u = u\<lparr>u_dev := raw_init wr (u_raw u) (u_dev u)\<rparr>"

text \<open>One pass of the loop of \<open>read\<close>: a byte, or the caller is parked and tries again when woken.\<close>

definition uart_read :: "'d ns16550a \<Rightarrow> sched \<Rightarrow> (u8 option \<times> 'd ns16550a \<times> sched) option" where
  "uart_read u s = (case read_buffer u of
     ch # rest \<Rightarrow> Some (Some ch, u\<lparr>read_buffer := rest\<rparr>, s)
   | [] \<Rightarrow> do {
       (cv, s') \<leftarrow> wait_no_sched (u_condvar u) s;
       Some (None, u\<lparr>u_condvar := cv\<rparr>, s')
     })"

definition uart_write :: "'d reg_read \<Rightarrow> 'd reg_write \<Rightarrow> u8 \<Rightarrow> 'd ns16550a \<Rightarrow> 'd ns16550a option" where
  "uart_write rd wr ch u = do { d \<leftarrow> raw_write rd wr (u_raw u) ch (u_dev u); Some (u\<lparr>u_dev := d\<rparr>) }"

partial_function (option) uart_drain :: "'d reg_read \<Rightarrow> 'd ns16550a \<Rightarrow> nat \<Rightarrow> (nat \<times> 'd ns16550a) option" where
  "uart_drain rd u n = (case raw_read rd (u_raw u) (u_dev u) of
     (None, d) \<Rightarrow> Some (n, u\<lparr>u_dev := d\<rparr>)
   | (Some ch, d) \<Rightarrow> uart_drain rd (u\<lparr>u_dev := d, read_buffer := read_buffer u @ [ch]\<rparr>) (n + 1))"

text \<open>The counters of the handlers are \<open>i32\<close>.\<close>

definition positive_i32 :: "nat \<Rightarrow> bool" where
  "positive_i32 n \<longleftrightarrow> 0 < sint (of_nat n :: 32 word)"

definition uart_handle_irq :: "'d reg_read \<Rightarrow> 'd ns16550a \<Rightarrow> sched \<Rightarrow> ('d ns16550a \<times> sched) option" where
  "uart_handle_irq rd u s = do {
     (n, u') \<leftarrow> uart_drain rd u 0;
     Some (if positive_i32 n
       then (case condvar_signal (u_condvar u') s of (cv, s') \<Rightarrow> (u'\<lparr>u_condvar := cv\<rparr>, s'))
       else (u', s))
   }"

section \<open>Keyboard and mouse\<close>

record input_event =
  event_type :: nat
  code :: nat
  event_value :: nat

text \<open>\<open>pop_pending_event\<close> of \<open>virtio_drivers\<close> is the argument \<open>pop\<close>.\<close>

record 'd input_wrapper =
  i_dev :: 'd
  events :: "nat list"
  i_condvar :: condvar

definition input_new :: "'d \<Rightarrow> 'd input_wrapper" where
  "input_new d = \<lparr>i_dev = d, events = [], i_condvar = condvar_new\<rparr>"

definition pack_event :: "input_event \<Rightarrow> nat" where
  "pack_event ev = push_bit 48 (event_type ev) OR push_bit 32 (code ev) OR event_value ev"

partial_function (option) input_drain :: "('d \<Rightarrow> (input_event \<times> 'd) option) \<Rightarrow> 'd input_wrapper \<Rightarrow> nat \<Rightarrow> (nat \<times> 'd input_wrapper) option" where
  "input_drain pop i n = (case pop (i_dev i) of
     None \<Rightarrow> Some (n, i)
   | Some (ev, d) \<Rightarrow> input_drain pop (i\<lparr>i_dev := d, events := events i @ [pack_event ev]\<rparr>) (n + 1))"

definition input_handle_irq :: "('d \<Rightarrow> (input_event \<times> 'd) option) \<Rightarrow> 'd input_wrapper \<Rightarrow> sched \<Rightarrow> ('d input_wrapper \<times> sched) option" where
  "input_handle_irq pop i s = do {
     (n, i') \<leftarrow> input_drain pop i 0;
     Some (if positive_i32 n
       then (case condvar_signal (i_condvar i') s of (cv, s') \<Rightarrow> (i'\<lparr>i_condvar := cv\<rparr>, s'))
       else (i', s))
   }"

definition input_is_empty :: "'d input_wrapper \<Rightarrow> bool" where
  "input_is_empty i \<longleftrightarrow> events i = []"

definition read_event :: "'d input_wrapper \<Rightarrow> sched \<Rightarrow> (nat option \<times> 'd input_wrapper \<times> sched) option" where
  "read_event i s = (case events i of
     ev # rest \<Rightarrow> Some (Some ev, i\<lparr>events := rest\<rparr>, s)
   | [] \<Rightarrow> do {
       (cv, s') \<leftarrow> wait_no_sched (i_condvar i) s;
       Some (None, i\<lparr>i_condvar := cv\<rparr>, s')
     })"

text \<open>The user library: \<open>user/src/input.rs\<close>.\<close>

definition event_from :: "nat \<Rightarrow> input_event" where
  "event_from v = \<lparr>event_type = (v div 2 ^ 48) mod 2 ^ 16, code = (v div 2 ^ 32) mod 2 ^ 16, event_value = v mod 2 ^ 32\<rparr>"

definition event_get :: "int \<Rightarrow> input_event option" where
  "event_get raw_value = (if raw_value = 0 then None else Some (event_from (as_usize raw_value)))"

definition key_pressed :: "int \<Rightarrow> bool" where
  "key_pressed r \<longleftrightarrow> r = 1"

section \<open>The block device\<close>

text \<open>Non-blocking requests: the crate gives a token for the request, the caller is parked at the
  condition variable of the token until the interrupt handler finds the token used. \<open>submit\<close> is
  \<open>read_block_nb\<close> or \<open>write_block_nb\<close> with its arguments, \<open>pop_used\<close> the function of the crate.\<close>

record 'd virtio_block =
  vb_dev :: 'd
  vb_condvars :: "nat \<Rightarrow> condvar option"

definition vb_new :: "nat \<Rightarrow> 'd \<Rightarrow> 'd virtio_block" where
  "vb_new channels d = \<lparr>vb_dev = d, vb_condvars = \<lambda>i. if i < channels then Some condvar_new else None\<rparr>"

definition vb_request_nb :: "('d \<Rightarrow> (nat \<times> 'd) option) \<Rightarrow> 'd virtio_block \<Rightarrow> sched \<Rightarrow> ('d virtio_block \<times> sched) option" where
  "vb_request_nb submit b s = do {
     (token, d) \<leftarrow> submit (vb_dev b);
     cv \<leftarrow> vb_condvars b token;
     (cv', s') \<leftarrow> wait_no_sched cv s;
     Some (b\<lparr>vb_dev := d, vb_condvars := (vb_condvars b)(token \<mapsto> cv')\<rparr>, s')
   }"

text \<open>\<open>sync_io\<close> is \<open>read_block\<close> or \<open>write_block\<close> of the crate. The first component says whether the caller
  is parked; when it is woken the status of the response has to be \<open>Ok\<close>.\<close>

definition vb_read_block :: "bool \<Rightarrow> ('d \<Rightarrow> (nat \<times> 'd) option) \<Rightarrow> ('d \<Rightarrow> 'd option) \<Rightarrow> 'd virtio_block \<Rightarrow> sched \<Rightarrow>
    (bool \<times> 'd virtio_block \<times> sched) option" where
  "vb_read_block nb submit sync_io b s = (if nb
     then map_option (Pair True) (vb_request_nb submit b s)
     else do { d \<leftarrow> sync_io (vb_dev b); Some (False, b\<lparr>vb_dev := d\<rparr>, s) })"

definition vb_write_block :: "bool \<Rightarrow> ('d \<Rightarrow> (nat \<times> 'd) option) \<Rightarrow> ('d \<Rightarrow> 'd option) \<Rightarrow> 'd virtio_block \<Rightarrow> sched \<Rightarrow>
    (bool \<times> 'd virtio_block \<times> sched) option" where
  "vb_write_block nb submit sync_io b s = (if nb
     then map_option (Pair True) (vb_request_nb submit b s)
     else do { d \<leftarrow> sync_io (vb_dev b); Some (False, b\<lparr>vb_dev := d\<rparr>, s) })"

definition vb_resume :: "bool \<Rightarrow> unit option" where
  "vb_resume status_ok = assert_opt status_ok"

partial_function (option) vb_handle_irq :: "('d \<Rightarrow> (nat \<times> 'd) option) \<Rightarrow> 'd virtio_block \<Rightarrow> sched \<Rightarrow> ('d virtio_block \<times> sched) option option" where
  "vb_handle_irq pop_used b s = (case pop_used (vb_dev b) of
     None \<Rightarrow> Some (Some (b, s))
   | Some (token, d) \<Rightarrow> (case vb_condvars b token of
       None \<Rightarrow> Some None
     | Some cv \<Rightarrow> (case condvar_signal cv s of (cv', s') \<Rightarrow>
         vb_handle_irq pop_used (b\<lparr>vb_dev := d, vb_condvars := (vb_condvars b)(token \<mapsto> cv')\<rparr>) s')))"

section \<open>The memory of the virtio queues\<close>

definition dma_alloc_rest :: "nat \<Rightarrow> nat \<Rightarrow> nat list \<times> kmem \<Rightarrow> (nat list \<times> kmem) option" where
  "dma_alloc_rest ppn_base i x = (case x of (queue, m) \<Rightarrow> (case frame_alloc m of
     (None, m') \<Rightarrow> None
   | (Some ppn, m') \<Rightarrow> if ppn = ppn_base + i then Some (queue @ [ppn], m') else None))"

definition dma_alloc :: "nat \<Rightarrow> nat list \<times> kmem \<Rightarrow> (nat \<times> nat list \<times> kmem) option" where
  "dma_alloc pages x = (case x of (queue, m) \<Rightarrow> (case frame_alloc m of
     (None, m') \<Rightarrow> None
   | (Some ppn_base, m') \<Rightarrow> do {
       (queue', m'') \<leftarrow> fold_opt (dma_alloc_rest ppn_base) [1..<pages] (queue @ [ppn_base], m');
       Some (addr_from_pn ppn_base, queue', m'')
     }))"

definition dma_dealloc :: "nat \<Rightarrow> nat \<Rightarrow> kmem \<Rightarrow> kmem option" where
  "dma_dealloc pa pages m = do {
     ppn_base \<leftarrow> pn_from_addr (phys_addr_from pa);
     fold_opt (\<lambda>i. frame_dealloc (ppn_base + i)) [0..<pages] m
   }"

definition phys_to_virt :: "nat \<Rightarrow> nat" where
  "phys_to_virt addr = addr"

definition virt_to_phys :: "nat \<Rightarrow> kernel \<Rightarrow> nat option" where
  "virt_to_phys vaddr k = pt_translate_va (pt_from_token (ms_token (k_space k))) (virt_addr_from vaddr) (k_mem k)"

section \<open>Interrupts\<close>

record ('k, 'b, 'u) devices =
  dv_plic :: mmio
  dv_keyboard :: "'k input_wrapper"
  dv_mouse :: "'k input_wrapper"
  dv_block :: "'b virtio_block"
  dv_uart :: "'u ns16550a"

definition irq_handler :: "('k \<Rightarrow> (input_event \<times> 'k) option) \<Rightarrow> ('b \<Rightarrow> (nat \<times> 'b) option) \<Rightarrow> 'u reg_read \<Rightarrow>
    ('k, 'b, 'u) devices \<Rightarrow> sched \<Rightarrow> (('k, 'b, 'u) devices \<times> sched) option" where
  "irq_handler pop pop_used rd dv s = do {
     let intr_src_id = plic_claim VIRT_PLIC 0 Supervisor (dv_plic dv);
     (dv', s') \<leftarrow>
       (if intr_src_id = 5 then do { (i, s') \<leftarrow> input_handle_irq pop (dv_keyboard dv) s; Some (dv\<lparr>dv_keyboard := i\<rparr>, s') }
        else if intr_src_id = 6 then do { (i, s') \<leftarrow> input_handle_irq pop (dv_mouse dv) s; Some (dv\<lparr>dv_mouse := i\<rparr>, s') }
        else if intr_src_id = 8 then do { (b, s') \<leftarrow> returned (vb_handle_irq pop_used (dv_block dv) s); Some (dv\<lparr>dv_block := b\<rparr>, s') }
        else if intr_src_id = 10 then do { (u, s') \<leftarrow> uart_handle_irq rd (dv_uart dv) s; Some (dv\<lparr>dv_uart := u\<rparr>, s') }
        else None);
     Some (dv'\<lparr>dv_plic := plic_complete VIRT_PLIC 0 Supervisor intr_src_id (dv_plic dv')\<rparr>, s')
   }"

section \<open>What the board sets up\<close>

lemma bit_enable: "bit (w OR push_bit j (1 :: 32 word)) i \<longleftrightarrow> bit w i \<or> i = j \<and> j < 32" if "i < 32"
  using that by (auto simp: bit_simps)

lemma board_init_eq:
  "board_init m = Some (m(0x0C201000 := 0, 0x0C200000 := 1, 0x0C000014 := 1, 0x0C000018 := 1, 0x0C000020 := 1, 0x0C000028 := 1,
     0x0C002080 := (((m 0x0C002080 OR push_bit 5 1) OR push_bit 6 1) OR push_bit 8 1) OR push_bit 10 1))"
  by (auto simp: board_init_def set_threshold_def threshold_ptr_def hart_id_with_priority_def supported_number_def priority_num_def
      VIRT_PLIC_def set_priority_def priority_ptr_def enable_def enable_ptr_def fun_eq_iff)

text \<open>\<open>board::init\<close> does not panic. Afterwards the supervisor context of hart 0 takes every
  priority above 0 and the machine context none of priority 1, the sources of keyboard, mouse, block
  device and serial port have priority 1 and are enabled for the supervisor, no other source is
  switched on or off there, and only registers in the window of the interrupt controller that the kernel
  maps are written.\<close>

theorem board_init_correct:
  "\<exists>m'. board_init m = Some m' \<and> threshold VIRT_PLIC 0 Supervisor m' = 0 \<and> threshold VIRT_PLIC 0 Machine m' = 1 \<and>
    (\<forall>src\<in>{5, 6, 8, 10}. priority VIRT_PLIC src m' = Some 1) \<and>
    (\<forall>src\<le>132. case enable_ptr VIRT_PLIC 0 Supervisor src of (reg, sh) \<Rightarrow>
       bit (m' reg) sh = (src \<in> {5, 6, 8, 10} \<or> bit (m reg) sh)) \<and>
    (\<forall>a. m' a \<noteq> m a \<longrightarrow> 0x0C000000 \<le> a \<and> a + 4 \<le> 0x0C000000 + 0x210000) \<and> (0x0C000000, 0x210000) \<in> set MMIO"
proof -
  let ?w = "(((m 0x0C002080 OR push_bit 5 1) OR push_bit 6 1) OR push_bit 8 1) OR push_bit 10 1 :: 32 word"
  have ptr: "enable_ptr VIRT_PLIC 0 Supervisor src = (0x0C002080 + 4 * (src div 32), src mod 32)" for src
    by (simp add: enable_ptr_def hart_id_with_priority_def supported_number_def priority_num_def VIRT_PLIC_def)
  have w: "bit ?w i \<longleftrightarrow> bit (m 0x0C002080) i \<or> i \<in> {5, 6, 8, 10}" if "i < 32" for i
    by (simp only: bit_enable [OF that]) auto
  have en: "case enable_ptr VIRT_PLIC 0 Supervisor src of (reg, sh) \<Rightarrow>
      bit ((m(0x0C201000 := 0, 0x0C200000 := 1, 0x0C000014 := 1, 0x0C000018 := 1, 0x0C000020 := 1, 0x0C000028 := 1, 0x0C002080 := ?w)) reg) sh =
        (src \<in> {5, 6, 8, 10} \<or> bit (m reg) sh)" if "src \<le> 132" for src
  proof (cases "src < 32")
    case True
    then show ?thesis using w [of src] by (auto simp: ptr)
  next
    case False
    then have "src div 32 \<in> {1, 2, 3, 4}" using that by (auto simp: div_le_mono)
    then show ?thesis using False by (auto simp: ptr)
  qed
  show ?thesis using en unfolding board_init_eq
    by (simp add: threshold_def threshold_ptr_def hart_id_with_priority_def supported_number_def priority_num_def VIRT_PLIC_def
        priority_def priority_ptr_def MMIO_def)
qed

theorem board_init_witness:
  "\<exists>m'. board_init (\<lambda>_. 0) = Some m' \<and> priority VIRT_PLIC 10 m' = Some 1 \<and> bit (m' 0x0C002080) 10 \<and> \<not> bit (m' 0x0C002080) 7"
proof -
  obtain m' where m': "board_init (\<lambda>_. 0) = Some m'" "priority VIRT_PLIC 10 m' = Some 1"
    "\<forall>src\<le>132. case enable_ptr VIRT_PLIC 0 Supervisor src of (reg, sh) \<Rightarrow>
       bit (m' reg) sh = (src \<in> {5, 6, 8, 10} \<or> bit (0 :: 32 word) sh)"
    using board_init_correct [of "\<lambda>_. 0"] by auto
  show ?thesis using m' spec [OF m'(3), of 10] spec [OF m'(3), of 7]
    by (simp add: enable_ptr_def hart_id_with_priority_def supported_number_def priority_num_def VIRT_PLIC_def)
qed

section \<open>Bytes from the serial port\<close>

text \<open>What the data sheet says of the receiver: bit 0 of the line status is set exactly while bytes are
  waiting, reading the status takes none, and reading the buffer register takes the oldest.\<close>

definition fifo_device :: "'d reg_read \<Rightarrow> ns16550a_raw \<Rightarrow> ('d \<Rightarrow> u8 list) \<Rightarrow> bool" where
  "fifo_device rd raw pending \<longleftrightarrow>
     (\<forall>d. pending (snd (rd (rd_lsr (read_end raw)) d)) = pending d \<and>
        contains_flag (fst (rd (rd_lsr (read_end raw)) d)) DATA_AVAILABLE = (pending d \<noteq> [])) \<and>
     (\<forall>d. pending d \<noteq> [] \<longrightarrow> fst (rd (rd_rbr (read_end raw)) d) = hd (pending d) \<and>
        pending (snd (rd (rd_rbr (read_end raw)) d)) = tl (pending d))"

lemma raw_read_fifo:
  assumes "fifo_device rd raw pending"
  shows "pending d = [] \<Longrightarrow> \<exists>d'. raw_read rd raw d = (None, d') \<and> pending d' = []"
    "pending d = c # cs \<Longrightarrow> \<exists>d'. raw_read rd raw d = (Some c, d') \<and> pending d' = cs"
proof -
  let ?d = "snd (rd (rd_lsr (read_end raw)) d)"
  have 1: "pending ?d = pending d" "contains_flag (fst (rd (rd_lsr (read_end raw)) d)) DATA_AVAILABLE = (pending d \<noteq> [])"
    using assms unfolding fifo_device_def by blast+
  show "\<exists>d'. raw_read rd raw d = (None, d') \<and> pending d' = []" if "pending d = []"
    using 1 that by (simp add: raw_read_def case_prod_beta)
  have 2: "fst (rd (rd_rbr (read_end raw)) ?d) = hd (pending ?d)" "pending (snd (rd (rd_rbr (read_end raw)) ?d)) = tl (pending ?d)"
    if "pending ?d \<noteq> []" using assms that unfolding fifo_device_def by blast+
  show "\<exists>d'. raw_read rd raw d = (Some c, d') \<and> pending d' = cs" if "pending d = c # cs"
    using 1 2 that by (simp add: raw_read_def case_prod_beta)
qed

lemma uart_drain_all:
  assumes "fifo_device rd (u_raw u) pending"
  shows "\<exists>d'. uart_drain rd u n = Some (n + length (pending (u_dev u)),
      u\<lparr>u_dev := d', read_buffer := read_buffer u @ pending (u_dev u)\<rparr>) \<and> pending d' = []"
  using assms
proof (induction "pending (u_dev u)" arbitrary: u n)
  case Nil
  then obtain d' where "raw_read rd (u_raw u) (u_dev u) = (None, d')" "pending d' = []" using raw_read_fifo(1) by metis
  then show ?case using Nil by (subst uart_drain.simps) auto
next
  case (Cons c cs)
  then obtain d' where d': "raw_read rd (u_raw u) (u_dev u) = (Some c, d')" "pending d' = cs" using raw_read_fifo(2) by metis
  let ?u = "u\<lparr>u_dev := d', read_buffer := read_buffer u @ [c]\<rparr>"
  obtain d'' where "uart_drain rd ?u (n + 1) = Some (n + 1 + length cs, ?u\<lparr>u_dev := d'', read_buffer := read_buffer ?u @ cs\<rparr>)"
    "pending d'' = []" using Cons.hyps(1) [of ?u "n + 1"] Cons.prems d'(2) by auto
  then show ?case using d'(1) Cons.hyps(2) [symmetric] by (subst uart_drain.simps) auto
qed

lemma positive_i32_small: "0 < n \<Longrightarrow> n < 2 ^ 31 \<Longrightarrow> positive_i32 n"
proof -
  assume "0 < n" "n < 2 ^ 31"
  then have "sint (of_nat n :: 32 word) = int n" by (simp add: signed_of_nat signed_take_bit_int_eq_self)
  then show ?thesis using \<open>0 < n\<close> by (simp add: positive_i32_def)
qed

lemma uart_irq_all:
  assumes "fifo_device rd (u_raw u) pending"
  obtains u' s' where "uart_handle_irq rd u s = Some (u', s')" "pending (u_dev u') = []" "u_raw u' = u_raw u"
    "read_buffer u' = read_buffer u @ pending (u_dev u)"
    "\<And>t q. cv_wait_queue (u_condvar u) = t # q \<Longrightarrow> pending (u_dev u) \<noteq> [] \<Longrightarrow> length (pending (u_dev u)) < 2 ^ 31 \<Longrightarrow>
       s' = wakeup t s \<and> cv_wait_queue (u_condvar u') = q"
proof -
  obtain d' where d': "uart_drain rd u 0 = Some (length (pending (u_dev u)), u\<lparr>u_dev := d', read_buffer := read_buffer u @ pending (u_dev u)\<rparr>)"
    "pending d' = []" using uart_drain_all [OF assms, of 0] by auto
  obtain cv s' where cv: "condvar_signal (u_condvar u) s = (cv, s')" by fastforce
  show thesis
  proof (cases "positive_i32 (length (pending (u_dev u)))")
    case True
    show thesis
      by (rule that [of "u\<lparr>u_dev := d', read_buffer := read_buffer u @ pending (u_dev u), u_condvar := cv\<rparr>" s'])
        (use True d' cv in \<open>auto simp: uart_handle_irq_def condvar_signal_def split: list.splits\<close>)
  next
    case False
    show thesis
      by (rule that [of "u\<lparr>u_dev := d', read_buffer := read_buffer u @ pending (u_dev u)\<rparr>" s])
        (use False d' positive_i32_small in \<open>auto simp: uart_handle_irq_def\<close>)
  qed
qed

text \<open>Runs of the driver: a byte arrives, the interrupt handler runs, a thread reads and gets a byte or
  is parked, and the scheduler does anything in between. The lists are the bytes that arrived and
  the bytes that were read.\<close>

inductive uart_run :: "'d reg_read \<Rightarrow> ('d \<Rightarrow> u8 list) \<Rightarrow> 'd ns16550a \<Rightarrow> 'd ns16550a \<Rightarrow> sched \<Rightarrow> u8 list \<Rightarrow> u8 list \<Rightarrow> bool"
  for rd pending u0 where
  Fresh: "uart_run rd pending u0 u0 s [] []"
| Arrive: "uart_run rd pending u0 u s rx got \<Longrightarrow> pending d' = pending (u_dev u) @ [c] \<Longrightarrow>
    uart_run rd pending u0 (u\<lparr>u_dev := d'\<rparr>) s (rx @ [c]) got"
| Irq: "uart_run rd pending u0 u s rx got \<Longrightarrow> uart_handle_irq rd u s = Some (u', s') \<Longrightarrow> uart_run rd pending u0 u' s' rx got"
| Get: "uart_run rd pending u0 u s rx got \<Longrightarrow> uart_read u s = Some (Some c, u', s') \<Longrightarrow>
    uart_run rd pending u0 u' s' rx (got @ [c])"
| Park: "uart_run rd pending u0 u s rx got \<Longrightarrow> uart_read u s = Some (None, u', s') \<Longrightarrow> uart_run rd pending u0 u' s' rx got"
| Schedule: "uart_run rd pending u0 u s rx got \<Longrightarrow> uart_run rd pending u0 u s' rx got"

lemma uart_read_cases:
  "uart_read u s = Some (Some c, u', s') \<Longrightarrow> read_buffer u = c # read_buffer u' \<and> u_dev u' = u_dev u \<and> u_raw u' = u_raw u"
  "uart_read u s = Some (None, u', s') \<Longrightarrow> read_buffer u = [] \<and> read_buffer u' = [] \<and> u_dev u' = u_dev u \<and> u_raw u' = u_raw u"
  by (auto simp: uart_read_def bind_eq_Some_conv split: list.splits)

lemma uart_run_inv:
  assumes "uart_run rd pending u0 u s rx got" "fifo_device rd (u_raw u0) pending" "pending (u_dev u0) = []" "read_buffer u0 = []"
  shows "got @ read_buffer u @ pending (u_dev u) = rx \<and> u_raw u = u_raw u0"
  using assms
proof (induction rule: uart_run.induct)
  case (Irq u s rx got u' s')
  then have "fifo_device rd (u_raw u) pending" by simp
  then show ?case using Irq by (elim uart_irq_all [of rd u pending s]) auto
qed (auto dest!: uart_read_cases)

text \<open>C17: The serial port. In every run the bytes read, the buffer and the bytes waiting in the device
  are the bytes that arrived, in order. The interrupt handler always ends and takes everything
  the device has; if it takes a byte, the thread that waits longest becomes ready.\<close>

theorem uart_bytes_in_order:
  assumes "uart_new base d0 = Some u0" "pending d0 = []" "fifo_device rd (u_raw u0) pending" "uart_run rd pending u0 u s rx got"
  shows "got @ read_buffer u @ pending (u_dev u) = rx \<and>
    (\<exists>u' s'. uart_handle_irq rd u s = Some (u', s') \<and> pending (u_dev u') = [] \<and>
       read_buffer u' = read_buffer u @ pending (u_dev u) \<and>
       (\<forall>t q. cv_wait_queue (u_condvar u) = t # q \<and> pending (u_dev u) \<noteq> [] \<and> length (pending (u_dev u)) < 2 ^ 31 \<longrightarrow>
          t \<in> set (ready_queue s') \<and> cv_wait_queue (u_condvar u') = q))"
proof -
  have "pending (u_dev u0) = []" "read_buffer u0 = []" using assms(1,2) by (auto simp: uart_new_def bind_eq_Some_conv)
  note inv = uart_run_inv [OF assms(4,3) this]
  then have "fifo_device rd (u_raw u) pending" using assms(3) by simp
  then obtain u' s' where "uart_handle_irq rd u s = Some (u', s')" "pending (u_dev u') = []" "u_raw u' = u_raw u"
    "read_buffer u' = read_buffer u @ pending (u_dev u)"
    "\<And>t q. cv_wait_queue (u_condvar u) = t # q \<Longrightarrow> pending (u_dev u) \<noteq> [] \<Longrightarrow> length (pending (u_dev u)) < 2 ^ 31 \<Longrightarrow>
       s' = wakeup t s \<and> cv_wait_queue (u_condvar u') = q" by (rule uart_irq_all [where s=s]) (rule that)
  then show ?thesis using inv by (intro conjI exI [of _ u'] exI [of _ s']) auto
qed

text \<open>A receiver that is its queue of bytes.\<close>

definition sample_reg_read :: "u8 list reg_read" where
  "sample_reg_read a d = (if a = VIRT_UART + 5 then (if d = [] then 0 else 1, d) else (hd d, tl d))"

lemma sample_uart:
  "\<exists>u0 :: u8 list ns16550a. uart_new VIRT_UART [] = Some u0 \<and> fifo_device sample_reg_read (u_raw u0) (\<lambda>d. d) \<and> u_dev u0 = [] \<and>
     read_buffer u0 = [] \<and> u_condvar u0 = condvar_new"
  by (auto simp: uart_new_def raw_new_def reg_addr_def VIRT_UART_def fifo_device_def sample_reg_read_def contains_flag_def DATA_AVAILABLE_def)

theorem uart_bytes_witness:
  "\<exists>(u0 :: u8 list ns16550a) u. uart_new VIRT_UART [] = Some u0 \<and> (\<forall>s. \<exists>u' s'. uart_handle_irq sample_reg_read u s = Some (u', s') \<and>
     read_buffer u' = [0x6c, 0x73])"
proof -
  obtain u0 :: "u8 list ns16550a" where u0: "uart_new VIRT_UART [] = Some u0" "fifo_device sample_reg_read (u_raw u0) (\<lambda>d. d)" "u_dev u0 = []" "read_buffer u0 = []"
    using sample_uart by blast
  have r: "uart_run sample_reg_read (\<lambda>d. d) u0 (u0\<lparr>u_dev := [0x6c], u_dev := [0x6c, 0x73]\<rparr>) s (([] @ [0x6c]) @ [0x73]) []" for s
    by (intro Arrive Fresh) (simp_all add: u0(3))
  show ?thesis using uart_bytes_in_order [OF u0(1) _ u0(2) r] u0(1,4)
    by (intro exI [of _ u0] exI [of _ "u0\<lparr>u_dev := [0x6c], u_dev := [0x6c, 0x73]\<rparr>"]) fastforce
qed

text \<open>One interrupt wakes one thread, however many bytes it brings: with two threads waiting and two
  bytes the second thread stays parked while a byte is left for it.\<close>

lemma irq_wakes_one:
  assumes "fifo_device rd (u_raw u) pending" "pending (u_dev u) = [a, b]" "read_buffer u = []" "cv_wait_queue (u_condvar u) = [t1, t2]"
  shows "\<exists>u1 s1 u2. uart_handle_irq rd u s = Some (u1, s1) \<and> s1 = wakeup t1 s \<and>
    (\<forall>s2. uart_read u1 s2 = Some (Some a, u2, s2)) \<and> read_buffer u2 = [b] \<and> cv_wait_queue (u_condvar u2) = [t2]"
proof -
  obtain u1 s1 where u1: "uart_handle_irq rd u s = Some (u1, s1)" "read_buffer u1 = [a, b]" "s1 = wakeup t1 s" "cv_wait_queue (u_condvar u1) = [t2]"
    by (rule uart_irq_all [OF assms(1), of s]) (use assms(2-4) in auto)
  then show ?thesis by (intro exI [of _ u1] exI [of _ s1] exI [of _ "u1\<lparr>read_buffer := [b]\<rparr>"]) (simp add: uart_read_def)
qed

section \<open>Events from keyboard and mouse\<close>

lemma or_shifted: "push_bit n a OR b = a * 2 ^ n + b" if "b < 2 ^ n" for a b :: nat
proof -
  have lt: "bit b k \<Longrightarrow> k < n" for k using that by (metis bit_take_bit_iff take_bit_nat_eq_self_iff)
  have "push_bit n a AND b = 0" by (auto simp: bit_eq_iff bit_simps dest!: lt)
  then have "push_bit n a OR b = push_bit n a + b" by (simp add: disjunctive_add [symmetric] bit_eq_iff bit_and_iff)
  then show ?thesis by (simp add: push_bit_eq_mult)
qed

lemma pack_event_sum:
  assumes "code ev < 2 ^ 16" "event_value ev < 2 ^ 32"
  shows "pack_event ev = event_type ev * 2 ^ 48 + (code ev * 2 ^ 32 + event_value ev)"
proof -
  have "code ev * 2 ^ 32 + event_value ev < 2 ^ 48" using assms by simp
  then show ?thesis using or_shifted [OF assms(2), of "code ev"] or_shifted [of "code ev * 2 ^ 32 + event_value ev" 48]
    by (simp only: pack_event_def)
qed



end
