(* ===== verification/System.thy ===== *)
theory System
  imports FdInv Trampoline Drivers
begin

text \<open>
  The kernel as a whole: runs made of traps from programs, traps from the kernel itself, and passes of
  the idle loop, with the interrupt handler of the board in the place of the external
  interrupt. Each system call is one step; an interrupt inside a call comes before or after it.
\<close>

section \<open>Runs of the kernel\<close>

text \<open>What an external interrupt does to the kernel: the drivers wake threads.\<close>

definition board_irq :: "('k \<Rightarrow> (input_event \<times> 'k) option) \<Rightarrow> ('b \<Rightarrow> (nat \<times> 'b) option) \<Rightarrow> 'u reg_read \<Rightarrow>
    ('k, 'b, 'u) devices \<Rightarrow> kernel \<Rightarrow> kernel option" where
  "board_irq pop pop_used rd dv k = map_option (\<lambda>(dv', s). k\<lparr>k_sched := s\<rparr>) (irq_handler pop pop_used rd dv (k_sched k))"

inductive kernel_run :: "env \<Rightarrow> ('k \<Rightarrow> (input_event \<times> 'k) option) \<Rightarrow> ('b \<Rightarrow> (nat \<times> 'b) option) \<Rightarrow> 'u reg_read \<Rightarrow>
    kernel \<Rightarrow> kernel \<Rightarrow> bool" for e pop pop_used rd k0 where
  Boot: "kernel_run e pop pop_used rd k0 k0"
| UserTrap: "kernel_run e pop pop_used rd k0 k \<Longrightarrow> user_handler e mc (board_irq pop pop_used rd dv) cause k = Some r \<Longrightarrow>
    kernel_after r = Some k' \<Longrightarrow> kernel_run e pop pop_used rd k0 k'"
| KernelTrap: "kernel_run e pop pop_used rd k0 k \<Longrightarrow> kernel_handler mc (board_irq pop pop_used rd dv) cause k = Some k' \<Longrightarrow>
    kernel_run e pop pop_used rd k0 k'"
| Idle: "kernel_run e pop pop_used rd k0 k \<Longrightarrow> current (k_sched k) = None \<Longrightarrow>
    kernel_run e pop pop_used rd k0 (k\<lparr>k_sched := run_next (k_sched k)\<rparr>)"

section \<open>Descriptors\<close>

lemma set_current_trap_cx_ok: "fds_ok k \<Longrightarrow> set_current_trap_cx f k = Some k' \<Longrightarrow> fds_ok k'"
  by (auto simp: set_current_trap_cx_def bind_eq_Some_conv)

lemma add_signal_ok: "fds_ok k \<Longrightarrow> add_signal_to_current sg k = Some k' \<Longrightarrow> fds_ok k'"
  by (auto simp: add_signal_to_current_def bind_eq_Some_conv intro!: fds_frame_ok [OF _ fds_proc_field])

lemma timer_tick_ok [simp]: "fds_ok (timer_tick t k) = fds_ok k"
  by (auto simp: timer_tick_def fds_ok_def split: prod.splits)

lemma board_irq_ok: "fds_ok k \<Longrightarrow> board_irq pop pop_used rd dv k = Some k' \<Longrightarrow> fds_ok k'"
  by (auto simp: board_irq_def)

lemma trap_end_ok: "fds_ok k \<Longrightarrow> trap_end k = Some r \<Longrightarrow> kernel_after r = Some k' \<Longrightarrow> fds_ok k'"
  by (auto simp: trap_end_def bind_eq_Some_conv split: option.splits dest!: ret_exit_SomeD fds_exit_current intro: fds_frame_ok)

lemma bind_SomeE: "Option.bind x f = Some y \<Longrightarrow> (\<And>z. x = Some z \<Longrightarrow> f z = Some y \<Longrightarrow> P) \<Longrightarrow> P"
  by (cases x) auto

lemma env_call_ok:
  assumes "fds_ok k" "env_call e mc k = Some r" "kernel_after r = Some k'"
  shows "fds_ok k'"
proof -
  obtain k1 n args r1 where c: "set_current_trap_cx (\<lambda>cx. cx\<lparr>tc_sepc := (tc_sepc cx + 4) mod 2 ^ 64\<rparr>) k = Some k1"
    "syscall e mc n args k1 = Some r1"
    "(case r1 of Ret result k2 \<Rightarrow> Option.bind (set_current_trap_cx (\<lambda>cx. cx\<lparr>tc_x := (tc_x cx)[10 := as_usize result]\<rparr>) k2) trap_end
      | Away k2 \<Rightarrow> Some r1 | Off b \<Rightarrow> Some r1) = Some r"
    using assms(2) unfolding env_call_def by (elim bind_SomeE) (rule that; assumption)
  have k1: "fds_ok k1" by (rule set_current_trap_cx_ok [OF assms(1) c(1)])
  obtain cl where run: "run_call e mc cl k1 = Some r1" using c(2) by (auto simp: syscall_def bind_eq_Some_conv)
  show ?thesis
  proof (cases r1)
    case (Ret result k2)
    then have "fds_ok k2" using run_call_ok [OF k1 run] by simp
    then show ?thesis using c(3) Ret assms(3) by (auto simp: bind_eq_Some_conv intro: trap_end_ok set_current_trap_cx_ok)
  qed (use c(3) assms(3) run_call_ok [OF k1 run] in auto)
qed

lemma user_handler_ok:
  assumes "fds_ok k" "user_handler e mc (board_irq pop pop_used rd dv) cause k = Some r" "kernel_after r = Some k'"
  shows "fds_ok k'"
  using assms env_call_ok [OF assms(1)]
  by (cases cause) (auto simp: bind_eq_Some_conv intro: trap_end_ok add_signal_ok board_irq_ok)



end
