(* ===== verification/Shell.thy ===== *)
theory Shell
  imports OsFs
begin

text \<open>
  The command line of the shell: \<open>apps/src/bin/shell.rs\<close>. A line is read byte by byte and each byte is a
  character of the \<open>String\<close>, so a line is a list of bytes. What the shell does with a line is a value;
  the questions it asks the kernel on the way (whether a path is a directory) are an argument.
\<close>

section \<open>Reading a line\<close>

definition LF :: u8 where "LF = 0x0a"
definition CR :: u8 where "CR = 0x0d"
definition DL :: u8 where "DL = 0x7f"
definition BS :: u8 where "BS = 0x08"

text \<open>The bytes that \<open>getchar\<close> delivers are a list; the result is the line, what is echoed, and the rest of
  the input. \<open>None\<close>: the line is not finished yet.\<close>

fun getline :: "u8 list \<Rightarrow> u8 list \<Rightarrow> u8 list \<Rightarrow> (u8 list \<times> u8 list \<times> u8 list) option" where
  "getline [] input echoed = None"
| "getline (ch # chs) input echoed = (
     if ch = DL then
       (if input \<noteq> [] then getline chs (butlast input) (echoed @ [BS, 0x20, BS]) else getline chs input echoed)
     else if ch = LF \<or> ch = CR then Some (input, echoed @ [0x0a], chs)
     else getline chs (input @ [ch]) (echoed @ [ch]))"

section \<open>Words\<close>

text \<open>\<open>char::is_whitespace\<close> below 256.\<close>

definition white :: "u8 \<Rightarrow> bool" where
  "white c \<longleftrightarrow> 9 \<le> c \<and> c \<le> 13 \<or> c = 0x20 \<or> c = 0x85 \<or> c = 0xA0"

fun words_loop :: "u8 list \<Rightarrow> u8 list \<Rightarrow> u8 list list" where
  "words_loop [] w = (if w = [] then [] else [w])"
| "words_loop (c # cs) w = (if white c then (if w = [] then [] else [w]) @ words_loop cs [] else words_loop cs (w @ [c]))"

definition split_whitespace :: "u8 list \<Rightarrow> u8 list list" where
  "split_whitespace s = words_loop s []"

section \<open>Commands\<close>

definition GT :: "u8 list" where "GT = [0x3e]"
definition LT :: "u8 list" where "LT = [0x3c]"

record command_arguments =
  argc :: nat
  argv :: "u8 list list"
  input_file :: "u8 list option"
  output_file :: "u8 list option"

fun args_loop :: "u8 list list \<Rightarrow> command_arguments \<Rightarrow> command_arguments" where
  "args_loop [] c = c"
| "args_loop [arg] c = (
     if arg = GT then c\<lparr>output_file := None\<rparr>
     else if arg = LT then c\<lparr>input_file := None\<rparr>
     else c\<lparr>argc := argc c + 1, argv := argv c @ [arg]\<rparr>)"
| "args_loop (arg # arg' # args) c = (
     if arg = GT then args_loop args (c\<lparr>output_file := Some arg'\<rparr>)
     else if arg = LT then args_loop args (c\<lparr>input_file := Some arg'\<rparr>)
     else args_loop (arg' # args) (c\<lparr>argc := argc c + 1, argv := argv c @ [arg]\<rparr>))"

definition command_new :: "u8 list \<Rightarrow> command_arguments" where
  "command_new command = args_loop (split_whitespace command) \<lparr>argc = 0, argv = [], input_file = None, output_file = None\<rparr>"

text \<open>One round of the loop of \<open>main\<close>. \<open>Spawn\<close> is a fork whose child redirects its input and output, if
  asked to, and executes the path; \<open>None\<close> is the panic of \<open>argv[0]\<close>.\<close>

datatype shell_action = Again | Cd "u8 list" | TooMany | Leave
  | Spawn "u8 list option" "u8 list option" "u8 list" "u8 list list"

definition cd_word :: "u8 list" where "cd_word = [0x63, 0x64]"
definition exit_word :: "u8 list" where "exit_word = [0x65, 0x78, 0x69, 0x74]"
definition bin_prefix :: "u8 list" where "bin_prefix = [0x2f, 0x62, 0x69, 0x6e, 0x2f]"

definition command_path :: "u8 list \<Rightarrow> u8 list" where
  "command_path path = (if slash \<in> set path then path else bin_prefix @ path)"

definition shell_step :: "(u8 list \<Rightarrow> bool) \<Rightarrow> u8 list \<Rightarrow> shell_action option" where
  "shell_step dir_p line = (if line = [] then Some Again
     else do {
       let cmd = command_new line;
       path \<leftarrow> nth_opt (argv cmd) 0;
       if path = cd_word then
         (if argc cmd = 1 then Some (Cd [slash])
          else if argc cmd = 2 then do { p \<leftarrow> nth_opt (argv cmd) 1; Some (Cd p) }
          else Some TooMany)
       else if path = exit_word then Some Leave
       else if dir_p path \<and> argc cmd = 1 then Some (Cd path)
       else Some (Spawn (input_file cmd) (output_file cmd) (command_path path) (argv cmd))
     })"

section \<open>Parsing what was typed\<close>

lemma words_loop_word:
  assumes "\<forall>c\<in>set w. \<not> white c"
  shows "words_loop (w @ s) v = words_loop s (v @ w)"
  using assms by (induction w arbitrary: v) auto

definition word_ok :: "u8 list \<Rightarrow> bool" where
  "word_ok w \<longleftrightarrow> w \<noteq> [] \<and> (\<forall>c\<in>set w. \<not> white c)"

text \<open>Words with a space after each.\<close>

definition typed :: "u8 list list \<Rightarrow> u8 list" where
  "typed ws = concat (map (\<lambda>w. w @ [0x20]) ws)"

lemma split_typed: "\<forall>w\<in>set ws. word_ok w \<Longrightarrow> split_whitespace (typed ws) = ws"
proof (induction ws)
  case (Cons w ws)
  then have "words_loop (w @ 0x20 # typed ws) [] = w # split_whitespace (typed ws)"
    using words_loop_word [of w "0x20 # typed ws" "[]"] by (simp add: word_ok_def split_whitespace_def white_def)
  then show ?case using Cons by (simp add: typed_def split_whitespace_def)
qed (simp add: typed_def split_whitespace_def)

lemma args_loop_plain:
  "\<forall>w\<in>set ws. w \<noteq> GT \<and> w \<noteq> LT \<Longrightarrow> args_loop (ws @ rest) c = args_loop rest (c\<lparr>argc := argc c + length ws, argv := argv c @ ws\<rparr>)"
proof (induction ws arbitrary: c)
  case (Cons w ws)
  have "args_loop (w # (ws @ rest)) c = args_loop (ws @ rest) (c\<lparr>argc := argc c + 1, argv := argv c @ [w]\<rparr>)"
    using Cons.prems by (cases "ws @ rest") auto
  then show ?case using Cons by simp
qed simp

lemma words_loop_white: "\<forall>c\<in>set s. white c \<Longrightarrow> words_loop s [] = []"
  by (induction s) auto

text \<open>C38: The command line. A typed command with redirections of its output and input is taken apart
  into exactly its words and the two files, and \<open>argc\<close> counts the words. A line that is not empty but
  has no word for \<open>argv[0]\<close>, made of blanks or of a redirection only, makes the shell panic.\<close>

theorem command_round_trip:
  assumes "\<forall>w\<in>set ws. word_ok w \<and> w \<noteq> GT \<and> w \<noteq> LT" "word_ok out" "word_ok inp" "blanks \<noteq> []" "\<forall>c\<in>set blanks. white c"
  shows "command_new (typed (ws @ [GT, out, LT, inp])) =
      \<lparr>argc = length ws, argv = ws, input_file = Some inp, output_file = Some out\<rparr> \<and>
    command_new (typed ws) = \<lparr>argc = length ws, argv = ws, input_file = None, output_file = None\<rparr> \<and>
    shell_step dir_p blanks = None \<and> shell_step dir_p (typed [GT, out]) = None"
proof -
  have w: "word_ok GT" "word_ok LT" "GT \<noteq> LT" by (auto simp: word_ok_def GT_def LT_def white_def)
  have s: "split_whitespace (typed (ws @ [GT, out, LT, inp])) = ws @ [GT, out, LT, inp]" "split_whitespace (typed ws) = ws @ []"
    "split_whitespace (typed [GT, out]) = [GT, out]" "split_whitespace blanks = []"
    using assms w words_loop_white [of blanks] by (simp_all add: split_typed split_whitespace_def [of blanks])
  have ne: "typed [GT, out] \<noteq> []" by (simp add: typed_def)
  show ?thesis using assms(1,4) w(3) ne using args_loop_plain [of ws "[]"] by (simp add: command_new_def s args_loop_plain shell_step_def)
qed

theorem command_round_trip_witness:
  "command_new [0x6c, 0x73, 0x20, 0x3e, 0x20, 0x66, 0x20, 0x3c, 0x20, 0x67, 0x20] =
     \<lparr>argc = 1, argv = [[0x6c, 0x73]], input_file = Some [0x67], output_file = Some [0x66]\<rparr> \<and>
   shell_step (\<lambda>_. False) [0x20, 0x20] = None"
  using command_round_trip [of "[[0x6c, 0x73]]" "[0x66]" "[0x67]" "[0x20, 0x20]" "\<lambda>_. False"]
  by (simp add: word_ok_def white_def GT_def LT_def typed_def)

end
